(* ===== verification/Nori_Prelude.thy ===== *)
theory Nori_Prelude
  imports Main "HOL-Library.AList" "HOL-Library.Multiset"
begin

text \<open>
  Shared vocabulary of the development: the error codes the C++ code returns, the
  integer widths it computes with, the two associative containers of the C++ standard
  library that it iterates over, and the list lemmas that the component theories share.

  A failed \<^verbatim>\<open>CHECK\<close> of \<^verbatim>\<open>net/butil/logging.h\<close> logs and goes on
  (\<^verbatim>\<open>FLAGS_crash_on_fatal_log\<close> is false by default, \<^verbatim>\<open>net/butil/logging.cc:119\<close>),
  so the models continue after one exactly as the code does.
\<close>

named_theorems raft_defs \<open>unfolding rules of the operations of the raft components\<close>
named_theorems noah_defs \<open>unfolding rules of the operations of the noah components\<close>

subsection \<open>Error codes\<close>

text \<open>The values of \<^verbatim>\<open>errno.h\<close> on Linux that the modelled operations return.\<close>

abbreviation (input) EPERM :: int where "EPERM \<equiv> 1"
abbreviation (input) EIO :: int where "EIO \<equiv> 5"
abbreviation (input) EINVAL :: int where "EINVAL \<equiv> 22"
abbreviation (input) ERANGE :: int where "ERANGE \<equiv> 34"

subsection \<open>Fixed-width integers\<close>

text \<open>
  Conversion to \<^verbatim>\<open>int32_t\<close> keeps the low 32 bits and reads them as two's
  complement. The code adds \<^verbatim>\<open>int32_t\<close> values whose sum the hardware wraps.
\<close>

definition to_int32 :: "int \<Rightarrow> int" where
  "to_int32 x = (x + 2147483648) mod 4294967296 - 2147483648"

definition in_int32 :: "int \<Rightarrow> bool" where
  "in_int32 x \<longleftrightarrow> - 2147483648 \<le> x \<and> x < 2147483648"

lemma to_int32_id [simp]: "in_int32 x \<Longrightarrow> to_int32 x = x"
  by (simp add: to_int32_def in_int32_def)

lemma in_int32_to_int32 [simp]: "in_int32 (to_int32 x)"
  by (simp add: to_int32_def in_int32_def)

subsection \<open>Hash maps and ordered maps\<close>

text \<open>
  A \<^verbatim>\<open>std::unordered_map\<close> is the list of its pairs in iteration order, every key
  once. Assigning to a present key keeps its place; where a new key lands, and how a
  rehash moves the others, is left open: the parameter \<open>rh\<close> rearranges the pairs after
  a new one went in. All that is known of it is that it loses and invents nothing.
\<close>

type_synonym ('k, 'v) umap = "('k \<times> 'v) list"

definition rearranges :: "(('k \<times> 'v) list \<Rightarrow> ('k \<times> 'v) list) \<Rightarrow> bool" where
  "rearranges rh \<longleftrightarrow> (\<forall>m. mset (rh m) = mset m)"

definition umap_wf :: "('k, 'v) umap \<Rightarrow> bool" where
  "umap_wf m \<longleftrightarrow> distinct (map fst m)"

definition umap_put ::
  "(('k \<times> 'v) list \<Rightarrow> ('k \<times> 'v) list) \<Rightarrow> 'k \<Rightarrow> 'v \<Rightarrow> ('k, 'v) umap \<Rightarrow> ('k, 'v) umap" where
  "umap_put rh k v m =
     (if k \<in> fst ` set m then AList.update k v m else rh ((k, v) # m))"

definition umap_erase :: "'k \<Rightarrow> ('k, 'v) umap \<Rightarrow> ('k, 'v) umap" where
  "umap_erase k m = filter (\<lambda>p. fst p \<noteq> k) m"

lemma rearranges_id [simp]: "rearranges (\<lambda>m. m)" "rearranges rev"
  by (simp_all add: rearranges_def)

lemma map_of_cong_mset:
  assumes "mset xs = mset ys" and "distinct (map fst xs)"
  shows "map_of xs = map_of ys"
proof -
  have "mset (map fst xs) = mset (map fst ys)"
    using assms(1) by (metis mset_map)
  then have "distinct (map fst ys)"
    using assms(2) mset_eq_imp_distinct_iff by blast
  moreover have "set xs = set ys"
    using assms(1) by (rule mset_eq_setD)
  ultimately show ?thesis
    using assms(2) by (intro ext) (metis map_of_eq_None_iff map_of_eq_Some_iff not_Some_eq)
qed

lemma umap_wf_rearranged: "rearranges rh \<Longrightarrow> umap_wf (rh m) \<longleftrightarrow> umap_wf m"
  unfolding rearranges_def umap_wf_def by (metis mset_eq_imp_distinct_iff mset_map)

lemma umap_wf_Nil [simp]: "umap_wf []"
  by (simp add: umap_wf_def)

lemma umap_wf_put [simp]: "rearranges rh \<Longrightarrow> umap_wf m \<Longrightarrow> umap_wf (umap_put rh k v m)"
  by (auto simp: umap_put_def umap_wf_rearranged) (auto simp: umap_wf_def distinct_update)

lemma umap_wf_erase [simp]: "umap_wf m \<Longrightarrow> umap_wf (umap_erase k m)"
  by (simp add: umap_wf_def umap_erase_def distinct_map_filter)

lemma map_of_rearranged: "rearranges rh \<Longrightarrow> umap_wf m \<Longrightarrow> map_of (rh m) = map_of m"
  by (metis map_of_cong_mset rearranges_def umap_wf_def)

lemma map_of_umap_put [simp]:
  assumes "rearranges rh" and "umap_wf m"
  shows "map_of (umap_put rh k v m) = (map_of m)(k \<mapsto> v)"
proof (cases "k \<in> fst ` set m")
  case True
  then show ?thesis by (simp add: umap_put_def update_conv')
next
  case False
  then have "umap_wf ((k, v) # m)" using assms(2) by (simp add: umap_wf_def)
  with False assms(1) show ?thesis by (simp add: umap_put_def map_of_rearranged)
qed

lemma map_of_umap_erase [simp]: "map_of (umap_erase k m) = (map_of m)(k := None)"
  by (induction m) (auto simp: umap_erase_def fun_eq_iff)

lemma set_umap_erase [simp]: "fst ` set (umap_erase k m) = fst ` set m - {k}"
  by (auto simp: umap_erase_def)

lemma set_umap_put [simp]:
  "rearranges rh \<Longrightarrow> fst ` set (umap_put rh k v m) = insert k (fst ` set m)"
proof (cases "k \<in> fst ` set m")
  case True
  assume "rearranges rh"
  with True show ?thesis by (simp add: umap_put_def dom_update)
next
  case False
  assume "rearranges rh"
  then have "set (rh ((k, v) # m)) = set ((k, v) # m)"
    by (metis rearranges_def mset_eq_setD)
  with False show ?thesis by (simp add: umap_put_def)
qed

lemma foldl_umap_put:
  assumes "rearranges rh" and "umap_wf m"
  shows "umap_wf (foldl (\<lambda>m value. umap_put rh (fst value) (g value) m) m kvs)"
    and "distinct (map fst kvs) \<Longrightarrow>
      map_of (foldl (\<lambda>m value. umap_put rh (fst value) (g value) m) m kvs) k =
        (case map_of kvs k of None \<Rightarrow> map_of m k | Some v \<Rightarrow> Some (g (k, v)))"
proof -
  show "umap_wf (foldl (\<lambda>m value. umap_put rh (fst value) (g value) m) m kvs)"
    using assms by (induction kvs arbitrary: m) simp_all
  assume "distinct (map fst kvs)"
  then show "map_of (foldl (\<lambda>m value. umap_put rh (fst value) (g value) m) m kvs) k =
      (case map_of kvs k of None \<Rightarrow> map_of m k | Some v \<Rightarrow> Some (g (k, v)))"
    using assms(2)
  proof (induction kvs arbitrary: m)
    case (Cons p kvs)
    have "map_of kvs (fst p) = None" using Cons.prems(1) by (simp add: map_of_eq_None_iff)
    with Cons assms(1) show ?case by (auto split: option.splits)
  qed simp
qed

lemma foldl_umap_erase:
  "umap_wf m \<Longrightarrow> umap_wf (foldl (\<lambda>m key. umap_erase key m) m keys)"
  "map_of (foldl (\<lambda>m key. umap_erase key m) m keys) k = (if k \<in> set keys then None else map_of m k)"
  by (induction keys arbitrary: m) auto

lemma umap_mem_iff: "umap_wf m \<Longrightarrow> (k, v) \<in> set m \<longleftrightarrow> map_of m k = Some v"
  by (simp add: umap_wf_def)

lemma umap_wf_update [simp]: "umap_wf m \<Longrightarrow> umap_wf (AList.update k v m)"
  by (simp add: umap_wf_def distinct_update)

lemma length_update_present: "k \<in> fst ` set m \<Longrightarrow> length (AList.update k v m) = length m"
  by (induction m) auto

subsection \<open>Lists\<close>

lemma nat_int_add_1 [simp]: "nat (int k + 1) = Suc k"
  by simp

lemma dropWhile_takeWhile_length:
  "length (dropWhile P xs) = length xs - length (takeWhile P xs)"
  by (metis length_drop dropWhile_eq_drop)

lemma sorted_wrt_last: "sorted_wrt R xs \<Longrightarrow> x \<in> set xs \<Longrightarrow> x = last xs \<or> R x (last xs)"
  by (induction xs rule: rev_induct) (auto simp: sorted_wrt_append)

lemma foldl_invariant:
  assumes "P s" and "\<And>s x. x \<in> set xs \<Longrightarrow> P s \<Longrightarrow> P (f s x)"
  shows "P (foldl f s xs)"
  using assms by (induction xs arbitrary: s) auto

lemma foldl_rel:
  assumes "R s t" and "\<And>s t x. x \<in> set xs \<Longrightarrow> R s t \<Longrightarrow> R (f s x) (g t x)"
  shows "R (foldl f s xs) (foldl g t xs)"
  using assms by (induction xs arbitrary: s t) auto

lemma shift_mod_inj:
  fixes j :: nat
  assumes "(a + j) mod N = (a + j') mod N" and "j' < N" and "j < N"
  shows "j = j'"
proof (rule ccontr)
  assume "j \<noteq> j'"
  then consider "j < j'" | "j' < j" by linarith
  then show False
  proof cases
    case 1
    then have "N dvd (a + j') - (a + j)" using assms(1) by (metis mod_eq_dvd_iff_nat add_le_cancel_left less_imp_le)
    then show False using 1 assms(2) by (auto dest: dvd_imp_le)
  next
    case 2
    then have "N dvd (a + j) - (a + j')" using assms(1) by (metis mod_eq_dvd_iff_nat add_le_cancel_left less_imp_le)
    then show False using 2 assms(3) by (auto dest: dvd_imp_le)
  qed
qed

lemma list_all2_in_set2: "list_all2 R xs ys \<Longrightarrow> y \<in> set ys \<Longrightarrow> \<exists>x \<in> set xs. R x y"
  by (induction rule: list_all2_induct) auto

end
