(* ===== verification/Raft_Configuration.thy ===== *)
theory Raft_Configuration
  imports Nori_Prelude "HOL-Library.FSet" "HOL-Library.Word"
begin

text \<open>
  Peers, log identifiers, configurations and their history:
  \<^verbatim>\<open>raft/braft/configuration.h\<close>, \<^verbatim>\<open>raft/braft/log_entry.h\<close> and
  \<^verbatim>\<open>raft/braft/configuration_manager.{h,cpp}\<close>. The two orders of the source are
  instances of \<open>linorder\<close>, so a \<^verbatim>\<open>std::set<PeerId>\<close> is a finite set that is
  iterated in ascending order. The history keeps its entries in strictly ascending log
  order, and a lookup returns the newest entry at or before an index.
\<close>

subsection \<open>Peers\<close>

text \<open>\<^verbatim>\<open>struct PeerId\<close>: the address (IPv4 address and port) and the index on it.\<close>

datatype peer_id = PeerId (ip: "32 word") (port: int) (idx: int)

definition peer_less :: "peer_id \<Rightarrow> peer_id \<Rightarrow> bool" where
  "peer_less a b \<longleftrightarrow>
     (if ip a \<noteq> ip b then ip a < ip b else port a < port b)
     \<or> (ip a = ip b \<and> port a = port b) \<and> idx a < idx b"

definition peer_is_empty :: "peer_id \<Rightarrow> bool" where
  "peer_is_empty p \<longleftrightarrow> ip p = 0 \<and> port p = 0 \<and> idx p = 0"

instantiation peer_id :: linorder
begin

definition less_peer_id :: "peer_id \<Rightarrow> peer_id \<Rightarrow> bool" where
  "less_peer_id a b \<longleftrightarrow> peer_less a b"

definition less_eq_peer_id :: "peer_id \<Rightarrow> peer_id \<Rightarrow> bool" where
  "less_eq_peer_id a b \<longleftrightarrow> a = b \<or> peer_less a b"

instance
  by standard
    (auto simp: less_peer_id_def less_eq_peer_id_def peer_less_def split: if_splits
       intro: peer_id.expand)

end

subsection \<open>Log identifiers\<close>

text \<open>\<^verbatim>\<open>struct LogId\<close>, ordered by term first and index second.\<close>

datatype log_id = LogId (index: int) (log_term: int)

definition log_id_less :: "log_id \<Rightarrow> log_id \<Rightarrow> bool" where
  "log_id_less l r \<longleftrightarrow> (if log_term l = log_term r then index l < index r else log_term l < log_term r)"

instantiation log_id :: linorder
begin

definition less_log_id :: "log_id \<Rightarrow> log_id \<Rightarrow> bool" where
  "less_log_id l r \<longleftrightarrow> log_id_less l r"

definition less_eq_log_id :: "log_id \<Rightarrow> log_id \<Rightarrow> bool" where
  "less_eq_log_id l r \<longleftrightarrow> l = r \<or> log_id_less l r"

instance
  by standard
    (auto simp: less_log_id_def less_eq_log_id_def log_id_less_def split: if_splits
       intro: log_id.expand)

end

lemma log_id_le_iff: "l \<le> r \<longleftrightarrow> \<not> log_id_less r l" for l r :: log_id
  by (metis less_log_id_def not_le)

subsection \<open>Configurations\<close>

text \<open>\<^verbatim>\<open>class Configuration\<close>: a set of peers.\<close>

type_synonym configuration = "peer_id fset"

definition conf_of_vector :: "peer_id list \<Rightarrow> configuration" where
  "conf_of_vector ps = foldl (\<lambda>s p. finsert p s) {||} ps"

definition conf_list_peers :: "configuration \<Rightarrow> peer_id list" where
  "conf_list_peers c = sorted_list_of_fset c"

definition append_peers :: "configuration \<Rightarrow> peer_id fset \<Rightarrow> peer_id fset" where
  "append_peers c ps = ps |\<union>| c"

definition add_peer :: "peer_id \<Rightarrow> configuration \<Rightarrow> bool \<times> configuration" where
  "add_peer p c = (p |\<notin>| c, finsert p c)"

definition remove_peer :: "peer_id \<Rightarrow> configuration \<Rightarrow> bool \<times> configuration" where
  "remove_peer p c = (p |\<in>| c, c |-| {|p|})"

definition conf_contains :: "configuration \<Rightarrow> peer_id \<Rightarrow> bool" where
  "conf_contains c p \<longleftrightarrow> p |\<in>| c"

fun conf_contains_all :: "configuration \<Rightarrow> peer_id list \<Rightarrow> bool" where
  "conf_contains_all c [] = True"
| "conf_contains_all c (p # ps) = (if p |\<notin>| c then False else conf_contains_all c ps)"

fun equals_loop :: "configuration \<Rightarrow> peer_id list \<Rightarrow> peer_id fset \<Rightarrow> peer_id fset option" where
  "equals_loop c [] seen = Some seen"
| "equals_loop c (p # ps) seen =
     (if p |\<notin>| c then None else equals_loop c ps (finsert p seen))"

definition conf_equals_vector :: "configuration \<Rightarrow> peer_id list \<Rightarrow> bool" where
  "conf_equals_vector c ps =
     (case equals_loop c ps {||} of None \<Rightarrow> False | Some seen \<Rightarrow> fcard seen = fcard c)"

definition conf_equals :: "configuration \<Rightarrow> configuration \<Rightarrow> bool" where
  "conf_equals c r =
     (if fcard c \<noteq> fcard r then False
      else list_all (\<lambda>p. conf_contains r p) (conf_list_peers c))"

definition conf_diffs :: "configuration \<Rightarrow> configuration \<Rightarrow> configuration \<times> configuration" where
  "conf_diffs c r =
     (foldl (\<lambda>inc p. inc |-| {|p|}) c (conf_list_peers r),
      foldl (\<lambda>exc p. exc |-| {|p|}) r (conf_list_peers c))"

subsection \<open>The history of configurations\<close>

record conf_entry =
  ce_id :: log_id
  ce_conf :: configuration
  ce_old_conf :: configuration

definition ce_stable :: "conf_entry \<Rightarrow> bool" where
  "ce_stable e \<longleftrightarrow> ce_old_conf e = {||}"

definition ce_contains :: "conf_entry \<Rightarrow> peer_id \<Rightarrow> bool" where
  "ce_contains e p \<longleftrightarrow> conf_contains (ce_conf e) p \<or> conf_contains (ce_old_conf e) p"

definition ce_list_peers :: "conf_entry \<Rightarrow> peer_id fset" where
  "ce_list_peers e = append_peers (ce_old_conf e) (append_peers (ce_conf e) {||})"

record conf_manager =
  configurations :: "conf_entry list"
  cm_snapshot :: conf_entry

definition cm_add :: "conf_entry \<Rightarrow> conf_manager \<Rightarrow> int \<times> conf_manager" where
  "cm_add e m =
     (if configurations m \<noteq> [] \<and> index (ce_id (last (configurations m))) \<ge> index (ce_id e)
      then (-1, m)
      else (0, m\<lparr>configurations := configurations m @ [e]\<rparr>))"

definition cm_truncate_prefix :: "int \<Rightarrow> conf_manager \<Rightarrow> conf_manager" where
  "cm_truncate_prefix first_index_kept m =
     m\<lparr>configurations :=
         dropWhile (\<lambda>e. index (ce_id e) < first_index_kept) (configurations m)\<rparr>"

definition cm_truncate_suffix :: "int \<Rightarrow> conf_manager \<Rightarrow> conf_manager" where
  "cm_truncate_suffix last_index_kept m =
     m\<lparr>configurations :=
         rev (dropWhile (\<lambda>e. index (ce_id e) > last_index_kept) (rev (configurations m)))\<rparr>"

definition cm_set_snapshot :: "conf_entry \<Rightarrow> conf_manager \<Rightarrow> conf_manager" where
  "cm_set_snapshot e m = m\<lparr>cm_snapshot := e\<rparr>"

definition cm_get :: "int \<Rightarrow> conf_manager \<Rightarrow> conf_entry" where
  "cm_get last_included_index m =
     (if configurations m = [] then cm_snapshot m
      else let it = length (takeWhile (\<lambda>e. \<not> index (ce_id e) > last_included_index)
                             (configurations m))
           in if it = 0 then cm_snapshot m else configurations m ! (it - 1))"

definition last_configuration :: "conf_manager \<Rightarrow> conf_entry" where
  "last_configuration m =
     (if configurations m \<noteq> [] then last (configurations m) else cm_snapshot m)"

lemmas cm_defs [raft_defs] =
  cm_add_def cm_truncate_prefix_def cm_truncate_suffix_def cm_set_snapshot_def

subsection \<open>Sets of peers: what the loops compute\<close>

lemma fset_foldl_finsert: "foldl (\<lambda>s p. finsert p s) s ps = s |\<union>| fset_of_list ps"
  by (induction ps arbitrary: s) auto

lemma fset_foldl_fminus: "foldl (\<lambda>s p. s |-| {|p|}) s ps = s |-| fset_of_list ps"
  by (induction ps arbitrary: s) auto

lemma set_conf_list_peers [simp]: "set (conf_list_peers c) = fset c"
  by (simp add: conf_list_peers_def sorted_list_of_fset.rep_eq)

lemma fset_of_conf_list_peers [simp]: "fset_of_list (conf_list_peers c) = c"
  by (simp add: fset_inject [symmetric] fset_of_list.rep_eq)

lemma distinct_conf_list_peers [simp]: "distinct (conf_list_peers c)"
  by (simp add: conf_list_peers_def sorted_list_of_fset.rep_eq)

lemma length_conf_list_peers [simp]: "length (conf_list_peers c) = fcard c"
  by (metis distinct_card distinct_conf_list_peers fcard.rep_eq set_conf_list_peers)

lemma conf_of_vector_eq: "conf_of_vector ps = fset_of_list ps"
  by (simp add: conf_of_vector_def fset_foldl_finsert)

lemma conf_contains_all_iff: "conf_contains_all c ps \<longleftrightarrow> fset_of_list ps |\<subseteq>| c"
  by (induction ps) auto

lemma equals_loop_eq:
  "equals_loop c ps seen = (if fset_of_list ps |\<subseteq>| c then Some (seen |\<union>| fset_of_list ps) else None)"
  by (induction ps arbitrary: seen) auto

lemma fcard_subset_eq: "a |\<subseteq>| b \<Longrightarrow> fcard a = fcard b \<Longrightarrow> a = b"
  by (metis card_subset_eq fcard.rep_eq finite_fset fset_inject less_eq_fset.rep_eq)

lemma conf_equals_vector_iff: "conf_equals_vector c ps \<longleftrightarrow> fset_of_list ps = c"
  by (auto simp: conf_equals_vector_def equals_loop_eq dest: fcard_subset_eq)

lemma conf_equals_iff: "conf_equals c r \<longleftrightarrow> c = r"
proof
  assume "conf_equals c r"
  then have "fcard c = fcard r" and "fset c \<subseteq> fset r"
    by (auto simp: conf_equals_def conf_contains_def list_all_iff split: if_splits)
  then show "c = r" by (simp add: fcard_subset_eq less_eq_fset.rep_eq)
next
  assume "c = r"
  then show "conf_equals c r"
    by (simp add: conf_equals_def conf_contains_def list_all_iff)
qed

lemma conf_diffs_eq: "conf_diffs c r = (c |-| r, r |-| c)"
  by (simp add: conf_diffs_def fset_foldl_fminus)

subsection \<open>The history stays in log order\<close>

definition cm_wf :: "conf_manager \<Rightarrow> bool" where
  "cm_wf m \<longleftrightarrow> sorted_wrt (\<lambda>a b. index (ce_id a) < index (ce_id b)) (configurations m)"

lemma sorted_wrt_dropWhile: "sorted_wrt R xs \<Longrightarrow> sorted_wrt R (dropWhile P xs)"
  by (metis sorted_wrt_append takeWhile_dropWhile_id)

lemma sorted_wrt_dropWhile_rev:
  "sorted_wrt R xs \<Longrightarrow> sorted_wrt R (rev (dropWhile P (rev xs)))"
  by (metis rev_append rev_rev_ident sorted_wrt_append takeWhile_dropWhile_id)

lemma dropWhile_less_filter:
  assumes "sorted_wrt (\<lambda>a b. f a < f b) xs"
  shows "dropWhile (\<lambda>e. f e < (k :: int)) xs = filter (\<lambda>e. k \<le> f e) xs"
  using assms by (induction xs) (force intro: filter_True [symmetric])+

lemma takeWhile_le_filter:
  assumes "sorted_wrt (\<lambda>a b. f a < f b) xs"
  shows "takeWhile (\<lambda>e. f e \<le> (k :: int)) xs = filter (\<lambda>e. f e \<le> k) xs"
  using assms by (induction xs) (force intro: filter_False [symmetric])+

lemma dropWhile_rev_greater_filter:
  assumes "sorted_wrt (\<lambda>a b. f a < f b) xs"
  shows "rev (dropWhile (\<lambda>e. f e > (k :: int)) (rev xs)) = filter (\<lambda>e. f e \<le> k) xs"
  using assms
proof (induction xs rule: rev_induct)
  case Nil
  then show ?case by simp
next
  case (snoc x xs)
  then have "\<forall>y \<in> set xs. f y < f x" by (simp add: sorted_wrt_append)
  then have "f x \<le> k \<Longrightarrow> filter (\<lambda>e. f e \<le> k) xs = xs"
    by (fastforce intro: filter_True)
  with snoc show ?case by (auto simp: sorted_wrt_append)
qed

lemma cm_wf_add: "cm_wf m \<Longrightarrow> cm_wf (snd (cm_add e m))"
proof (cases "configurations m = []")
  case False
  assume wf: "cm_wf m"
  have le: "index (ce_id x) \<le> index (ce_id (last (configurations m)))"
    if "x \<in> set (configurations m)" for x
    using sorted_wrt_last [OF wf [unfolded cm_wf_def] that] by auto
  from wf False show ?thesis
    by (auto simp: cm_wf_def cm_add_def sorted_wrt_append dest: le)
qed (simp add: cm_wf_def cm_add_def)

lemma cm_wf_truncate [simp]:
  "cm_wf m \<Longrightarrow> cm_wf (cm_truncate_prefix k m)"
  "cm_wf m \<Longrightarrow> cm_wf (cm_truncate_suffix k m)"
  "cm_wf m \<Longrightarrow> cm_wf (cm_set_snapshot e m)"
  by (simp_all add: cm_wf_def raft_defs sorted_wrt_dropWhile sorted_wrt_dropWhile_rev)

lemma configurations_truncate:
  assumes "cm_wf m"
  shows "configurations (cm_truncate_prefix k m) =
           filter (\<lambda>e. k \<le> index (ce_id e)) (configurations m)"
    and "configurations (cm_truncate_suffix k m) =
           filter (\<lambda>e. index (ce_id e) \<le> k) (configurations m)"
  using assms
  by (simp_all add: cm_wf_def raft_defs dropWhile_less_filter dropWhile_rev_greater_filter)

lemma cm_get_eq:
  assumes "cm_wf m"
  shows "cm_get n m =
    (let older = filter (\<lambda>e. index (ce_id e) \<le> n) (configurations m)
     in if older = [] then cm_snapshot m else last older)"
proof -
  let ?older = "filter (\<lambda>e. index (ce_id e) \<le> n) (configurations m)"
  have tw: "takeWhile (\<lambda>e. index (ce_id e) \<le> n) (configurations m) = ?older"
    using assms by (simp add: cm_wf_def takeWhile_le_filter)
  have "configurations m ! (length ?older - 1) = last ?older" if "?older \<noteq> []"
  proof -
    have "?older = take (length ?older) (configurations m)"
      by (metis takeWhile_eq_take tw)
    with that show ?thesis
      by (metis One_nat_def diff_less last_conv_nth length_greater_0_conv nth_take zero_less_one)
  qed
  then show ?thesis
    by (auto simp: cm_get_def Let_def not_less tw)
qed

end
