(* ===== verification/Raft_Log_Storage.thy ===== *)
theory Raft_Log_Storage
  imports Raft_Configuration
begin

text \<open>
  Log entries (\<^verbatim>\<open>braft/log_entry.h\<close>), the virtual class \<^verbatim>\<open>LogStorage\<close> of
  \<^verbatim>\<open>braft/storage.h\<close> and its in-memory implementation
  \<^verbatim>\<open>MemoryLogStorage\<close> (\<^verbatim>\<open>braft/memory_log.cpp\<close>).

  The class is the record \<open>log_storage_ops\<close> of its virtual functions over an arbitrary
  state. What a log storage promises is the locale \<open>log_storage\<close>: the entries it holds
  are consecutive, and every call acts on them as its comment says. The memory log
  keeps the promise, which is the interpretation \<open>mlog\<close>.
\<close>

subsection \<open>Log entries\<close>

datatype entry_type =
  ENTRY_TYPE_UNKNOWN | ENTRY_TYPE_NO_OP | ENTRY_TYPE_DATA | ENTRY_TYPE_CONFIGURATION

record log_entry =
  le_type :: entry_type
  le_id :: log_id
  le_peers :: "peer_id list option"
  le_old_peers :: "peer_id list option"
  le_data :: string

abbreviation le_index :: "log_entry \<Rightarrow> int" where
  "le_index e \<equiv> index (le_id e)"

abbreviation le_term :: "log_entry \<Rightarrow> int" where
  "le_term e \<equiv> log_term (le_id e)"

text \<open>\<open>ConfigurationEntry(const LogEntry&)\<close> of \<^verbatim>\<open>configuration_manager.h\<close>.\<close>

definition conf_entry_of :: "log_entry \<Rightarrow> conf_entry" where
  "conf_entry_of e =
     \<lparr>ce_id = le_id e,
      ce_conf = conf_of_vector (case le_peers e of None \<Rightarrow> [] | Some ps \<Rightarrow> ps),
      ce_old_conf = (case le_old_peers e of None \<Rightarrow> {||} | Some ps \<Rightarrow> conf_of_vector ps)\<rparr>"

subsection \<open>The interface\<close>

text \<open>
  The virtual functions that change or read the log. The metric argument of
  \<open>append_entries\<close> only collects timings and is dropped.
\<close>

record 's log_storage_ops =
  ls_init :: "'s \<Rightarrow> int \<times> 's"
  ls_first_log_index :: "'s \<Rightarrow> int"
  ls_last_log_index :: "'s \<Rightarrow> int"
  ls_get_entry :: "int \<Rightarrow> 's \<Rightarrow> log_entry option"
  ls_get_term :: "int \<Rightarrow> 's \<Rightarrow> int"
  ls_append_entries :: "log_entry list \<Rightarrow> 's \<Rightarrow> int \<times> 's"
  ls_truncate_prefix :: "int \<Rightarrow> 's \<Rightarrow> int \<times> 's"
  ls_truncate_suffix :: "int \<Rightarrow> 's \<Rightarrow> int \<times> 's"
  ls_reset :: "int \<Rightarrow> 's \<Rightarrow> int \<times> 's"

text \<open>Entries with consecutive indexes from \<open>i\<close> on.\<close>

fun consecutive :: "int \<Rightarrow> log_entry list \<Rightarrow> bool" where
  "consecutive i [] = True"
| "consecutive i (e # es) = (le_index e = i \<and> consecutive (i + 1) es)"

lemma consecutive_append [simp]:
  "consecutive i (xs @ ys) \<longleftrightarrow> consecutive i xs \<and> consecutive (i + int (length xs)) ys"
  by (induction xs arbitrary: i) (auto simp: algebra_simps)

lemma consecutive_nth:
  "consecutive i es \<Longrightarrow> k < length es \<Longrightarrow> le_index (es ! k) = i + int k"
proof (induction es arbitrary: i k)
  case (Cons e es)
  then show ?case by (cases k) (auto simp: algebra_simps)
qed simp

lemma consecutive_drop: "consecutive i es \<Longrightarrow> consecutive (i + int (min n (length es))) (drop n es)"
proof (induction es arbitrary: i n)
  case (Cons e es)
  then show ?case by (cases n) (force simp: algebra_simps)+
qed simp

lemma consecutive_take: "consecutive i es \<Longrightarrow> consecutive i (take n es)"
  using append_take_drop_id [of n es] consecutive_append [of i "take n es" "drop n es"] by simp

lemma consecutive_last:
  assumes "consecutive i es" "es \<noteq> []"
  shows "le_index (last es) = i + int (length es) - 1"
proof -
  have "length es - 1 < length es" using assms(2) by (cases es) auto
  from consecutive_nth [OF assms(1) this] show ?thesis
    using assms(2) by (cases es) (auto simp: last_conv_nth)
qed

lemma consecutive_hd: "consecutive i es \<Longrightarrow> es \<noteq> [] \<Longrightarrow> le_index (hd es) = i"
  by (cases es) auto

lemma consecutive_sorted:
  "consecutive i es \<Longrightarrow> sorted_wrt (\<lambda>a b. le_index a < le_index b) es"
  by (fastforce simp: sorted_wrt_iff_nth_less consecutive_nth)

text \<open>The two ways in which the loops of the code cut a log.\<close>

lemma consecutive_dropWhile_less:
  "consecutive i es \<Longrightarrow> dropWhile (\<lambda>e. le_index e < k) es = drop (nat (k - i)) es"
proof (induction es arbitrary: i)
  case (Cons e es)
  show ?case
  proof (cases "i < k")
    case True
    then have "nat (k - i) = Suc (nat (k - (i + 1)))" by simp
    with Cons True show ?thesis by simp
  next
    case False
    with Cons show ?thesis by simp
  qed
qed simp

lemma consecutive_dropWhile_greater:
  assumes "consecutive i es"
  shows "rev (dropWhile (\<lambda>e. le_index e > k) (rev es)) = take (nat (k + 1 - i)) es"
  using assms
proof (induction es rule: rev_induct)
  case (snoc e es)
  then have e: "le_index e = i + int (length es)" by simp
  show ?case
  proof (cases "le_index e > k")
    case True
    then have "nat (k + 1 - i) \<le> length es" using e by simp
    with True snoc show ?thesis by simp
  next
    case False
    then have "nat (k + 1 - i) \<ge> length (es @ [e])" using e by simp
    with False show ?thesis by simp
  qed
qed simp

text \<open>
  What a log storage promises. The representation \<open>first\<close>, \<open>ents\<close> of a state is the index
  of the first entry and the entries; \<open>wf\<close> is its invariant. A prefix or suffix cut is
  only promised for indexes that do not grow the log.
\<close>

locale log_storage =
  fixes ops :: "'s log_storage_ops"
    and wf :: "'s \<Rightarrow> bool"
    and first :: "'s \<Rightarrow> int"
    and ents :: "'s \<Rightarrow> log_entry list"
  assumes ents_consecutive: "wf s \<Longrightarrow> consecutive (first s) (ents s)"
    and first_log_index: "wf s \<Longrightarrow> ls_first_log_index ops s = first s"
    and last_log_index: "wf s \<Longrightarrow> ls_last_log_index ops s = first s + int (length (ents s)) - 1"
    and get_entry: "wf s \<Longrightarrow> ls_get_entry ops i s =
          (if first s \<le> i \<and> i < first s + int (length (ents s))
           then Some (ents s ! nat (i - first s)) else None)"
    and get_term: "wf s \<Longrightarrow> ls_get_term ops i s =
          (case ls_get_entry ops i s of None \<Rightarrow> 0 | Some e \<Rightarrow> le_term e)"
    and append_entries: "wf s \<Longrightarrow> consecutive (first s + int (length (ents s))) es \<Longrightarrow>
          fst (ls_append_entries ops es s) = int (length es) \<and>
          wf (snd (ls_append_entries ops es s)) \<and>
          first (snd (ls_append_entries ops es s)) = first s \<and>
          ents (snd (ls_append_entries ops es s)) = ents s @ es"
    and truncate_prefix: "wf s \<Longrightarrow> first s \<le> k \<Longrightarrow>
          fst (ls_truncate_prefix ops k s) = 0 \<and>
          wf (snd (ls_truncate_prefix ops k s)) \<and>
          first (snd (ls_truncate_prefix ops k s)) = k \<and>
          ents (snd (ls_truncate_prefix ops k s)) = drop (nat (k - first s)) (ents s)"
    and truncate_suffix: "wf s \<Longrightarrow> first s - 1 \<le> k \<Longrightarrow> k < first s + int (length (ents s)) \<Longrightarrow>
          fst (ls_truncate_suffix ops k s) = 0 \<and>
          wf (snd (ls_truncate_suffix ops k s)) \<and>
          first (snd (ls_truncate_suffix ops k s)) = first s \<and>
          ents (snd (ls_truncate_suffix ops k s)) = take (nat (k + 1 - first s)) (ents s)"
    and reset: "wf s \<Longrightarrow> 0 < n \<Longrightarrow>
          fst (ls_reset ops n s) = 0 \<and> wf (snd (ls_reset ops n s)) \<and>
          first (snd (ls_reset ops n s)) = n \<and> ents (snd (ls_reset ops n s)) = []"
begin

lemma get_entry_index:
  "wf s \<Longrightarrow> ls_get_entry ops i s = Some e \<Longrightarrow> le_index e = i"
  by (auto simp: get_entry consecutive_nth [OF ents_consecutive] split: if_splits)

lemma get_entry_after_append:
  assumes "wf s" and "consecutive (first s + int (length (ents s))) es"
  shows "ls_get_entry ops i (snd (ls_append_entries ops es s)) =
    (if first s + int (length (ents s)) \<le> i \<and> i < first s + int (length (ents s)) + int (length es)
     then Some (es ! nat (i - (first s + int (length (ents s)))))
     else ls_get_entry ops i s)"
proof -
  have "nat (i - first s) - length (ents s) = nat (i - (first s + int (length (ents s))))" by simp
  with append_entries [OF assms] assms(1) show ?thesis by (auto simp: get_entry nth_append)
qed

lemma get_entry_after_truncate_suffix:
  assumes "wf s" and "first s - 1 \<le> k" and "k < first s + int (length (ents s))"
  shows "ls_get_entry ops i (snd (ls_truncate_suffix ops k s)) =
    (if i \<le> k then ls_get_entry ops i s else None)"
  using truncate_suffix [OF assms] assms by (auto simp: get_entry)

lemma get_entry_after_truncate_prefix:
  assumes "wf s" and "first s \<le> k"
  shows "ls_get_entry ops i (snd (ls_truncate_prefix ops k s)) =
    (if k \<le> i then ls_get_entry ops i s else None)"
proof -
  have "nat (k - first s) + nat (i - k) = nat (i - first s)" if "k \<le> i"
    using that assms(2) by simp
  with truncate_prefix [OF assms] assms show ?thesis by (auto simp: get_entry)
qed

end

end
