(* ===== verification/Raft_Memory_Log.thy ===== *)
theory Raft_Memory_Log
  imports Raft_Log_Storage
begin

text \<open>
  \<^verbatim>\<open>class MemoryLogStorage\<close> (\<^verbatim>\<open>braft/memory_log.h\<close>, \<^verbatim>\<open>braft/memory_log.cpp\<close>):
  a deque of entries with two index counters. Every operation of the class is here in
  the order of the source, with the counters set exactly where the code sets them, so
  an out-of-range cut can put the counters and the deque out of step; \<open>mem_wf\<close> is what the
  operations keep when they are called within their contract.
\<close>

record memory_log =
  mem_first_log_index :: int
  mem_last_log_index :: int
  log_entry_data :: "log_entry list"

definition mem_new :: memory_log where
  "mem_new = \<lparr>mem_first_log_index = 1, mem_last_log_index = 0, log_entry_data = []\<rparr>"

definition mem_init :: "memory_log \<Rightarrow> int \<times> memory_log" where
  "mem_init m = (0, m\<lparr>mem_first_log_index := 1, mem_last_log_index := 0\<rparr>)"

text \<open>The deque is indexed without a bounds check; outside of it the result is \<open>None\<close>.\<close>

definition deque_at :: "log_entry list \<Rightarrow> int \<Rightarrow> log_entry option" where
  "deque_at d i = (if 0 \<le> i \<and> i < int (length d) then Some (d ! nat i) else None)"

definition mem_get_entry :: "int \<Rightarrow> memory_log \<Rightarrow> log_entry option" where
  "mem_get_entry i m =
     (if i < mem_first_log_index m \<or> i > mem_last_log_index m then None
      else deque_at (log_entry_data m) (i - mem_first_log_index m))"

definition mem_get_term :: "int \<Rightarrow> memory_log \<Rightarrow> int" where
  "mem_get_term i m =
     (if i < mem_first_log_index m \<or> i > mem_last_log_index m then 0
      else case deque_at (log_entry_data m) (i - mem_first_log_index m) of
             None \<Rightarrow> 0
           | Some temp \<Rightarrow> le_term temp)"

definition mem_append_entry :: "log_entry \<Rightarrow> memory_log \<Rightarrow> int \<times> memory_log" where
  "mem_append_entry input_entry m =
     (if le_index input_entry \<noteq> mem_last_log_index m + 1 then (ERANGE, m)
      else (0, m\<lparr>log_entry_data := log_entry_data m @ [input_entry],
                 mem_last_log_index := mem_last_log_index m + 1\<rparr>))"

text \<open>The loop drops the result of every \<open>append_entry\<close> and reports the full length.\<close>

definition mem_append_entries :: "log_entry list \<Rightarrow> memory_log \<Rightarrow> int \<times> memory_log" where
  "mem_append_entries es m =
     (if es = [] then (0, m)
      else (int (length es), foldl (\<lambda>m e. snd (mem_append_entry e m)) m es))"

definition mem_truncate_prefix :: "int \<Rightarrow> memory_log \<Rightarrow> int \<times> memory_log" where
  "mem_truncate_prefix first_index_kept m =
     (let m = m\<lparr>log_entry_data :=
                  dropWhile (\<lambda>e. le_index e < first_index_kept) (log_entry_data m)\<rparr>;
          m = m\<lparr>mem_first_log_index := first_index_kept\<rparr>;
          m = (if mem_first_log_index m > mem_last_log_index m
               then m\<lparr>mem_last_log_index := first_index_kept - 1\<rparr> else m)
      in (0, m))"

definition mem_truncate_suffix :: "int \<Rightarrow> memory_log \<Rightarrow> int \<times> memory_log" where
  "mem_truncate_suffix last_index_kept m =
     (let m = m\<lparr>log_entry_data :=
                  rev (dropWhile (\<lambda>e. le_index e > last_index_kept) (rev (log_entry_data m)))\<rparr>;
          m = m\<lparr>mem_last_log_index := last_index_kept\<rparr>;
          m = (if mem_first_log_index m > mem_last_log_index m
               then m\<lparr>mem_first_log_index := last_index_kept + 1\<rparr> else m)
      in (0, m))"

definition mem_reset :: "int \<Rightarrow> memory_log \<Rightarrow> int \<times> memory_log" where
  "mem_reset next_log_index m =
     (if next_log_index \<le> 0 then (EINVAL, m)
      else (0, m\<lparr>log_entry_data := [], mem_first_log_index := next_log_index,
                 mem_last_log_index := next_log_index - 1\<rparr>))"

definition memory_log_ops :: "memory_log log_storage_ops" where
  "memory_log_ops =
     \<lparr>ls_init = mem_init, ls_first_log_index = mem_first_log_index,
      ls_last_log_index = mem_last_log_index, ls_get_entry = mem_get_entry,
      ls_get_term = mem_get_term, ls_append_entries = mem_append_entries,
      ls_truncate_prefix = mem_truncate_prefix, ls_truncate_suffix = mem_truncate_suffix,
      ls_reset = mem_reset\<rparr>"

lemmas mem_defs [raft_defs] =
  mem_new_def mem_init_def deque_at_def mem_get_entry_def mem_get_term_def
  mem_append_entry_def mem_truncate_prefix_def mem_truncate_suffix_def mem_reset_def

subsection \<open>The invariant\<close>

definition mem_wf :: "memory_log \<Rightarrow> bool" where
  "mem_wf m \<longleftrightarrow>
     consecutive (mem_first_log_index m) (log_entry_data m) \<and>
     mem_last_log_index m = mem_first_log_index m + int (length (log_entry_data m)) - 1"

lemma mem_wf_new: "mem_wf mem_new"
  by (simp add: mem_wf_def mem_new_def)

lemma mem_append_loop:
  assumes "mem_wf m" and "consecutive (mem_last_log_index m + 1) es"
  shows "foldl (\<lambda>m e. snd (mem_append_entry e m)) m es =
    m\<lparr>log_entry_data := log_entry_data m @ es,
      mem_last_log_index := mem_last_log_index m + int (length es)\<rparr>"
  using assms
proof (induction es arbitrary: m)
  case (Cons e es)
  let ?m = "snd (mem_append_entry e m)"
  have "?m = m\<lparr>log_entry_data := log_entry_data m @ [e], mem_last_log_index := mem_last_log_index m + 1\<rparr>"
    using Cons.prems by (simp add: mem_append_entry_def)
  moreover from this have "mem_wf ?m" "consecutive (mem_last_log_index ?m + 1) es"
    using Cons.prems by (auto simp: mem_wf_def)
  ultimately show ?case using Cons.IH [of ?m] by (simp add: algebra_simps)
qed simp

lemma mem_append_entries_eq:
  assumes "mem_wf m" and "consecutive (mem_last_log_index m + 1) es"
  shows "mem_append_entries es m =
    (int (length es), m\<lparr>log_entry_data := log_entry_data m @ es,
      mem_last_log_index := mem_last_log_index m + int (length es)\<rparr>)"
  using assms by (simp add: mem_append_entries_def mem_append_loop)

lemma mem_wf_append_entries:
  "mem_wf m \<Longrightarrow> consecutive (mem_last_log_index m + 1) es \<Longrightarrow> mem_wf (snd (mem_append_entries es m))"
  by (simp add: mem_append_entries_eq) (simp add: mem_wf_def)

lemma mem_truncate_prefix_eq:
  assumes "mem_wf m" and "mem_first_log_index m \<le> k"
  shows "mem_truncate_prefix k m =
    (0, m\<lparr>log_entry_data := drop (nat (k - mem_first_log_index m)) (log_entry_data m),
          mem_first_log_index := k,
          mem_last_log_index := max (k - 1) (mem_last_log_index m)\<rparr>)"
  using assms
  by (auto simp: mem_truncate_prefix_def Let_def mem_wf_def max_def
      consecutive_dropWhile_less [of "mem_first_log_index m"])

lemma mem_wf_truncate_prefix:
  assumes "mem_wf m" and "mem_first_log_index m \<le> k"
  shows "mem_wf (snd (mem_truncate_prefix k m))"
proof -
  let ?n = "nat (k - mem_first_log_index m)" and ?d = "log_entry_data m"
  have "consecutive k (drop ?n ?d)"
  proof (cases "?n \<le> length ?d")
    case True
    then show ?thesis
      using assms consecutive_drop [of "mem_first_log_index m" ?d ?n] by (simp add: mem_wf_def min_def)
  qed simp
  with assms show ?thesis
    by (auto simp: mem_truncate_prefix_eq) (auto simp: mem_wf_def max_def)
qed

lemma mem_truncate_suffix_eq:
  assumes "mem_wf m" and "mem_first_log_index m - 1 \<le> k" and "k \<le> mem_last_log_index m"
  shows "mem_truncate_suffix k m =
    (0, m\<lparr>log_entry_data := take (nat (k + 1 - mem_first_log_index m)) (log_entry_data m),
          mem_last_log_index := k\<rparr>)"
  using assms
  by (auto simp: mem_truncate_suffix_def Let_def mem_wf_def
      consecutive_dropWhile_greater [of "mem_first_log_index m"])

lemma mem_wf_truncate_suffix:
  assumes "mem_wf m" and "mem_first_log_index m - 1 \<le> k" and "k \<le> mem_last_log_index m"
  shows "mem_wf (snd (mem_truncate_suffix k m))"
  using assms by (simp add: mem_truncate_suffix_eq) (auto simp: mem_wf_def consecutive_take)

lemma mem_wf_reset: "mem_wf m \<Longrightarrow> mem_wf (snd (mem_reset n m))"
  by (simp add: mem_reset_def mem_wf_def)

interpretation mlog: log_storage memory_log_ops mem_wf mem_first_log_index log_entry_data
proof (unfold_locales, goal_cases)
  case (6 s es)
  then have "consecutive (mem_last_log_index s + 1) es" by (simp add: mem_wf_def)
  with 6 mem_wf_append_entries [of s es] show ?case
    by (simp add: memory_log_ops_def mem_append_entries_eq)
next
  case (7 s k)
  then show ?case using mem_wf_truncate_prefix [of s k]
    by (simp add: memory_log_ops_def mem_truncate_prefix_eq)
next
  case (8 s k)
  then have "k \<le> mem_last_log_index s" by (simp add: mem_wf_def)
  with 8 show ?case using mem_wf_truncate_suffix [of s k]
    by (simp add: memory_log_ops_def mem_truncate_suffix_eq)
next
  case (9 s n)
  then show ?case using mem_wf_reset [of s n] by (simp add: memory_log_ops_def mem_reset_def)
qed (auto simp: memory_log_ops_def mem_wf_def mem_get_entry_def mem_get_term_def deque_at_def)

subsection \<open>Runs of operations\<close>

text \<open>
  The calls a memory log may see. Appending needs no condition, since entries that do
  not fit are refused; the two cuts are called with an index that does not grow the log.
\<close>

inductive mem_step :: "memory_log \<Rightarrow> memory_log \<Rightarrow> bool" where
  append: "mem_step m (snd (mem_append_entries es m))"
| append1: "mem_step m (snd (mem_append_entry e m))"
| prefix: "mem_first_log_index m \<le> k \<Longrightarrow> mem_step m (snd (mem_truncate_prefix k m))"
| suffix: "k \<le> mem_last_log_index m \<Longrightarrow> mem_step m (snd (mem_truncate_suffix k m))"
| reset: "mem_step m (snd (mem_reset n m))"

inductive mem_reachable :: "memory_log \<Rightarrow> bool" where
  new: "mem_reachable mem_new"
| step: "mem_reachable m \<Longrightarrow> mem_step m m' \<Longrightarrow> mem_reachable m'"

lemma mem_wf_append_entry: "mem_wf m \<Longrightarrow> mem_wf (snd (mem_append_entry e m))"
  by (auto simp: mem_wf_def mem_append_entry_def algebra_simps)

lemma mem_wf_append_any: "mem_wf m \<Longrightarrow> mem_wf (snd (mem_append_entries es m))"
  by (simp add: mem_append_entries_def foldl_invariant [where P = mem_wf] mem_wf_append_entry)

lemma mem_wf_truncate_suffix_any:
  assumes "mem_wf m" and "k \<le> mem_last_log_index m"
  shows "mem_wf (snd (mem_truncate_suffix k m))"
proof (cases "mem_first_log_index m - 1 \<le> k")
  case True
  show ?thesis using assms(1) True assms(2) by (rule mem_wf_truncate_suffix)
next
  case False
  with assms show ?thesis
    by (simp add: mem_truncate_suffix_def Let_def mem_wf_def
        consecutive_dropWhile_greater [of "mem_first_log_index m"])
qed

lemma mem_step_wf: "mem_step m m' \<Longrightarrow> mem_wf m \<Longrightarrow> mem_wf m'"
  by (induction rule: mem_step.induct)
    (simp_all add: mem_wf_append_any mem_wf_append_entry mem_wf_truncate_prefix
      mem_wf_truncate_suffix_any mem_wf_reset)

lemma mem_reachable_wf: "mem_reachable m \<Longrightarrow> mem_wf m"
  by (induction rule: mem_reachable.induct) (auto intro: mem_wf_new mem_step_wf)

text \<open>
  C9: in every state a memory log can reach, an index is present exactly between the
  first and the last log index, the entry read there carries that index (so the
  \<^verbatim>\<open>CHECK\<close>s of \<^verbatim>\<open>get_entry\<close> and \<^verbatim>\<open>get_term\<close> never fire and the deque is never read
  out of range), and its term is the one \<^verbatim>\<open>get_term\<close> returns.
\<close>

theorem reachable_memory_log_reads:
  assumes "mem_reachable m"
  shows "(mem_get_entry i m \<noteq> None \<longleftrightarrow> mem_first_log_index m \<le> i \<and> i \<le> mem_last_log_index m) \<and>
    (\<forall>e. mem_get_entry i m = Some e \<longrightarrow> le_index e = i \<and> mem_get_term i m = le_term e)"
  using mem_reachable_wf [OF assms]
  by (auto simp: mem_wf_def mem_get_entry_def mem_get_term_def deque_at_def consecutive_nth)

definition ex_entry :: "int \<Rightarrow> int \<Rightarrow> log_entry" where
  "ex_entry i t = \<lparr>le_type = ENTRY_TYPE_DATA, le_id = LogId i t, le_peers = None,
     le_old_peers = None, le_data = ''x''\<rparr>"

definition ex_mem :: memory_log where
  "ex_mem = snd (mem_truncate_prefix 2
     (snd (mem_append_entries [ex_entry 1 1, ex_entry 2 1, ex_entry 3 2] mem_new)))"

lemma ex_mem_reachable: "mem_reachable ex_mem"
  unfolding ex_mem_def
proof (rule mem_reachable.step, rule mem_reachable.step, rule mem_reachable.new, rule mem_step.append,
    rule mem_step.prefix)
  show "mem_first_log_index
      (snd (mem_append_entries [ex_entry 1 1, ex_entry 2 1, ex_entry 3 2] mem_new)) \<le> 2" by code_simp
qed

theorem reachable_memory_log_reads_witness:
  "mem_reachable ex_mem \<and> mem_get_entry 3 ex_mem = Some (ex_entry 3 2) \<and> le_index (ex_entry 3 2) = 3
   \<and> mem_get_term 3 ex_mem = 2"
proof -
  have "mem_get_entry 3 ex_mem = Some (ex_entry 3 2)" by code_simp
  moreover have "log_term (le_id (ex_entry 3 2)) = 2" by code_simp
  ultimately show ?thesis
    using ex_mem_reachable reachable_memory_log_reads [of ex_mem 3] by simp
qed

text \<open>
  C10: appending entries that continue the log and cutting the suffix at the former last
  index gives back the log, counters included; between the two calls exactly the appended
  entries can be read in addition.
\<close>

theorem append_truncate_round_trip:
  assumes "mem_wf m" and "consecutive (mem_last_log_index m + 1) es"
  shows "snd (mem_truncate_suffix (mem_last_log_index m) (snd (mem_append_entries es m))) = m \<and>
    mem_get_entry i (snd (mem_append_entries es m)) =
      (if mem_last_log_index m < i \<and> i \<le> mem_last_log_index m + int (length es)
       then Some (es ! nat (i - (mem_last_log_index m + 1))) else mem_get_entry i m)"
proof -
  let ?m = "snd (mem_append_entries es m)"
  have wf: "mem_wf ?m" using assms by (rule mem_wf_append_entries)
  have last: "mem_last_log_index m = mem_first_log_index m + int (length (log_entry_data m)) - 1"
    using assms(1) by (simp add: mem_wf_def)
  have "snd (mem_truncate_suffix (mem_last_log_index m) ?m) = m"
    using assms wf last by (simp add: mem_append_entries_eq mem_truncate_suffix_eq)
  moreover have "mem_get_entry i ?m =
      (if mem_last_log_index m < i \<and> i \<le> mem_last_log_index m + int (length es)
       then Some (es ! nat (i - (mem_last_log_index m + 1))) else mem_get_entry i m)"
    using mlog.get_entry_after_append [of m es i] assms last
    by (simp add: memory_log_ops_def)
  ultimately show ?thesis by blast
qed

theorem append_truncate_round_trip_witness:
  "mem_wf ex_mem \<and> consecutive (mem_last_log_index ex_mem + 1) [ex_entry 4 2] \<and>
   snd (mem_truncate_suffix 3 (snd (mem_append_entries [ex_entry 4 2] ex_mem))) = ex_mem"
proof -
  have "consecutive (mem_last_log_index ex_mem + 1) [ex_entry 4 2]" by code_simp
  moreover have "mem_last_log_index ex_mem = 3" by code_simp
  ultimately show ?thesis
    using append_truncate_round_trip [of ex_mem "[ex_entry 4 2]"]
      mem_reachable_wf [OF ex_mem_reachable] by simp
qed

end
