(* ===== verification/Raft_Log_Manager.thy ===== *)
theory Raft_Log_Manager
  imports Raft_Memory_Log
begin

text \<open>
  \<^verbatim>\<open>class LogManager\<close> (\<^verbatim>\<open>braft/log_manager.h\<close>, \<^verbatim>\<open>braft/log_manager.cpp\<close>), the
  definitions: the logs kept in memory, the queue of closures for the disk thread, the
  log storage behind it (any implementation of \<open>log_storage_ops\<close>), the resolution of
  conflicts between the local log and the entries of a leader, the handling of snapshots,
  the disk thread with its batching of appends, and the waiters for new logs.

  The mutex makes every operation atomic. What an operation tells other components is its
  list of events: a closure that is run with its status, an answer to a flush, an error
  reported to the state machine, a callback of a waiter (which the code starts in a
  bthread of its own, so the order among callbacks carries no meaning).
\<close>

abbreviation (input) ESTOP :: int where "ESTOP \<equiv> - 20"

subsection \<open>State\<close>

text \<open>
  The closures of the disk queue: \<open>AppendClosure\<close> is the \<open>StableClosure\<close> of a caller, with
  the caller's name for it, its first log index and its entries; the others are the
  closures the log manager makes itself.
\<close>

datatype stable_closure =
  AppendClosure nat int "log_entry list"
| LastLogIdClosure nat
| TruncatePrefixClosure int
| TruncateSuffixClosure int int
| ResetClosure int

datatype lm_event =
  DoneRun nat int
| LastLogIdIs nat log_id
| ReportError int
| NewLog nat int

record 's log_manager =
  log_storage_st :: 's
  config_manager :: conf_manager
  wait_map :: "(int \<times> nat) list"
  lm_stopped :: bool
  has_error :: bool
  next_wait_id :: int
  disk_id :: log_id
  applied_id :: log_id
  logs_in_memory :: "log_entry list"
  first_log_index :: int
  last_log_index :: int
  last_snapshot_id :: log_id
  virtual_first_log_id :: log_id
  disk_queue :: "stable_closure list"

record snapshot_meta =
  last_included_index :: int
  last_included_term :: int
  sm_peers :: "peer_id list"
  sm_old_peers :: "peer_id list"

definition lm_new :: "'s \<Rightarrow> conf_manager \<Rightarrow> 's log_manager" where
  "lm_new st cm =
     \<lparr>log_storage_st = st, config_manager = cm, wait_map = [], lm_stopped = False, has_error = False,
      next_wait_id = 0, disk_id = LogId 0 0, applied_id = LogId 0 0, logs_in_memory = [],
      first_log_index = 0, last_log_index = 0, last_snapshot_id = LogId 0 0,
      virtual_first_log_id = LogId 0 0, disk_queue = []\<rparr>"

definition lm_init :: "'s log_storage_ops \<Rightarrow> 's log_manager \<Rightarrow> int \<times> 's log_manager" where
  "lm_init ops lm =
     (let (ret, st) = ls_init ops (log_storage_st lm);
          lm = lm\<lparr>log_storage_st := st\<rparr>
      in if ret \<noteq> 0 then (ret, lm)
         else let last = ls_last_log_index ops st
              in (0, lm\<lparr>first_log_index := ls_first_log_index ops st,
                        last_log_index := last,
                        disk_id := LogId last (ls_get_term ops last st)\<rparr>))"

subsection \<open>Reading the log\<close>

definition get_entry_from_memory :: "int \<Rightarrow> 's log_manager \<Rightarrow> log_entry option" where
  "get_entry_from_memory i lm =
     (if logs_in_memory lm = [] then None
      else let first_index = le_index (hd (logs_in_memory lm));
               last_index = le_index (last (logs_in_memory lm))
           in if i \<ge> first_index \<and> i \<le> last_index
              then deque_at (logs_in_memory lm) (i - first_index) else None)"

definition unsafe_get_term :: "'s log_storage_ops \<Rightarrow> int \<Rightarrow> 's log_manager \<Rightarrow> int" where
  "unsafe_get_term ops i lm =
     (if i = 0 then 0
      else if i = index (virtual_first_log_id lm) then log_term (virtual_first_log_id lm)
      else if i = index (last_snapshot_id lm) then log_term (last_snapshot_id lm)
      else if i > last_log_index lm \<or> i < first_log_index lm then 0
      else case get_entry_from_memory i lm of
             Some entry \<Rightarrow> le_term entry
           | None \<Rightarrow> ls_get_term ops i (log_storage_st lm))"

definition lm_get_term :: "'s log_storage_ops \<Rightarrow> int \<Rightarrow> 's log_manager \<Rightarrow> int" where
  "lm_get_term ops i lm =
     (if i = 0 then 0
      else if i = index (virtual_first_log_id lm) then log_term (virtual_first_log_id lm)
      else if i = index (last_snapshot_id lm) then log_term (last_snapshot_id lm)
      else if i > last_log_index lm \<or> i < first_log_index lm then 0
      else case get_entry_from_memory i lm of
             Some entry \<Rightarrow> le_term entry
           | None \<Rightarrow> ls_get_term ops i (log_storage_st lm))"

definition report_error :: "int \<Rightarrow> 's log_manager \<Rightarrow> 's log_manager \<times> lm_event list" where
  "report_error error_code lm = (lm\<lparr>has_error := True\<rparr>, [ReportError error_code])"

definition lm_get_entry ::
  "'s log_storage_ops \<Rightarrow> int \<Rightarrow> 's log_manager \<Rightarrow> log_entry option \<times> 's log_manager \<times> lm_event list" where
  "lm_get_entry ops i lm =
     (if i > last_log_index lm \<or> i < first_log_index lm then (None, lm, [])
      else case get_entry_from_memory i lm of
             Some entry \<Rightarrow> (Some entry, lm, [])
           | None \<Rightarrow>
               (case ls_get_entry ops i (log_storage_st lm) of
                  None \<Rightarrow> (None, report_error EIO lm)
                | Some entry \<Rightarrow> (Some entry, lm, [])))"

text \<open>\<open>last_log_index(false)\<close> reads the counter; with \<open>true\<close> the answer comes from the disk
  thread unless the log ends at the last snapshot.\<close>

definition lm_last_log_index_flush ::
  "nat \<Rightarrow> 's log_manager \<Rightarrow> int option \<times> 's log_manager" where
  "lm_last_log_index_flush c lm =
     (if last_log_index lm = index (last_snapshot_id lm) then (Some (last_log_index lm), lm)
      else (None, lm\<lparr>disk_queue := disk_queue lm @ [LastLogIdClosure c]\<rparr>))"

definition lm_last_log_id :: "'s log_storage_ops \<Rightarrow> 's log_manager \<Rightarrow> log_id" where
  "lm_last_log_id ops lm =
     (if last_log_index lm \<ge> first_log_index lm
      then LogId (last_log_index lm) (unsafe_get_term ops (last_log_index lm) lm)
      else last_snapshot_id lm)"

definition lm_last_log_id_flush ::
  "nat \<Rightarrow> 's log_manager \<Rightarrow> log_id option \<times> 's log_manager" where
  "lm_last_log_id_flush c lm =
     (if last_log_index lm = index (last_snapshot_id lm) then (Some (last_snapshot_id lm), lm)
      else (None, lm\<lparr>disk_queue := disk_queue lm @ [LastLogIdClosure c]\<rparr>))"

definition lm_get_configuration :: "int \<Rightarrow> 's log_manager \<Rightarrow> conf_entry" where
  "lm_get_configuration i lm = cm_get i (config_manager lm)"

definition check_and_set_configuration :: "conf_entry \<Rightarrow> 's log_manager \<Rightarrow> bool \<times> conf_entry" where
  "check_and_set_configuration current lm =
     (let last_conf = last_configuration (config_manager lm)
      in if ce_id current \<noteq> ce_id last_conf then (True, last_conf) else (False, current))"

record log_manager_status =
  st_first_index :: int
  st_last_index :: int
  st_disk_index :: int
  st_known_applied_index :: int

definition lm_get_status :: "'s log_storage_ops \<Rightarrow> 's log_manager \<Rightarrow> log_manager_status" where
  "lm_get_status ops lm =
     \<lparr>st_first_index = ls_first_log_index ops (log_storage_st lm),
      st_last_index = ls_last_log_index ops (log_storage_st lm),
      st_disk_index = index (disk_id lm), st_known_applied_index = index (applied_id lm)\<rparr>"

definition check_consistency :: "'s log_manager \<Rightarrow> int" where
  "check_consistency lm =
     (if last_snapshot_id lm = LogId 0 0
      then (if first_log_index lm = 1 then 0 else EIO)
      else (if index (last_snapshot_id lm) \<ge> first_log_index lm - 1 \<and>
               index (last_snapshot_id lm) \<le> last_log_index lm
            then 0 else EIO))"

subsection \<open>Cutting the log\<close>

definition lm_truncate_prefix :: "int \<Rightarrow> 's log_manager \<Rightarrow> 's log_manager" where
  "lm_truncate_prefix first_index_kept lm =
     (let lm = lm\<lparr>logs_in_memory :=
                    dropWhile (\<lambda>e. le_index e < first_index_kept) (logs_in_memory lm)\<rparr>;
          lm = lm\<lparr>first_log_index := first_index_kept\<rparr>;
          lm = (if first_index_kept > last_log_index lm
                then lm\<lparr>last_log_index := first_index_kept - 1\<rparr> else lm);
          lm = lm\<lparr>config_manager := cm_truncate_prefix first_index_kept (config_manager lm)\<rparr>
      in lm\<lparr>disk_queue := disk_queue lm @ [TruncatePrefixClosure first_index_kept]\<rparr>)"

definition lm_reset :: "int \<Rightarrow> 's log_manager \<Rightarrow> 's log_manager" where
  "lm_reset next_log_index lm =
     (let lm = lm\<lparr>logs_in_memory := [], first_log_index := next_log_index,
                  last_log_index := next_log_index - 1\<rparr>;
          cm = cm_truncate_prefix (first_log_index lm) (config_manager lm);
          cm = cm_truncate_suffix (last_log_index lm) cm
      in lm\<lparr>config_manager := cm, disk_queue := disk_queue lm @ [ResetClosure next_log_index]\<rparr>)"

definition unsafe_truncate_suffix :: "'s log_storage_ops \<Rightarrow> int \<Rightarrow> 's log_manager \<Rightarrow> 's log_manager" where
  "unsafe_truncate_suffix ops last_index_kept lm =
     (if last_index_kept < index (applied_id lm) then lm
      else let lm = lm\<lparr>logs_in_memory :=
                         rev (dropWhile (\<lambda>e. le_index e > last_index_kept) (rev (logs_in_memory lm)))\<rparr>;
               lm = lm\<lparr>last_log_index := last_index_kept\<rparr>;
               last_term_kept = unsafe_get_term ops last_index_kept lm;
               lm = lm\<lparr>config_manager := cm_truncate_suffix last_index_kept (config_manager lm)\<rparr>
           in lm\<lparr>disk_queue := disk_queue lm @ [TruncateSuffixClosure last_index_kept last_term_kept]\<rparr>)"

subsection \<open>Waiters\<close>

definition wakeup_all_waiter :: "'s log_manager \<Rightarrow> 's log_manager \<times> lm_event list" where
  "wakeup_all_waiter lm =
     (let error_code = (if lm_stopped lm then ESTOP else 0)
      in (lm\<lparr>wait_map := []\<rparr>, map (\<lambda>(_, wm). NewLog wm error_code) (wait_map lm)))"

definition lm_shutdown :: "'s log_manager \<Rightarrow> 's log_manager \<times> lm_event list" where
  "lm_shutdown lm = wakeup_all_waiter (lm\<lparr>lm_stopped := True\<rparr>)"

text \<open>The id is an \<^verbatim>\<open>int64_t\<close> counter that is narrowed to \<^verbatim>\<open>int\<close> when it is handed out.\<close>

definition notify_on_new_log ::
  "int \<Rightarrow> nat \<Rightarrow> 's log_manager \<Rightarrow> int \<times> 's log_manager \<times> lm_event list" where
  "notify_on_new_log expected_last_log_index wm lm =
     (if expected_last_log_index \<noteq> last_log_index lm \<or> lm_stopped lm
      then (0, lm, [NewLog wm (if lm_stopped lm then ESTOP else 0)])
      else let lm = (if next_wait_id lm = 0 then lm\<lparr>next_wait_id := next_wait_id lm + 1\<rparr> else lm);
               wait_id = to_int32 (next_wait_id lm);
               lm = lm\<lparr>next_wait_id := next_wait_id lm + 1\<rparr>
           in (wait_id, lm\<lparr>wait_map := AList.update wait_id wm (wait_map lm)\<rparr>, []))"

definition remove_waiter :: "int \<Rightarrow> 's log_manager \<Rightarrow> int \<times> 's log_manager" where
  "remove_waiter i lm =
     (case map_of (wait_map lm) i of
        None \<Rightarrow> (-1, lm)
      | Some wm \<Rightarrow> (0, lm\<lparr>wait_map := AList.delete i (wait_map lm)\<rparr>))"

subsection \<open>Appending entries\<close>

definition assign_index :: "'s log_manager \<times> log_entry list \<Rightarrow> log_entry \<Rightarrow> 's log_manager \<times> log_entry list" where
  "assign_index = (\<lambda>(lm, out) e.
     let lm = lm\<lparr>last_log_index := last_log_index lm + 1\<rparr>
     in (lm, out @ [e\<lparr>le_id := LogId (last_log_index lm) (le_term e)\<rparr>]))"

fun conflicting_index :: "'s log_storage_ops \<Rightarrow> 's log_manager \<Rightarrow> log_entry list \<Rightarrow> nat" where
  "conflicting_index ops lm [] = 0"
| "conflicting_index ops lm (e # es) =
     (if unsafe_get_term ops (le_index e) lm \<noteq> le_term e then 0
      else Suc (conflicting_index ops lm es))"

text \<open>
  The result is the return code, the entries that are left and the status with which the
  closure guard runs the closure (\<open>None\<close> when the guard was released).
\<close>

definition check_and_resolve_conflict ::
  "'s log_storage_ops \<Rightarrow> log_entry list \<Rightarrow> 's log_manager
     \<Rightarrow> int \<times> int option \<times> log_entry list \<times> 's log_manager" where
  "check_and_resolve_conflict ops entries lm =
     (if le_index (hd entries) = 0
      then let (lm, entries) = foldl assign_index (lm, []) entries in (0, None, entries, lm)
      else if le_index (hd entries) > last_log_index lm + 1
      then (-1, Some EINVAL, entries, lm)
      else if le_index (last entries) \<le> index (applied_id lm)
      then (1, Some 0, entries, lm)
      else if le_index (hd entries) = last_log_index lm + 1
      then (0, None, entries, lm\<lparr>last_log_index := le_index (last entries)\<rparr>)
      else let ci = conflicting_index ops lm entries;
               lm = (if ci \<noteq> length entries
                     then (let lm = (if le_index (entries ! ci) \<le> last_log_index lm
                                     then unsafe_truncate_suffix ops (le_index (entries ! ci) - 1) lm
                                     else lm)
                           in lm\<lparr>last_log_index := le_index (last entries)\<rparr>)
                     else lm)
           in (0, None, drop ci entries, lm))"

definition add_configuration :: "'s log_manager \<Rightarrow> log_entry \<Rightarrow> 's log_manager" where
  "add_configuration lm e =
     (if le_type e = ENTRY_TYPE_CONFIGURATION
      then lm\<lparr>config_manager := snd (cm_add (conf_entry_of e) (config_manager lm))\<rparr>
      else lm)"

definition enqueue_entries ::
  "nat \<Rightarrow> log_entry list \<Rightarrow> 's log_manager \<Rightarrow> 's log_manager \<times> lm_event list" where
  "enqueue_entries done entries lm =
     (let lm = foldl add_configuration lm entries;
          first = (if entries \<noteq> [] then le_index (hd entries) else 0);
          lm = lm\<lparr>logs_in_memory := logs_in_memory lm @ entries,
                  disk_queue := disk_queue lm @ [AppendClosure done first entries]\<rparr>
      in wakeup_all_waiter lm)"

definition lm_append_entries ::
  "'s log_storage_ops \<Rightarrow> nat \<Rightarrow> log_entry list \<Rightarrow> 's log_manager \<Rightarrow> 's log_manager \<times> lm_event list" where
  "lm_append_entries ops done entries lm =
     (if has_error lm then (lm, [DoneRun done EIO])
      else if entries = [] then enqueue_entries done entries lm
      else case check_and_resolve_conflict ops entries lm of
             (rc, status, entries, lm) \<Rightarrow>
               if rc \<noteq> 0
               then (lm, case status of None \<Rightarrow> [] | Some s \<Rightarrow> [DoneRun done s])
               else enqueue_entries done entries lm)"

subsection \<open>Snapshots\<close>

definition lm_set_snapshot :: "'s log_storage_ops \<Rightarrow> snapshot_meta \<Rightarrow> 's log_manager \<Rightarrow> 's log_manager" where
  "lm_set_snapshot ops meta lm =
     (if last_included_index meta \<le> index (last_snapshot_id lm) then lm
      else
        let conf = foldl (\<lambda>c p. snd (add_peer p c)) {||} (sm_peers meta);
            old_conf = foldl (\<lambda>c p. snd (add_peer p c)) {||} (sm_old_peers meta);
            entry = \<lparr>ce_id = LogId (last_included_index meta) (last_included_term meta),
                     ce_conf = conf, ce_old_conf = old_conf\<rparr>;
            lm = lm\<lparr>config_manager := cm_set_snapshot entry (config_manager lm)\<rparr>;
            t = unsafe_get_term ops (last_included_index meta) lm;
            last_but_one_snapshot_id = last_snapshot_id lm;
            lm = lm\<lparr>last_snapshot_id := LogId (last_included_index meta) (last_included_term meta)\<rparr>;
            lm = (if last_snapshot_id lm > applied_id lm
                  then lm\<lparr>applied_id := last_snapshot_id lm\<rparr> else lm)
        in if t = 0
           then lm_truncate_prefix (last_included_index meta + 1)
                  (lm\<lparr>virtual_first_log_id := last_snapshot_id lm\<rparr>)
           else if t = last_included_term meta
           then (if index last_but_one_snapshot_id > 0
                 then lm_truncate_prefix (index last_but_one_snapshot_id + 1)
                        (lm\<lparr>virtual_first_log_id := last_but_one_snapshot_id\<rparr>)
                 else lm)
           else lm_reset (last_included_index meta + 1)
                  (lm\<lparr>virtual_first_log_id := last_snapshot_id lm\<rparr>))"

definition clear_bufferred_logs :: "'s log_manager \<Rightarrow> 's log_manager" where
  "clear_bufferred_logs lm =
     (if index (last_snapshot_id lm) \<noteq> 0
      then lm_truncate_prefix (index (last_snapshot_id lm) + 1)
             (lm\<lparr>virtual_first_log_id := last_snapshot_id lm\<rparr>)
      else lm)"

subsection \<open>Dropping entries from memory\<close>

text \<open>One round pops at most \<open>cap\<close> entries; the second component counts them.\<close>

fun clear_round :: "nat \<Rightarrow> log_id \<Rightarrow> log_entry list \<Rightarrow> nat \<times> log_entry list" where
  "clear_round 0 i logs = (0, logs)"
| "clear_round (Suc cap) i [] = (0, [])"
| "clear_round (Suc cap) i (e # logs) =
     (if le_id e > i then (0, e # logs)
      else let (n, rest) = clear_round cap i logs in (Suc n, rest))"

lemma clear_round_length: "clear_round cap i logs = (n, rest) \<Longrightarrow> length logs = n + length rest"
  by (induction cap i logs arbitrary: n rest rule: clear_round.induct)
    (auto split: if_splits prod.splits)

function clear_logs :: "log_id \<Rightarrow> log_entry list \<Rightarrow> log_entry list" where
  "clear_logs i logs =
     (let (nentries, rest) = clear_round 256 i logs
      in if nentries = 256 then clear_logs i rest else rest)"
  by pat_completeness auto

termination
  by (relation "measure (\<lambda>(i, logs). length logs)") (auto dest!: clear_round_length sym [of "(_, _)"])

declare clear_logs.simps [simp del]

definition clear_memory_logs :: "log_id \<Rightarrow> 's log_manager \<Rightarrow> 's log_manager" where
  "clear_memory_logs i lm = lm\<lparr>logs_in_memory := clear_logs i (logs_in_memory lm)\<rparr>"

definition set_disk_id :: "log_id \<Rightarrow> 's log_manager \<Rightarrow> 's log_manager" where
  "set_disk_id i lm =
     (if i < disk_id lm then lm
      else let lm = lm\<lparr>disk_id := i\<rparr>
           in clear_memory_logs (min (disk_id lm) (applied_id lm)) lm)"

definition set_applied_id :: "log_id \<Rightarrow> 's log_manager \<Rightarrow> 's log_manager" where
  "set_applied_id i lm =
     (if i < applied_id lm then lm
      else let lm = lm\<lparr>applied_id := i\<rparr>
           in clear_memory_logs (min (disk_id lm) (applied_id lm)) lm)"

subsection \<open>The disk thread\<close>

definition append_to_storage ::
  "'s log_storage_ops \<Rightarrow> log_entry list \<Rightarrow> log_id \<Rightarrow> 's log_manager
     \<Rightarrow> log_id \<times> 's log_manager \<times> lm_event list" where
  "append_to_storage ops to_append last_id lm =
     (if has_error lm then (last_id, lm, [])
      else let (nappent, st) = ls_append_entries ops to_append (log_storage_st lm);
               lm = lm\<lparr>log_storage_st := st\<rparr>;
               (lm, evs) = (if nappent \<noteq> int (length to_append) then report_error EIO lm else (lm, []))
           in (if nappent > 0 then le_id (to_append ! nat (nappent - 1)) else last_id, lm, evs))"

text \<open>The \<open>AppendBatcher\<close> with the state of the thread around it: the collected closures,
  the bytes of their entries, the entries, the last id, the manager and the events so far.\<close>

record 's disk_state =
  ab_storage :: "nat list"
  ab_buffer_size :: nat
  ab_to_append :: "log_entry list"
  ds_last_id :: log_id
  ds_lm :: "'s log_manager"
  ds_events :: "lm_event list"

definition ab_flush :: "'s log_storage_ops \<Rightarrow> 's disk_state \<Rightarrow> 's disk_state" where
  "ab_flush ops ds =
     (let ds = (if ab_storage ds \<noteq> []
                then (case append_to_storage ops (ab_to_append ds) (ds_last_id ds) (ds_lm ds) of
                        (last_id, lm, evs) \<Rightarrow>
                          ds\<lparr>ds_last_id := last_id, ds_lm := lm,
                             ds_events := ds_events ds @ evs @
                               map (\<lambda>c. DoneRun c (if has_error lm then EIO else 0)) (ab_storage ds),
                             ab_to_append := []\<rparr>)
                else ds)
      in ds\<lparr>ab_storage := [], ab_buffer_size := 0\<rparr>)"

definition ab_append ::
  "'s log_storage_ops \<Rightarrow> nat \<Rightarrow> nat \<Rightarrow> log_entry list \<Rightarrow> 's disk_state \<Rightarrow> 's disk_state" where
  "ab_append ops max_append_buffer_size done entries ds =
     (let ds = (if length (ab_storage ds) = 256 \<or> ab_buffer_size ds \<ge> max_append_buffer_size
                then ab_flush ops ds else ds)
      in ds\<lparr>ab_storage := ab_storage ds @ [done],
            ab_to_append := ab_to_append ds @ entries,
            ab_buffer_size := ab_buffer_size ds + sum_list (map (\<lambda>e. length (le_data e)) entries)\<rparr>)"

definition storage_result ::
  "int \<times> 's \<Rightarrow> 's disk_state \<Rightarrow> int \<times> 's disk_state" where
  "storage_result r ds = (fst r, ds\<lparr>ds_lm := (ds_lm ds)\<lparr>log_storage_st := snd r\<rparr>\<rparr>)"

definition disk_step ::
  "'s log_storage_ops \<Rightarrow> nat \<Rightarrow> stable_closure \<Rightarrow> 's disk_state \<Rightarrow> 's disk_state" where
  "disk_step ops max_append_buffer_size c ds =
     (case c of
        AppendClosure done first (e # es) \<Rightarrow> ab_append ops max_append_buffer_size done (e # es) ds
      | _ \<Rightarrow>
        (let ds = ab_flush ops ds;
             st = log_storage_st (ds_lm ds);
             (ret, ds) =
               (case c of
                  LastLogIdClosure l \<Rightarrow>
                    (0, ds\<lparr>ds_events := ds_events ds @ [LastLogIdIs l (ds_last_id ds)]\<rparr>)
                | TruncatePrefixClosure k \<Rightarrow> storage_result (ls_truncate_prefix ops k st) ds
                | TruncateSuffixClosure k t \<Rightarrow>
                    (let (ret, ds) = storage_result (ls_truncate_suffix ops k st) ds
                     in (ret, if ret = 0 then ds\<lparr>ds_last_id := LogId k t\<rparr> else ds))
                | ResetClosure n \<Rightarrow> storage_result (ls_reset ops n st) ds
                | AppendClosure done first es \<Rightarrow> (0, ds));
             ds = (if ret \<noteq> 0
                   then (case report_error ret (ds_lm ds) of (lm, evs) \<Rightarrow>
                           ds\<lparr>ds_lm := lm, ds_events := ds_events ds @ evs\<rparr>)
                   else ds)
         in (case c of
               AppendClosure done first es \<Rightarrow> ds\<lparr>ds_events := ds_events ds @ [DoneRun done 0]\<rparr>
             | _ \<Rightarrow> ds)))"

text \<open>One activation of the thread takes the first \<open>n\<close> closures of the queue.\<close>

definition disk_thread ::
  "'s log_storage_ops \<Rightarrow> nat \<Rightarrow> nat \<Rightarrow> 's log_manager \<Rightarrow> 's log_manager \<times> lm_event list" where
  "disk_thread ops max_append_buffer_size n lm =
     (let iter = take n (disk_queue lm);
          ds = \<lparr>ab_storage = [], ab_buffer_size = 0, ab_to_append = [], ds_last_id = disk_id lm,
                ds_lm = lm\<lparr>disk_queue := drop n (disk_queue lm)\<rparr>, ds_events = []\<rparr>;
          ds = ab_flush ops (foldl (\<lambda>ds c. disk_step ops max_append_buffer_size c ds) ds iter)
      in (set_disk_id (ds_last_id ds) (ds_lm ds), ds_events ds))"

end
