(* ===== verification/Raft_Ballot.thy ===== *)
theory Raft_Ballot
  imports Raft_Configuration
begin

text \<open>
  The vote counter of \<^verbatim>\<open>raft/braft/ballot.{h,cpp}\<close>. A ballot holds the peers of a
  configuration (and of the old configuration while the membership changes), a flag for
  each of them and the number of votes that are still missing. It is shown to count
  exactly: whatever position hints the caller passes and however often a peer votes, the
  ballot is granted just when a majority of each configuration has voted. Two granted
  ballots that share a configuration therefore share a voter.
\<close>

subsection \<open>State and operations\<close>

record unfound_peer =
  up_peer_id :: peer_id
  up_found :: bool

record pos_hint =
  pos0 :: int
  pos1 :: int

record ballot =
  b_peers :: "unfound_peer list"
  b_quorum :: int
  b_old_peers :: "unfound_peer list"
  b_old_quorum :: int

definition default_pos_hint :: pos_hint where
  "default_pos_hint = \<lparr>pos0 = -1, pos1 = -1\<rparr>"

definition unfound :: "peer_id \<Rightarrow> unfound_peer" where
  "unfound p = \<lparr>up_peer_id = p, up_found = False\<rparr>"

definition ballot_init :: "configuration \<Rightarrow> configuration option \<Rightarrow> ballot" where
  "ballot_init conf old_conf =
     (let peers = map unfound (conf_list_peers conf);
          b = \<lparr>b_peers = peers, b_quorum = int (length peers div 2 + 1),
               b_old_peers = [], b_old_quorum = 0\<rparr>
      in case old_conf of
           None \<Rightarrow> b
         | Some oc \<Rightarrow>
             let old_peers = map unfound (conf_list_peers oc)
             in b\<lparr>b_old_peers := old_peers,
                  b_old_quorum := int (length old_peers div 2 + 1)\<rparr>)"

text \<open>The position of a peer; \<open>None\<close> is the end iterator.\<close>

fun scan_peer :: "peer_id \<Rightarrow> unfound_peer list \<Rightarrow> nat option" where
  "scan_peer p [] = None"
| "scan_peer p (u # us) =
     (if up_peer_id u = p then Some 0 else map_option Suc (scan_peer p us))"

definition find_peer :: "peer_id \<Rightarrow> unfound_peer list \<Rightarrow> int \<Rightarrow> nat option" where
  "find_peer p peers pos_hint =
     (if pos_hint < 0 \<or> pos_hint \<ge> int (length peers)
         \<or> up_peer_id (peers ! nat pos_hint) \<noteq> p
      then scan_peer p peers
      else Some (nat pos_hint))"

definition grant_side ::
  "peer_id \<Rightarrow> int \<Rightarrow> unfound_peer list \<Rightarrow> int \<Rightarrow> unfound_peer list \<times> int \<times> int" where
  "grant_side p hint peers q =
     (case find_peer p peers hint of
        Some i \<Rightarrow>
          if \<not> up_found (peers ! i)
          then (peers[i := (peers ! i)\<lparr>up_found := True\<rparr>], q - 1, int i)
          else (peers, q, int i)
      | None \<Rightarrow> (peers, q, -1))"

definition grant :: "peer_id \<Rightarrow> pos_hint \<Rightarrow> ballot \<Rightarrow> ballot \<times> pos_hint" where
  "grant p hint b =
     (let (peers, q, h0) = grant_side p (pos0 hint) (b_peers b) (b_quorum b);
          b' = b\<lparr>b_peers := peers, b_quorum := q\<rparr>
      in if b_old_peers b' = [] then (b', \<lparr>pos0 = h0, pos1 = -1\<rparr>)
         else let (old_peers, oq, h1) =
                grant_side p (pos1 hint) (b_old_peers b') (b_old_quorum b')
              in (b'\<lparr>b_old_peers := old_peers, b_old_quorum := oq\<rparr>, \<lparr>pos0 = h0, pos1 = h1\<rparr>))"

definition grant_no_hint :: "peer_id \<Rightarrow> ballot \<Rightarrow> ballot" where
  "grant_no_hint p b = fst (grant p default_pos_hint b)"

definition granted :: "ballot \<Rightarrow> bool" where
  "granted b \<longleftrightarrow> b_quorum b \<le> 0 \<and> b_old_quorum b \<le> 0"

text \<open>A sequence of votes, each with the hint its caller had at hand.\<close>

definition grant_seq :: "ballot \<Rightarrow> (peer_id \<times> pos_hint) list \<Rightarrow> ballot" where
  "grant_seq b vs = foldl (\<lambda>b v. fst (grant (fst v) (snd v) b)) b vs"

subsection \<open>Quorum systems\<close>

text \<open>
  What the safety of the protocol needs of a quorum: more votes keep it, and two of them
  meet. The joint quorums of a membership change inherit the second law as soon as the two
  sides have a configuration in common.
\<close>

locale quorum_system =
  fixes is_quorum :: "'c \<Rightarrow> 'p set \<Rightarrow> bool"
  assumes quorum_mono: "is_quorum c Q \<Longrightarrow> Q \<subseteq> Q' \<Longrightarrow> is_quorum c Q'"
    and quorum_meet: "is_quorum c Q \<Longrightarrow> is_quorum c Q' \<Longrightarrow> Q \<inter> Q' \<noteq> {}"
begin

definition joint_quorum :: "'c \<Rightarrow> 'c option \<Rightarrow> 'p set \<Rightarrow> bool" where
  "joint_quorum c oc Q \<longleftrightarrow> is_quorum c Q \<and> (\<forall>d. oc = Some d \<longrightarrow> is_quorum d Q)"

lemma joint_quorum_mono: "joint_quorum c oc Q \<Longrightarrow> Q \<subseteq> Q' \<Longrightarrow> joint_quorum c oc Q'"
  by (auto simp: joint_quorum_def intro: quorum_mono)

lemma joint_quorum_meet:
  assumes "joint_quorum c oc Q" and "joint_quorum d od Q'"
    and "d = c \<or> od = Some c \<or> oc = Some d \<or> (\<exists>e. oc = Some e \<and> od = Some e)"
  shows "Q \<inter> Q' \<noteq> {}"
proof -
  from assms(3) obtain e where "is_quorum e Q" and "is_quorum e Q'"
    using assms(1,2) unfolding joint_quorum_def by blast
  then show ?thesis by (rule quorum_meet)
qed

end

text \<open>A majority of a configuration, counted among the peers of that configuration only.\<close>

definition majority :: "configuration \<Rightarrow> peer_id set \<Rightarrow> bool" where
  "majority c V \<longleftrightarrow> fcard c < 2 * card (V \<inter> fset c)"

lemma majority_meet:
  assumes "majority c V" and "majority c W"
  shows "V \<inter> W \<noteq> {}"
proof
  assume "V \<inter> W = {}"
  then have "card (V \<inter> fset c) + card (W \<inter> fset c) = card ((V \<inter> fset c) \<union> (W \<inter> fset c))"
    by (subst card_Un_disjoint) auto
  also have "\<dots> \<le> card (fset c)" by (rule card_mono) auto
  finally show False using assms by (simp add: majority_def fcard.rep_eq)
qed

lemma majority_mono: "majority c V \<Longrightarrow> V \<subseteq> W \<Longrightarrow> majority c W"
proof -
  assume "majority c V" and "V \<subseteq> W"
  then have "card (V \<inter> fset c) \<le> card (W \<inter> fset c)" by (intro card_mono) auto
  with \<open>majority c V\<close> show ?thesis by (simp add: majority_def)
qed

interpretation majority: quorum_system majority
  by unfold_locales (fact majority_mono, fact majority_meet)

subsection \<open>Counting is exact\<close>

definition peer_ids :: "unfound_peer list \<Rightarrow> peer_id list" where
  "peer_ids us = map up_peer_id us"

definition voters :: "unfound_peer list \<Rightarrow> peer_id set" where
  "voters us = up_peer_id ` {u \<in> set us. up_found u}"

definition side_inv :: "configuration \<Rightarrow> peer_id set \<Rightarrow> unfound_peer list \<Rightarrow> int \<Rightarrow> bool" where
  "side_inv c V us q \<longleftrightarrow>
     peer_ids us = conf_list_peers c \<and> voters us = V \<inter> fset c
     \<and> q = int (fcard c div 2 + 1) - int (card (V \<inter> fset c))"

lemma scan_peer_Some:
  "scan_peer p us = Some i \<Longrightarrow> i < length us \<and> up_peer_id (us ! i) = p"
  by (induction us arbitrary: i) (auto split: if_splits)

lemma scan_peer_None: "scan_peer p us = None \<longleftrightarrow> p \<notin> set (peer_ids us)"
  by (induction us) (auto simp: peer_ids_def)

lemma find_peer_Some:
  "find_peer p us h = Some i \<Longrightarrow> i < length us \<and> up_peer_id (us ! i) = p"
  by (auto simp: find_peer_def split: if_splits dest: scan_peer_Some)

lemma find_peer_None: "find_peer p us h = None \<longleftrightarrow> p \<notin> set (peer_ids us)"
  by (auto simp: find_peer_def scan_peer_None) (auto simp: peer_ids_def)

lemma voters_subset: "voters us \<subseteq> set (peer_ids us)"
  by (auto simp: voters_def peer_ids_def)

lemma voters_nth:
  assumes "distinct (peer_ids us)" and "i < length us"
  shows "up_peer_id (us ! i) \<in> voters us \<longleftrightarrow> up_found (us ! i)"
proof
  assume "up_peer_id (us ! i) \<in> voters us"
  then obtain j where "j < length us" "up_found (us ! j)" "up_peer_id (us ! j) = up_peer_id (us ! i)"
    by (auto simp: voters_def in_set_conv_nth)
  moreover from this assms have "j = i"
    by (auto simp: peer_ids_def distinct_conv_nth)
  ultimately show "up_found (us ! i)" by simp
qed (use assms in \<open>auto simp: voters_def\<close>)

lemma voters_update:
  assumes "distinct (peer_ids us)" and "i < length us"
  shows "voters (us[i := (us ! i)\<lparr>up_found := True\<rparr>]) = insert (up_peer_id (us ! i)) (voters us)"
proof -
  have "distinct us" using assms(1) by (simp add: peer_ids_def distinct_map)
  then have "set (us[i := (us ! i)\<lparr>up_found := True\<rparr>]) =
      insert ((us ! i)\<lparr>up_found := True\<rparr>) (set us - {us ! i})"
    using assms(2) by (rule set_update_distinct)
  then have "{u \<in> set (us[i := (us ! i)\<lparr>up_found := True\<rparr>]). up_found u} =
      insert ((us ! i)\<lparr>up_found := True\<rparr>) ({u \<in> set us. up_found u} - {us ! i})"
    by auto
  then show ?thesis
    unfolding voters_def by auto
qed

lemma peer_ids_update [simp]:
  "peer_ids (us[i := (us ! i)\<lparr>up_found := True\<rparr>]) = peer_ids us"
proof (cases "i < length us")
  case True
  then have "(map up_peer_id us)[i := up_peer_id (us ! i)] = map up_peer_id us"
    by (metis list_update_id nth_map)
  then show ?thesis by (simp add: peer_ids_def map_update)
qed (simp add: list_update_beyond)

lemma side_inv_init:
  "side_inv c {} (map unfound (conf_list_peers c)) (int (fcard c div 2 + 1))"
  by (auto simp: side_inv_def peer_ids_def voters_def unfound_def comp_def)

lemma side_inv_grant:
  assumes "side_inv c V us q" and "grant_side p h us q = (us', q', h')"
  shows "side_inv c (insert p V) us' q'"
proof (cases "find_peer p us h")
  case None
  with assms show ?thesis
    by (auto simp: grant_side_def find_peer_None side_inv_def)
next
  case (Some i)
  from assms(1) have ids: "distinct (peer_ids us)" "set (peer_ids us) = fset c"
    and V: "voters us = V \<inter> fset c" by (auto simp: side_inv_def)
  from find_peer_Some [OF Some] have i: "i < length us" "up_peer_id (us ! i) = p" by auto
  then have p: "p \<in> fset c" using ids(2) by (auto simp: peer_ids_def)
  have found: "up_found (us ! i) \<longleftrightarrow> p \<in> V"
    using voters_nth [OF ids(1) i(1)] i(2) V p by auto
  show ?thesis
  proof (cases "p \<in> V")
    case True
    with Some found assms show ?thesis
      by (auto simp: grant_side_def insert_absorb)
  next
    case False
    with Some found assms(2) i ids(1) have us': "peer_ids us' = peer_ids us" "q' = q - 1"
        "voters us' = insert p (voters us)"
      by (auto simp: grant_side_def voters_update)
    have "insert p V \<inter> fset c = insert p (V \<inter> fset c)" using p by blast
    moreover have "card (insert p (V \<inter> fset c)) = Suc (card (V \<inter> fset c))"
      using False by (simp add: finite_Int)
    ultimately show ?thesis
      using assms(1) us' V by (simp add: side_inv_def)
  qed
qed

lemma side_inv_quorum: "side_inv c V us q \<Longrightarrow> q \<le> 0 \<longleftrightarrow> majority c V"
  by (auto simp: side_inv_def majority_def)

definition ballot_inv :: "configuration \<Rightarrow> configuration option \<Rightarrow> peer_id set \<Rightarrow> ballot \<Rightarrow> bool" where
  "ballot_inv c oc V b \<longleftrightarrow>
     side_inv c V (b_peers b) (b_quorum b)
     \<and> (case oc of None \<Rightarrow> b_old_peers b = [] \<and> b_old_quorum b = 0
        | Some d \<Rightarrow> side_inv d V (b_old_peers b) (b_old_quorum b))"

lemma ballot_inv_init: "ballot_inv c oc {} (ballot_init c oc)"
  using side_inv_init
  by (cases oc) (simp_all add: ballot_inv_def ballot_init_def Let_def)

lemma side_inv_empty: "side_inv d V [] q \<Longrightarrow> side_inv d (insert p V) [] q"
proof -
  assume inv: "side_inv d V [] q"
  then have "conf_list_peers d = []" by (simp add: side_inv_def peer_ids_def)
  then have "fset d = {}" by (metis list.set(1) set_conf_list_peers)
  with inv show ?thesis by (simp add: side_inv_def)
qed

lemma ballot_inv_grant:
  assumes "ballot_inv c oc V b"
  shows "ballot_inv c oc (insert p V) (fst (grant p h b))"
proof -
  obtain us q h0 where g: "grant_side p (pos0 h) (b_peers b) (b_quorum b) = (us, q, h0)"
    by (metis prod_cases3)
  obtain us1 q1 h1 where g1: "grant_side p (pos1 h) (b_old_peers b) (b_old_quorum b) = (us1, q1, h1)"
    by (metis prod_cases3)
  from assms have "side_inv c V (b_peers b) (b_quorum b)" by (simp add: ballot_inv_def)
  then have new: "side_inv c (insert p V) us q" using g by (rule side_inv_grant)
  show ?thesis
  proof (cases oc)
    case None
    with assms g new show ?thesis by (simp add: ballot_inv_def grant_def)
  next
    case (Some d)
    with assms have old: "side_inv d V (b_old_peers b) (b_old_quorum b)"
      by (simp add: ballot_inv_def)
    show ?thesis
    proof (cases "b_old_peers b = []")
      case True
      with old g new Some show ?thesis
        by (simp add: ballot_inv_def grant_def side_inv_empty)
    next
      case False
      with side_inv_grant [OF old g1] g g1 new Some show ?thesis
        by (simp add: ballot_inv_def grant_def)
    qed
  qed
qed

lemma ballot_inv_seq:
  "ballot_inv c oc V b \<Longrightarrow> ballot_inv c oc (V \<union> fst ` set vs) (grant_seq b vs)"
proof (induction vs arbitrary: b V)
  case (Cons v vs)
  from Cons.IH [OF ballot_inv_grant [OF Cons.prems]] show ?case
    by (simp add: grant_seq_def)
qed (simp add: grant_seq_def)

lemma ballot_inv_granted:
  "ballot_inv c oc V b \<Longrightarrow> granted b \<longleftrightarrow> majority.joint_quorum c oc V"
  by (auto simp: ballot_inv_def granted_def majority.joint_quorum_def dest: side_inv_quorum
           split: option.splits)

lemma granted_seq_iff:
  "granted (grant_seq (ballot_init c oc) vs) \<longleftrightarrow> majority.joint_quorum c oc (fst ` set vs)"
  using ballot_inv_granted [OF ballot_inv_seq [OF ballot_inv_init]] by simp

subsection \<open>Properties\<close>

text \<open>
  C3: A ballot counts exactly. After any sequence of votes, with repetitions, with votes
  from strangers and with any position hints, the ballot is granted if and only if the
  distinct voters are a strict majority of the configuration and, during a membership
  change, of the old configuration as well.
\<close>

theorem granted_iff_majority:
  "granted (grant_seq (ballot_init conf old_conf) vs) \<longleftrightarrow>
     fcard conf < 2 * card (fst ` set vs \<inter> fset conf)
     \<and> (case old_conf of None \<Rightarrow> True
        | Some oc \<Rightarrow> fcard oc < 2 * card (fst ` set vs \<inter> fset oc))"
  by (auto simp: granted_seq_iff majority.joint_quorum_def majority_def split: option.splits)

text \<open>
  C4: Two granted ballots that have a configuration in common (as the current or the old
  one) share a voter, so a peer took part in both decisions.
\<close>

theorem granted_ballots_meet:
  assumes "granted (grant_seq (ballot_init c oc) vs)"
    and "granted (grant_seq (ballot_init d od) ws)"
    and "d = c \<or> od = Some c \<or> oc = Some d \<or> (\<exists>e. oc = Some e \<and> od = Some e)"
  shows "\<exists>p. p \<in> fst ` set vs \<and> p \<in> fst ` set ws"
proof -
  have "fst ` set vs \<inter> fst ` set ws \<noteq> {}"
    using assms unfolding granted_seq_iff by (rule majority.joint_quorum_meet)
  then show ?thesis by blast
qed

theorem granted_ballots_meet_witness:
  "let h = default_pos_hint; a = PeerId 1 8000 0; b = PeerId 2 8000 0; c = PeerId 3 8000 0;
       vs = [(a, h), (b, h)]; ws = [(c, h), (b, h)]
   in granted (grant_seq (ballot_init {|a, b, c|} None) vs)
      \<and> granted (grant_seq (ballot_init {|b, c|} (Some {|a, b, c|})) ws)
      \<and> (\<exists>p. p \<in> fst ` set vs \<and> p \<in> fst ` set ws)"
proof -
  let ?h = default_pos_hint and ?a = "PeerId 1 8000 0" and ?b = "PeerId 2 8000 0"
  let ?c = "PeerId 3 8000 0"
  have g: "granted (grant_seq (ballot_init {|?a, ?b, ?c|} None) [(?a, ?h), (?b, ?h)])"
    "granted (grant_seq (ballot_init {|?b, ?c|} (Some {|?a, ?b, ?c|})) [(?c, ?h), (?b, ?h)])"
    by (simp_all add: granted_seq_iff majority.joint_quorum_def majority_def fcard.rep_eq)
  from granted_ballots_meet [OF g] g show ?thesis by (simp add: Let_def)
qed

end
