(* ===== verification/Raft_Ballot_Box.thy ===== *)
theory Raft_Ballot_Box
  imports Raft_Ballot
begin

text \<open>
  The commit tracker of the leader, \<^verbatim>\<open>raft/braft/ballot_box.{h,cpp}\<close>, together with the
  queue of user closures it feeds, \<^verbatim>\<open>raft/braft/closure_queue.{h,cpp}\<close>. The box keeps
  one ballot for each pending log index. It is shown to refine an abstract tracker that
  records, for every pending index, its configurations and the set of peers that
  acknowledged it, and that commits up to the greatest acknowledged index with a joint
  quorum. In every reachable state the closures line up with the ballots, so a committed
  prefix of the log can always be handed its closures.
\<close>

subsection \<open>The queue of closures\<close>

text \<open>A null \<^verbatim>\<open>Closure*\<close> is \<open>None\<close>.\<close>

record 'c closure_queue =
  cq_first_index :: int
  cq_queue :: "'c option list"

definition cq_new :: "'c closure_queue" where
  "cq_new = \<lparr>cq_first_index = 0, cq_queue = []\<rparr>"

text \<open>Clearing runs every closure with an error; the result lists them with their status.\<close>

definition cq_clear :: "'c closure_queue \<Rightarrow> 'c closure_queue \<times> ('c \<times> int) list" where
  "cq_clear q =
     (q\<lparr>cq_queue := [], cq_first_index := 0\<rparr>,
      List.map_filter (map_option (\<lambda>c. (c, EPERM))) (cq_queue q))"

definition cq_reset_first_index :: "int \<Rightarrow> 'c closure_queue \<Rightarrow> 'c closure_queue" where
  "cq_reset_first_index first_index q = q\<lparr>cq_first_index := first_index\<rparr>"

definition cq_append_pending_closure :: "'c option \<Rightarrow> 'c closure_queue \<Rightarrow> 'c closure_queue" where
  "cq_append_pending_closure c q = q\<lparr>cq_queue := cq_queue q @ [c]\<rparr>"

fun pop_front_n :: "nat \<Rightarrow> 'a list \<Rightarrow> 'a list \<times> 'a list" where
  "pop_front_n 0 q = ([], q)"
| "pop_front_n (Suc n) [] = ([], [])"
| "pop_front_n (Suc n) (x # q) = (let (out, rest) = pop_front_n n q in (x # out, rest))"

text \<open>
  The return code, the closures, the index of the first one (\<open>None\<close>: not assigned) and
  the new queue.
\<close>

definition cq_pop_closure_until ::
  "int \<Rightarrow> 'c closure_queue \<Rightarrow> int \<times> 'c option list \<times> int option \<times> 'c closure_queue" where
  "cq_pop_closure_until until q =
     (if cq_queue q = [] \<or> until < cq_first_index q then (0, [], Some (until + 1), q)
      else if until > cq_first_index q + int (length (cq_queue q)) - 1 then (-1, [], None, q)
      else let (out, rest) = pop_front_n (nat (until - cq_first_index q + 1)) (cq_queue q)
           in (0, out, Some (cq_first_index q),
               q\<lparr>cq_queue := rest, cq_first_index := until + 1\<rparr>))"

subsection \<open>The ballot box\<close>

record 'c ballot_box =
  last_committed_index :: int
  pending_index :: int
  pending_meta_queue :: "ballot list"
  bb_closures :: "'c closure_queue"

definition bb_new :: "'c ballot_box" where
  "bb_new = \<lparr>last_committed_index = 0, pending_index = 0, pending_meta_queue = [],
             bb_closures = cq_new\<rparr>"

text \<open>
  The loop of \<^verbatim>\<open>commit_at\<close> over \<open>n\<close> ballots from position \<open>i\<close> of the queue. The hint
  of one ballot is passed to the next one.
\<close>

fun grant_range ::
  "peer_id \<Rightarrow> int \<Rightarrow> nat \<Rightarrow> nat \<Rightarrow> pos_hint \<Rightarrow> ballot list \<Rightarrow> int \<Rightarrow> ballot list \<times> int" where
  "grant_range p pending i 0 hint q committed = (q, committed)"
| "grant_range p pending i (Suc n) hint q committed =
     (let (bl, hint') = grant p hint (q ! i)
      in grant_range p pending (Suc i) n hint' (q[i := bl])
           (if granted bl then pending + int i else committed))"

text \<open>The return code, the new box and the argument of \<^verbatim>\<open>on_committed\<close> if it is called.\<close>

definition bb_commit_at ::
  "int \<Rightarrow> int \<Rightarrow> peer_id \<Rightarrow> 'c ballot_box \<Rightarrow> int \<times> 'c ballot_box \<times> int option" where
  "bb_commit_at first_log_index last_log_index peer b =
     (if pending_index b = 0 then (EINVAL, b, None)
      else if last_log_index < pending_index b then (0, b, None)
      else if last_log_index \<ge> pending_index b + int (length (pending_meta_queue b))
           then (ERANGE, b, None)
      else
        let start_at = max (pending_index b) first_log_index;
            (q, committed) =
              grant_range peer (pending_index b) (nat (start_at - pending_index b))
                (nat (last_log_index - start_at + 1)) default_pos_hint (pending_meta_queue b) 0
        in if committed = 0 then (0, b\<lparr>pending_meta_queue := q\<rparr>, None)
           else
             (0,
              b\<lparr>pending_meta_queue := snd (pop_front_n (nat (committed - pending_index b + 1)) q),
                pending_index := committed + 1,
                last_committed_index := committed\<rparr>,
              Some committed))"

definition bb_clear_pending_tasks :: "'c ballot_box \<Rightarrow> 'c ballot_box \<times> ('c \<times> int) list" where
  "bb_clear_pending_tasks b =
     (let (q, failed) = cq_clear (bb_closures b)
      in (b\<lparr>pending_meta_queue := [], pending_index := 0, bb_closures := q\<rparr>, failed))"

definition bb_reset_pending_index :: "int \<Rightarrow> 'c ballot_box \<Rightarrow> int \<times> 'c ballot_box" where
  "bb_reset_pending_index new_pending_index b =
     (0, b\<lparr>pending_index := new_pending_index,
           bb_closures := cq_reset_first_index new_pending_index (bb_closures b)\<rparr>)"

definition bb_append_pending_task ::
  "configuration \<Rightarrow> configuration option \<Rightarrow> 'c option \<Rightarrow> 'c ballot_box \<Rightarrow> int \<times> 'c ballot_box" where
  "bb_append_pending_task conf old_conf closure b =
     (0, b\<lparr>pending_meta_queue := pending_meta_queue b @ [ballot_init conf old_conf],
           bb_closures := cq_append_pending_closure closure (bb_closures b)\<rparr>)"

definition bb_set_last_committed_index ::
  "int \<Rightarrow> 'c ballot_box \<Rightarrow> int \<times> 'c ballot_box \<times> int option" where
  "bb_set_last_committed_index committed b =
     (if pending_index b \<noteq> 0 \<or> pending_meta_queue b \<noteq> [] then (-1, b, None)
      else if committed < last_committed_index b then (EINVAL, b, None)
      else if committed > last_committed_index b
           then (0, b\<lparr>last_committed_index := committed\<rparr>, Some committed)
      else (0, b, None))"

record ballot_box_status =
  st_committed_index :: int
  st_pending_index :: int
  st_pending_queue_size :: int

definition bb_get_status :: "'c ballot_box \<Rightarrow> ballot_box_status" where
  "bb_get_status b =
     (let st = \<lparr>st_committed_index = last_committed_index b, st_pending_index = 0,
                st_pending_queue_size = 0\<rparr>
      in if pending_meta_queue b \<noteq> []
         then st\<lparr>st_pending_index := pending_index b,
                 st_pending_queue_size := int (length (pending_meta_queue b))\<rparr>
         else st)"

lemmas bb_defs [raft_defs] =
  cq_clear_def cq_reset_first_index_def cq_append_pending_closure_def
  bb_clear_pending_tasks_def bb_reset_pending_index_def bb_append_pending_task_def
  bb_set_last_committed_index_def

subsection \<open>The abstract tracker\<close>

text \<open>
  For every pending index its configuration, its old configuration and the peers that
  acknowledged it. An acknowledgement of a range adds the peer to the indexes of the range;
  then everything up to the greatest index of the range with a joint quorum is committed.
\<close>

type_synonym vote = "configuration \<times> configuration option \<times> peer_id set"

record tracker =
  tr_committed :: int
  tr_pending :: int
  tr_votes :: "vote list"

definition quorate :: "vote \<Rightarrow> bool" where
  "quorate v = (case v of (c, oc, V) \<Rightarrow> majority.joint_quorum c oc V)"

definition add_vote :: "peer_id \<Rightarrow> vote \<Rightarrow> vote" where
  "add_vote p v = (case v of (c, oc, V) \<Rightarrow> (c, oc, insert p V))"

definition vote_range :: "peer_id \<Rightarrow> nat \<Rightarrow> nat \<Rightarrow> vote list \<Rightarrow> vote list" where
  "vote_range p i n vs =
     map (\<lambda>k. if i \<le> k \<and> k < i + n then add_vote p (vs ! k) else vs ! k) [0..<length vs]"

definition tracker_ack :: "int \<Rightarrow> int \<Rightarrow> peer_id \<Rightarrow> tracker \<Rightarrow> tracker" where
  "tracker_ack lo hi p t =
     (let start = max (tr_pending t) lo;
          i = nat (start - tr_pending t);
          n = nat (hi - start + 1);
          vs = vote_range p i n (tr_votes t);
          decided = filter (\<lambda>k. quorate (vs ! k)) [i..<i + n]
      in if decided = [] then t\<lparr>tr_votes := vs\<rparr>
         else let k = last decided
              in \<lparr>tr_committed = tr_pending t + int k, tr_pending = tr_pending t + int k + 1,
                  tr_votes = drop (Suc k) vs\<rparr>)"

definition vote_ballot :: "vote \<Rightarrow> ballot \<Rightarrow> bool" where
  "vote_ballot v b = (case v of (c, oc, V) \<Rightarrow> ballot_inv c oc V b)"

definition tracks :: "tracker \<Rightarrow> 'c ballot_box \<Rightarrow> bool" where
  "tracks t b \<longleftrightarrow>
     tr_committed t = last_committed_index b \<and> tr_pending t = pending_index b
     \<and> list_all2 vote_ballot (tr_votes t) (pending_meta_queue b)"

subsection \<open>The loops\<close>

lemma pop_front_n_eq: "pop_front_n n q = (take n q, drop n q)"
  by (induction n q rule: pop_front_n.induct) auto

lemma vote_ballot_granted: "vote_ballot v b \<Longrightarrow> granted b \<longleftrightarrow> quorate v"
  by (auto simp: vote_ballot_def quorate_def ballot_inv_granted split: prod.splits)

lemma vote_ballot_grant: "vote_ballot v b \<Longrightarrow> vote_ballot (add_vote p v) (fst (grant p h b))"
  by (auto simp: vote_ballot_def add_vote_def ballot_inv_grant split: prod.splits)

lemma length_vote_range [simp]: "length (vote_range p i n vs) = length vs"
  by (simp add: vote_range_def)

lemma vote_range_0: "vote_range p i 0 vs = vs"
  by (rule nth_equalityI) (auto simp: vote_range_def)

lemma nth_vote_range:
  "k < length vs \<Longrightarrow>
   vote_range p i n vs ! k = (if i \<le> k \<and> k < i + n then add_vote p (vs ! k) else vs ! k)"
  by (simp add: vote_range_def)

lemma vote_range_Suc:
  "i < length vs \<Longrightarrow> vote_range p i (Suc n) vs = vote_range p (Suc i) n (vs[i := add_vote p (vs ! i)])"
  by (rule nth_equalityI) (auto simp: nth_vote_range nth_list_update)

lemma grant_range_tracks:
  assumes "list_all2 vote_ballot vs q" and "i + n \<le> length q"
    and "grant_range p pend i n h q lc = (q', lc')"
  shows "list_all2 vote_ballot (vote_range p i n vs) q'
     \<and> lc' = (let decided = filter (\<lambda>k. quorate (vote_range p i n vs ! k)) [i..<i + n]
              in if decided = [] then lc else pend + int (last decided))"
  using assms
proof (induction n arbitrary: i h q lc vs)
  case 0
  then show ?case by (simp add: vote_range_0)
next
  case (Suc n)
  obtain bl h' where g: "grant p h (q ! i) = (bl, h')" by fastforce
  from Suc.prems have i: "i < length q" "i < length vs" by (auto dest: list_all2_lengthD)
  let ?vs = "vs[i := add_vote p (vs ! i)]" and ?q = "q[i := bl]"
  have vb: "vote_ballot (add_vote p (vs ! i)) bl"
    using vote_ballot_grant [of "vs ! i" "q ! i" p h] Suc.prems(1) i g
    by (simp add: list_all2_conv_all_nth)
  have all: "list_all2 vote_ballot ?vs ?q"
    using Suc.prems(1) vb by (rule list_all2_update_cong)
  have "list_all2 vote_ballot (vote_range p (Suc i) n ?vs) q'
      \<and> lc' = (let decided = filter (\<lambda>k. quorate (vote_range p (Suc i) n ?vs ! k)) [Suc i..<Suc i + n]
               in if decided = [] then if granted bl then pend + int i else lc
                  else pend + int (last decided))"
    using Suc.prems g by (intro Suc.IH [OF all]) auto
  moreover have "[i..<i + Suc n] = i # [Suc i..<Suc i + n]"
    by (simp add: upt_conv_Cons)
  moreover have "quorate (vote_range p (Suc i) n ?vs ! i) \<longleftrightarrow> granted bl"
    using i vote_ballot_granted [OF vb] by (simp add: nth_vote_range)
  ultimately show ?case
    using vote_range_Suc [OF i(2), of p n] by (simp add: Let_def)
qed

lemma grant_range_committed:
  assumes "list_all2 vote_ballot vs q" and "i + n \<le> length q \<or> n = 0"
    and "grant_range p pend i n h q 0 = (q', lc)"
  shows "length q' = length q" and "lc = 0 \<or> (\<exists>k. i \<le> k \<and> k < i + n \<and> lc = pend + int k)"
proof -
  show "length q' = length q"
    using assms grant_range_tracks [OF assms(1) _ assms(3)]
    by (metis fst_conv grant_range.simps(1) length_vote_range list_all2_lengthD)
  show "lc = 0 \<or> (\<exists>k. i \<le> k \<and> k < i + n \<and> lc = pend + int k)"
  proof (cases "n = 0")
    case False
    let ?decided = "filter (\<lambda>k. quorate (vote_range p i n vs ! k)) [i..<i + n]"
    have "lc = (if ?decided = [] then 0 else pend + int (last ?decided))"
      using grant_range_tracks [OF assms(1) _ assms(3)] assms(2) False by (simp add: Let_def)
    moreover have "?decided \<noteq> [] \<Longrightarrow> last ?decided \<in> set ?decided" by (rule last_in_set)
    ultimately show ?thesis by auto
  qed (use assms(3) in simp)
qed

lemma tracks_commit_at:
  assumes "tracks t b" and "0 < pending_index b" and "pending_index b \<le> hi"
    and "hi < pending_index b + int (length (pending_meta_queue b))"
  shows "fst (bb_commit_at lo hi p b) = 0"
    and "tracks (tracker_ack lo hi p t) (fst (snd (bb_commit_at lo hi p b)))"
proof -
  let ?pend = "pending_index b" and ?q = "pending_meta_queue b"
  define start where "start = max ?pend lo"
  define i where "i = nat (start - ?pend)"
  define n where "n = nat (hi - start + 1)"
  obtain q' lc where g: "grant_range p ?pend i n default_pos_hint ?q 0 = (q', lc)" by fastforce
  have all: "list_all2 vote_ballot (tr_votes t) ?q" and pend: "tr_pending t = ?pend"
    using assms(1) by (auto simp: tracks_def)
  let ?vs = "vote_range p i n (tr_votes t)"
  let ?decided = "filter (\<lambda>k. quorate (?vs ! k)) [i..<i + n]"
  have inn: "i + n \<le> length ?q" if "n \<noteq> 0"
    using assms(3,4) that by (auto simp: i_def n_def start_def)
  have q': "list_all2 vote_ballot ?vs q'"
    and lc: "lc = (if ?decided = [] then 0 else ?pend + int (last ?decided))"
    using grant_range_tracks [OF all _ g] inn g all by (cases "n = 0"; simp add: vote_range_0 Let_def)+
  have rc: "bb_commit_at lo hi p b =
      (if lc = 0 then (0, b\<lparr>pending_meta_queue := q'\<rparr>, None)
       else (0, b\<lparr>pending_meta_queue := drop (nat (lc - ?pend + 1)) q', pending_index := lc + 1,
                  last_committed_index := lc\<rparr>, Some lc))"
    using assms(2-4) g
    by (simp add: bb_commit_at_def Let_def pop_front_n_eq i_def n_def start_def)
  then show "fst (bb_commit_at lo hi p b) = 0" by simp
  have ack: "tracker_ack lo hi p t =
      (if ?decided = [] then t\<lparr>tr_votes := ?vs\<rparr>
       else \<lparr>tr_committed = ?pend + int (last ?decided), tr_pending = ?pend + int (last ?decided) + 1,
             tr_votes = drop (Suc (last ?decided)) ?vs\<rparr>)"
    unfolding tracker_ack_def Let_def pend start_def [symmetric] i_def [symmetric] n_def [symmetric]
    by simp
  have "nat (?pend + int k - ?pend + 1) = Suc k" for k by simp
  with rc lc ack q' assms(1,2) show "tracks (tracker_ack lo hi p t) (fst (snd (bb_commit_at lo hi p b)))"
    by (auto simp: tracks_def list_all2_dropI)
qed

subsection \<open>Reachable boxes\<close>

text \<open>
  The callers of the box: a node that becomes leader resets the pending index above what is
  committed, a leader appends tasks, replicators and the log manager acknowledge ranges, a
  node that steps down clears, a follower learns the committed index, and the caller of the
  state machine takes closures up to a committed index.
\<close>

inductive bb_step :: "'c ballot_box \<Rightarrow> 'c ballot_box \<Rightarrow> bool" where
  become_leader: "pending_index b = 0 \<Longrightarrow> pending_meta_queue b = [] \<Longrightarrow> last_committed_index b < n \<Longrightarrow>
     bb_step b (snd (bb_reset_pending_index n b))"
| append: "0 < pending_index b \<Longrightarrow> bb_step b (snd (bb_append_pending_task conf old_conf c b))"
| ack: "bb_step b (fst (snd (bb_commit_at lo hi p b)))"
| step_down: "bb_step b (fst (bb_clear_pending_tasks b))"
| follow: "bb_step b (fst (snd (bb_set_last_committed_index n b)))"
| take_closures: "i \<le> last_committed_index b \<Longrightarrow>
     bb_step b (b\<lparr>bb_closures := snd (snd (snd (cq_pop_closure_until i (bb_closures b))))\<rparr>)"

inductive bb_reachable :: "'c ballot_box \<Rightarrow> bool" where
  start: "bb_reachable bb_new"
| step: "bb_reachable b \<Longrightarrow> bb_step b b' \<Longrightarrow> bb_reachable b'"

definition bb_wf :: "'c ballot_box \<Rightarrow> bool" where
  "bb_wf b \<longleftrightarrow>
     0 \<le> last_committed_index b
     \<and> (pending_index b = 0 \<longrightarrow> pending_meta_queue b = [] \<and> cq_queue (bb_closures b) = [])
     \<and> (pending_index b \<noteq> 0 \<longrightarrow>
          last_committed_index b < pending_index b
          \<and> cq_first_index (bb_closures b) \<le> pending_index b
          \<and> cq_first_index (bb_closures b) + int (length (cq_queue (bb_closures b)))
              = pending_index b + int (length (pending_meta_queue b)))
     \<and> (\<exists>vs. list_all2 vote_ballot vs (pending_meta_queue b))"

lemma bb_wf_new: "bb_wf bb_new"
  by (simp add: bb_wf_def bb_new_def cq_new_def)

lemma commit_at_cases:
  assumes "bb_wf b"
  obtains (same) "fst (snd (bb_commit_at lo hi p b)) = b"
  | (votes) q vs where "fst (snd (bb_commit_at lo hi p b)) = b\<lparr>pending_meta_queue := q\<rparr>"
      "length q = length (pending_meta_queue b)" "pending_index b \<noteq> 0" "list_all2 vote_ballot vs q"
  | (commit) q vs k where
      "fst (snd (bb_commit_at lo hi p b)) =
         b\<lparr>pending_meta_queue := drop (Suc k) q, pending_index := pending_index b + int k + 1,
           last_committed_index := pending_index b + int k\<rparr>"
      "length q = length (pending_meta_queue b)" "k < length q" "pending_index b \<noteq> 0"
      "list_all2 vote_ballot vs q"
proof (cases "pending_index b = 0 \<or> hi < pending_index b
    \<or> hi \<ge> pending_index b + int (length (pending_meta_queue b))")
  case True
  then show thesis by (intro same) (auto simp: bb_commit_at_def)
next
  case False
  let ?pend = "pending_index b" and ?q = "pending_meta_queue b"
  from assms False have pos: "0 < ?pend" by (auto simp: bb_wf_def)
  obtain vs where vs: "list_all2 vote_ballot vs ?q" using assms by (auto simp: bb_wf_def)
  define i where "i = nat (max ?pend lo - ?pend)"
  define n where "n = nat (hi - max ?pend lo + 1)"
  obtain q' lc where g: "grant_range p ?pend i n default_pos_hint ?q 0 = (q', lc)" by fastforce
  have inn: "i + n \<le> length ?q \<or> n = 0" using False by (auto simp: i_def n_def)
  have eq: "fst (snd (bb_commit_at lo hi p b)) =
      (if lc = 0 then b\<lparr>pending_meta_queue := q'\<rparr>
       else b\<lparr>pending_meta_queue := drop (nat (lc - ?pend + 1)) q', pending_index := lc + 1,
              last_committed_index := lc\<rparr>)"
    using False g by (simp add: bb_commit_at_def Let_def pop_front_n_eq i_def n_def)
  obtain vs' where vs': "list_all2 vote_ballot vs' q'"
    using grant_range_tracks [OF vs _ g] inn vs g by (cases "n = 0") auto
  note len = grant_range_committed(1) [OF vs inn g]
  show thesis
  proof (cases "lc = 0")
    case True
    with eq len vs' pos show thesis by (intro votes) auto
  next
    case False
    with grant_range_committed(2) [OF vs inn g] obtain k where
      k: "k < i + n" "lc = ?pend + int k" by auto
    then have "k < length q'" using inn len k False g by (cases "n = 0") auto
    with eq len vs' pos k False show thesis by (intro commit) auto
  qed
qed

lemma bb_step_wf: "bb_step b b' \<Longrightarrow> bb_wf b \<Longrightarrow> bb_wf b'"
proof (induction rule: bb_step.induct)
  case (become_leader b n)
  then show ?case by (auto simp: bb_wf_def raft_defs)
next
  case (append b conf old_conf c)
  then obtain vs where "list_all2 vote_ballot vs (pending_meta_queue b)" by (auto simp: bb_wf_def)
  then have "list_all2 vote_ballot (vs @ [(conf, old_conf, {})])
      (pending_meta_queue b @ [ballot_init conf old_conf])"
    by (simp add: list_all2_appendI vote_ballot_def ballot_inv_init)
  with append show ?case by (auto simp: bb_wf_def raft_defs)
next
  case (ack b lo hi p)
  from ack show ?case
  proof (cases rule: commit_at_cases [where lo = lo and hi = hi and p = p, consumes 1])
    case (commit q vs k)
    then have "\<exists>vs. list_all2 vote_ballot vs (drop (Suc k) q)" by (blast intro: list_all2_dropI)
    with commit ack show ?thesis by (auto simp: bb_wf_def of_nat_diff)
  qed (use ack in \<open>auto simp: bb_wf_def\<close>)
next
  case (step_down b)
  then show ?case by (simp add: bb_wf_def raft_defs)
next
  case (follow b n)
  then show ?case by (auto simp: bb_wf_def raft_defs)
next
  case (take_closures i b)
  then show ?case
    by (auto simp: bb_wf_def cq_pop_closure_until_def pop_front_n_eq Let_def of_nat_diff)
qed

lemma bb_reachable_wf: "bb_reachable b \<Longrightarrow> bb_wf b"
  by (induction rule: bb_reachable.induct) (auto intro: bb_wf_new bb_step_wf)

lemma bb_step_committed_mono:
  "bb_step b b' \<Longrightarrow> bb_wf b \<Longrightarrow> last_committed_index b \<le> last_committed_index b'"
proof (induction rule: bb_step.induct)
  case (ack b lo hi p)
  then show ?case
    by (cases rule: commit_at_cases [where lo = lo and hi = hi and p = p, consumes 1])
       (use ack in \<open>auto simp: bb_wf_def\<close>)
qed (auto simp: raft_defs Let_def)

lemma bb_closures_append:
  "bb_closures (foldl (\<lambda>b (conf, oc, c). snd (bb_append_pending_task conf oc c b)) b ts) =
     (bb_closures b)\<lparr>cq_queue := cq_queue (bb_closures b) @ map (snd \<circ> snd) ts\<rparr>"
  by (induction ts arbitrary: b) (auto simp: raft_defs split: prod.splits)

subsection \<open>Properties\<close>

text \<open>
  C5: The ballot box refines the abstract tracker. An acknowledgement of a pending range
  succeeds, records exactly the peer's vote for the indexes of the range, and commits up to
  the greatest index of the range whose voters are a joint quorum (and nothing when there is
  none); the committed prefix leaves the queue.
\<close>

theorem commit_at_refines_tracker:
  assumes "tracks t b" and "0 < pending_index b" and "pending_index b \<le> hi"
    and "hi < pending_index b + int (length (pending_meta_queue b))"
  shows "fst (bb_commit_at lo hi p b) = 0
     \<and> tracks (tracker_ack lo hi p t) (fst (snd (bb_commit_at lo hi p b)))"
  using tracks_commit_at [OF assms] by simp

definition ex_conf :: configuration where
  "ex_conf = {|PeerId 1 0 0, PeerId 2 0 0, PeerId 3 0 0|}"

theorem commit_at_refines_tracker_witness:
  "let t = \<lparr>tr_committed = 4, tr_pending = 5, tr_votes = [(ex_conf, None, {})]\<rparr>;
       b = \<lparr>last_committed_index = 4, pending_index = 5,
            pending_meta_queue = [ballot_init ex_conf None],
            bb_closures = (cq_new :: nat closure_queue)\<rparr>
   in tracks (tracker_ack 5 5 (PeerId 1 0 0) t) (fst (snd (bb_commit_at 5 5 (PeerId 1 0 0) b)))"
proof -
  let ?t = "\<lparr>tr_committed = 4, tr_pending = 5, tr_votes = [(ex_conf, None, {})]\<rparr>"
  let ?b = "\<lparr>last_committed_index = 4, pending_index = 5,
      pending_meta_queue = [ballot_init ex_conf None],
      bb_closures = (cq_new :: nat closure_queue)\<rparr>"
  have "tracks ?t ?b" by (simp add: tracks_def vote_ballot_def ballot_inv_init)
  from commit_at_refines_tracker [OF this, of 5 5 "PeerId 1 0 0"] show ?thesis by (simp add: Let_def)
qed

text \<open>
  C6: In every reachable state the closures line up with the pending ballots: taking the
  closures up to any committed index succeeds, and the reported first index is the index of
  the first closure taken, or one past the requested index when none was waiting.
\<close>

theorem reachable_closures_available:
  assumes "bb_reachable b" and "i \<le> last_committed_index b"
  shows "\<exists>out f q. cq_pop_closure_until i (bb_closures b) = (0, out, Some f, q)
     \<and> f + int (length out) = i + 1 \<and> out = take (length out) (cq_queue (bb_closures b))"
  using bb_reachable_wf [OF assms(1)] assms(2)
  by (auto simp: bb_wf_def cq_pop_closure_until_def pop_front_n_eq Let_def of_nat_diff)

lemma ex_bb_reachable:
  "bb_reachable (fst (snd (bb_commit_at 1 1 (PeerId 1 0 0)
     (snd (bb_append_pending_task {|PeerId 1 0 0|} None (Some ''done'')
        (snd (bb_reset_pending_index 1 bb_new)))))))"
proof -
  have "bb_reachable (snd (bb_reset_pending_index 1 bb_new :: int \<times> string ballot_box))"
    by (rule bb_reachable.step [OF bb_reachable.start]) (rule bb_step.become_leader, simp_all add: bb_new_def)
  then have "bb_reachable (snd (bb_append_pending_task {|PeerId 1 0 0|} None (Some ''done'')
        (snd (bb_reset_pending_index 1 bb_new))))"
    by (rule bb_reachable.step) (rule bb_step.append, simp add: raft_defs)
  then show ?thesis by (rule bb_reachable.step) (rule bb_step.ack)
qed

theorem reachable_closures_available_witness:
  "\<exists>b :: string ballot_box. bb_reachable b \<and> last_committed_index b = 1
     \<and> fst (cq_pop_closure_until 1 (bb_closures b)) = 0"
proof -
  let ?b = "fst (snd (bb_commit_at 1 1 (PeerId 1 0 0)
     (snd (bb_append_pending_task {|PeerId 1 0 0|} None (Some ''done'')
        (snd (bb_reset_pending_index 1 bb_new))))))"
  have "last_committed_index ?b = 1"
    by (simp add: bb_commit_at_def raft_defs bb_new_def cq_new_def ballot_init_def unfound_def
        conf_list_peers_def sorted_list_of_fset.rep_eq grant_def grant_side_def find_peer_def
        granted_def default_pos_hint_def numeral_eq_Suc)
  with reachable_closures_available [OF ex_bb_reachable, of 1] ex_bb_reachable show ?thesis by fastforce
qed

text \<open>
  C7: The committed index never goes back, whatever the callers do: leading, stepping down,
  following, acknowledging and taking closures.
\<close>

theorem committed_index_monotone:
  "bb_reachable b \<Longrightarrow> bb_step b b' \<Longrightarrow> last_committed_index b \<le> last_committed_index b'"
  by (rule bb_step_committed_mono [OF _ bb_reachable_wf])

theorem committed_index_monotone_witness:
  "\<exists>b b' :: string ballot_box. bb_reachable b \<and> bb_step b b'
     \<and> last_committed_index b = 0 \<and> last_committed_index b' = 7
     \<and> last_committed_index b \<le> last_committed_index b'"
proof -
  let ?b' = "fst (snd (bb_set_last_committed_index 7 (bb_new :: string ballot_box)))"
  have "bb_step bb_new ?b'" by (rule bb_step.follow)
  moreover have "last_committed_index ?b' = 7" by (simp add: raft_defs bb_new_def)
  moreover have "last_committed_index (bb_new :: string ballot_box) = 0" by (simp add: bb_new_def)
  moreover note committed_index_monotone [OF bb_reachable.start \<open>bb_step bb_new ?b'\<close>]
  ultimately show ?thesis using bb_reachable.start by blast
qed

text \<open>
  C8: A new leader's tasks get their closures in log order: after the pending index is
  reset to \<open>n\<close> and the tasks are appended, taking the closures up to the \<open>k\<close>-th task
  returns the first \<open>k + 1\<close> closures, starts at index \<open>n\<close>, and leaves the rest queued at
  the next index.
\<close>

theorem leader_closures_in_order:
  assumes "bb_wf b" and "pending_index b = 0" and "k < length ts"
  shows "cq_pop_closure_until (n + int k)
      (bb_closures (foldl (\<lambda>b (conf, oc, c). snd (bb_append_pending_task conf oc c b))
         (snd (bb_reset_pending_index n b)) ts)) =
    (0, map (snd \<circ> snd) (take (Suc k) ts), Some n,
     \<lparr>cq_first_index = n + int k + 1, cq_queue = map (snd \<circ> snd) (drop (Suc k) ts)\<rparr>)"
proof -
  have "cq_queue (bb_closures b) = []" using assms(1,2) by (simp add: bb_wf_def)
  with assms(3) show ?thesis
    unfolding bb_closures_append
    by (auto simp: bb_reset_pending_index_def cq_reset_first_index_def cq_pop_closure_until_def
        pop_front_n_eq take_map drop_map)
qed

theorem leader_closures_in_order_witness:
  "cq_pop_closure_until 8
     (bb_closures (foldl (\<lambda>b (conf, oc, c). snd (bb_append_pending_task conf oc c b))
        (snd (bb_reset_pending_index 7 bb_new))
        [(ex_conf, None, Some ''a''), (ex_conf, None, None), (ex_conf, None, Some ''c'')])) =
   (0, [Some ''a'', None], Some 7, \<lparr>cq_first_index = 9, cq_queue = [Some ''c'']\<rparr>)"
  using leader_closures_in_order [OF bb_wf_new, where n = 7 and k = 1
      and ts = "[(ex_conf, None, Some ''a''), (ex_conf, None, None), (ex_conf, None, Some ''c'')]"]
  by (simp add: bb_new_def)

end
