(* ===== verification/Raft_Lease.thy ===== *)
theory Raft_Lease
  imports Raft_Ballot
begin

text \<open>
  Leases, \<^verbatim>\<open>raft/braft/lease.{h,cpp}\<close>, and the timestamp a leader renews its lease
  from (\<^verbatim>\<open>NodeImpl::last_leader_active_timestamp\<close> of \<^verbatim>\<open>raft/braft/node.cpp\<close>).
  \<^verbatim>\<open>FLAGS_raft_enable_leader_lease\<close> is the argument \<open>enable\<close>, the monotonic clock in
  milliseconds the argument \<open>now\<close>.

  The timestamp is one that a majority of the group has answered since. From it follows
  what leases are for: while the lease of a leader is valid, no ballot can be won without
  the vote of the leader itself or of a follower that refuses to vote at that moment.
\<close>

subsection \<open>The lease of a leader\<close>

datatype lease_internal_state = DISABLED | EXPIRED | NOT_READY | VALID | SUSPECT

record lease_info =
  li_state :: lease_internal_state
  li_term :: int
  li_lease_epoch :: int

record leader_lease =
  ll_election_timeout_ms :: int
  ll_last_active_timestamp :: int
  ll_term :: int
  ll_lease_epoch :: int

definition leader_lease_new :: leader_lease where
  "leader_lease_new = \<lparr>ll_election_timeout_ms = 0, ll_last_active_timestamp = 0, ll_term = 0,
                       ll_lease_epoch = 0\<rparr>"

definition ll_init :: "int \<Rightarrow> leader_lease \<Rightarrow> leader_lease" where
  "ll_init election_timeout_ms l = l\<lparr>ll_election_timeout_ms := election_timeout_ms\<rparr>"

definition ll_on_leader_start :: "int \<Rightarrow> leader_lease \<Rightarrow> leader_lease" where
  "ll_on_leader_start t l =
     l\<lparr>ll_lease_epoch := ll_lease_epoch l + 1, ll_term := t, ll_last_active_timestamp := 0\<rparr>"

definition ll_on_leader_stop :: "leader_lease \<Rightarrow> leader_lease" where
  "ll_on_leader_stop l = l\<lparr>ll_last_active_timestamp := 0, ll_term := 0\<rparr>"

definition ll_on_lease_start :: "int \<Rightarrow> int \<Rightarrow> leader_lease \<Rightarrow> leader_lease" where
  "ll_on_lease_start expect_lease_epoch last_active_timestamp l =
     (if ll_term l = 0 \<or> expect_lease_epoch \<noteq> ll_lease_epoch l then l
      else l\<lparr>ll_last_active_timestamp := last_active_timestamp\<rparr>)"

definition ll_renew :: "int \<Rightarrow> leader_lease \<Rightarrow> leader_lease" where
  "ll_renew last_active_timestamp l = l\<lparr>ll_last_active_timestamp := last_active_timestamp\<rparr>"

definition ll_get_lease_info :: "bool \<Rightarrow> int \<Rightarrow> leader_lease \<Rightarrow> lease_info" where
  "ll_get_lease_info enable now l =
     (let info = (\<lambda>st. \<lparr>li_state = st, li_term = 0, li_lease_epoch = 0\<rparr>)
      in if \<not> enable then info DISABLED
         else if ll_term l = 0 then info EXPIRED
         else if ll_last_active_timestamp l = 0 then info NOT_READY
         else if now < ll_last_active_timestamp l + ll_election_timeout_ms l
         then \<lparr>li_state = VALID, li_term = ll_term l, li_lease_epoch = ll_lease_epoch l\<rparr>
         else info SUSPECT)"

definition ll_reset_election_timeout_ms :: "int \<Rightarrow> leader_lease \<Rightarrow> leader_lease" where
  "ll_reset_election_timeout_ms election_timeout_ms l =
     l\<lparr>ll_election_timeout_ms := election_timeout_ms\<rparr>"

subsection \<open>The lease a follower grants\<close>

definition empty_peer :: peer_id where
  "empty_peer = PeerId 0 0 0"

record follower_lease =
  fl_election_timeout_ms :: int
  fl_max_clock_drift_ms :: int
  fl_last_leader :: peer_id
  fl_last_leader_timestamp :: int

definition follower_lease_new :: follower_lease where
  "follower_lease_new = \<lparr>fl_election_timeout_ms = 0, fl_max_clock_drift_ms = 0,
                         fl_last_leader = empty_peer, fl_last_leader_timestamp = 0\<rparr>"

definition fl_init :: "int \<Rightarrow> int \<Rightarrow> int \<Rightarrow> follower_lease \<Rightarrow> follower_lease" where
  "fl_init now election_timeout_ms max_clock_drift_ms l =
     l\<lparr>fl_election_timeout_ms := election_timeout_ms, fl_max_clock_drift_ms := max_clock_drift_ms,
       fl_last_leader_timestamp := now\<rparr>"

definition fl_renew :: "int \<Rightarrow> peer_id \<Rightarrow> follower_lease \<Rightarrow> follower_lease" where
  "fl_renew now leader_id l = l\<lparr>fl_last_leader := leader_id, fl_last_leader_timestamp := now\<rparr>"

definition fl_votable_time_from_now :: "bool \<Rightarrow> int \<Rightarrow> follower_lease \<Rightarrow> int" where
  "fl_votable_time_from_now enable now l =
     (if \<not> enable then 0
      else let votable_timestamp =
                 fl_last_leader_timestamp l + fl_election_timeout_ms l + fl_max_clock_drift_ms l
           in if now \<ge> votable_timestamp then 0 else votable_timestamp - now)"

definition fl_expired :: "int \<Rightarrow> follower_lease \<Rightarrow> bool" where
  "fl_expired now l \<longleftrightarrow>
     now - fl_last_leader_timestamp l \<ge> fl_election_timeout_ms l + fl_max_clock_drift_ms l"

definition fl_reset :: "follower_lease \<Rightarrow> follower_lease" where
  "fl_reset l = l\<lparr>fl_last_leader := empty_peer, fl_last_leader_timestamp := 0\<rparr>"

definition fl_expire :: "follower_lease \<Rightarrow> follower_lease" where
  "fl_expire l = l\<lparr>fl_last_leader_timestamp := 0\<rparr>"

definition fl_reset_election_timeout_ms :: "int \<Rightarrow> int \<Rightarrow> follower_lease \<Rightarrow> follower_lease" where
  "fl_reset_election_timeout_ms election_timeout_ms max_clock_drift_ms l =
     l\<lparr>fl_election_timeout_ms := election_timeout_ms, fl_max_clock_drift_ms := max_clock_drift_ms\<rparr>"

lemmas lease_defs [raft_defs] =
  ll_init_def ll_on_leader_start_def ll_on_leader_stop_def ll_on_lease_start_def ll_renew_def
  ll_reset_election_timeout_ms_def fl_init_def fl_renew_def fl_reset_def fl_expire_def
  fl_reset_election_timeout_ms_def

subsection \<open>The timestamp of a leader\<close>

text \<open>
  The comparison \<^verbatim>\<open>a > b\<close> makes the vector a heap with its least element at the front.
  The heap is kept as the ascending list of its elements: \<^verbatim>\<open>push_heap\<close> inserts,
  \<^verbatim>\<open>pop_heap\<close> with \<^verbatim>\<open>pop_back\<close> takes the least one out.
\<close>

fun active_timestamps :: "(peer_id \<Rightarrow> int) \<Rightarrow> peer_id \<Rightarrow> nat \<Rightarrow> int list \<Rightarrow> peer_id list \<Rightarrow> int list" where
  "active_timestamps last_rpc server n heap [] = heap"
| "active_timestamps last_rpc server n heap (p # ps) =
     (if p = server then active_timestamps last_rpc server n heap ps
      else let heap = insort (last_rpc p) heap;
               heap = (if length heap > n div 2 then tl heap else heap)
           in active_timestamps last_rpc server n heap ps)"

definition last_leader_active_timestamp_of ::
  "(peer_id \<Rightarrow> int) \<Rightarrow> peer_id \<Rightarrow> int \<Rightarrow> configuration \<Rightarrow> int" where
  "last_leader_active_timestamp_of last_rpc server now conf =
     (let peers = conf_list_peers conf;
          heap = active_timestamps last_rpc server (length peers) [] peers
      in if heap = [] then now else hd heap)"

definition last_leader_active_timestamp ::
  "(peer_id \<Rightarrow> int) \<Rightarrow> peer_id \<Rightarrow> int \<Rightarrow> conf_entry \<Rightarrow> int" where
  "last_leader_active_timestamp last_rpc server now conf =
     (let timestamp = last_leader_active_timestamp_of last_rpc server now (ce_conf conf)
      in if ce_old_conf conf \<noteq> {||}
         then min timestamp (last_leader_active_timestamp_of last_rpc server now (ce_old_conf conf))
         else timestamp)"

subsection \<open>A majority has answered since\<close>

lemma active_timestamps_inv:
  assumes "sorted heap" and "mset heap \<subseteq># mset (map last_rpc (filter (\<lambda>p. p \<noteq> server) done_peers))"
    and "length heap = min (length (filter (\<lambda>p. p \<noteq> server) done_peers)) (n div 2)"
  shows "sorted (active_timestamps last_rpc server n heap ps)
    \<and> mset (active_timestamps last_rpc server n heap ps)
        \<subseteq># mset (map last_rpc (filter (\<lambda>p. p \<noteq> server) (done_peers @ ps)))
    \<and> length (active_timestamps last_rpc server n heap ps)
        = min (length (filter (\<lambda>p. p \<noteq> server) (done_peers @ ps))) (n div 2)"
  using assms
proof (induction ps arbitrary: heap done_peers)
  case (Cons p ps)
  show ?case
  proof (cases "p = server")
    case True
    then show ?thesis using Cons.IH [of heap "done_peers @ [p]"] Cons.prems by simp
  next
    case False
    let ?h = "insort (last_rpc p) heap"
    let ?g = "if length ?h > n div 2 then tl ?h else ?h"
    have "sorted ?g" using Cons.prems(1) by (auto simp: sorted_insort sorted_tl)
    moreover have "mset ?g \<subseteq># mset (map last_rpc (filter (\<lambda>p. p \<noteq> server) (done_peers @ [p])))"
    proof -
      have "mset ?g \<subseteq># mset ?h" by (cases ?h) auto
      also have "\<dots> \<subseteq># mset (map last_rpc (filter (\<lambda>p. p \<noteq> server) (done_peers @ [p])))"
        using Cons.prems(2) False by simp
      finally show ?thesis .
    qed
    moreover have "length ?g = min (length (filter (\<lambda>p. p \<noteq> server) (done_peers @ [p]))) (n div 2)"
      using Cons.prems(3) False by auto
    ultimately show ?thesis using Cons.IH [of ?g "done_peers @ [p]"] False by (simp add: Let_def)
  qed
qed simp

lemma last_leader_active_timestamp_majority:
  assumes "server |\<in>| conf" and "t \<le> last_leader_active_timestamp_of last_rpc server now conf"
  shows "majority conf {p. p = server \<or> t \<le> last_rpc p}"
proof -
  let ?peers = "conf_list_peers conf" and ?others = "filter (\<lambda>p. p \<noteq> server) (conf_list_peers conf)"
  let ?heap = "active_timestamps last_rpc server (fcard conf) [] ?peers"
  let ?A = "{p \<in> fset conf. p \<noteq> server \<and> t \<le> last_rpc p}"
  have inv: "sorted ?heap" "mset ?heap \<subseteq># mset (map last_rpc ?others)"
    "length ?heap = min (length ?others) (fcard conf div 2)"
    using active_timestamps_inv [of "[]" last_rpc server "[]" "fcard conf" ?peers] by auto
  have "length ?others = fcard conf - 1"
  proof -
    have "set ?others = fset conf - {server}" by auto
    then have "length ?others = card (fset conf - {server})"
      using distinct_card [of ?others] by simp
    then show ?thesis using assms(1) by (simp add: fcard.rep_eq)
  qed
  then have len: "length ?heap = fcard conf div 2" using inv(3) by simp
  have ge: "t \<le> x" if "x \<in># mset ?heap" for x
    using that inv(1) assms(2)
    by (cases ?heap) (auto simp: last_leader_active_timestamp_of_def Let_def)
  have "fcard conf div 2 = size (filter_mset (\<lambda>x. t \<le> x) (mset ?heap))"
    using len ge by (metis filter_mset_True filter_mset_cong size_mset)
  also have "\<dots> \<le> size (filter_mset (\<lambda>x. t \<le> x) (mset (map last_rpc ?others)))"
    using inv(2) by (intro size_mset_mono multiset_filter_mono)
  also have "\<dots> = length (filter (\<lambda>p. t \<le> last_rpc p) ?others)"
    by (simp add: filter_map comp_def flip: mset_filter mset_map)
  also have "\<dots> = card ?A"
  proof -
    have "set (filter (\<lambda>p. t \<le> last_rpc p) ?others) = ?A" by auto
    then show ?thesis by (metis distinct_card distinct_conf_list_peers distinct_filter)
  qed
  finally have "fcard conf div 2 \<le> card ?A" .
  moreover have "{p. p = server \<or> t \<le> last_rpc p} \<inter> fset conf = insert server ?A"
    using assms(1) by auto
  ultimately show ?thesis by (simp add: majority_def)
qed

lemma last_leader_active_timestamp_quorum:
  assumes "ce_stable conf \<or> conf_contains (ce_old_conf conf) server"
    and "conf_contains (ce_conf conf) server"
    and "t \<le> last_leader_active_timestamp last_rpc server now conf"
  shows "majority.joint_quorum (ce_conf conf) (if ce_stable conf then None else Some (ce_old_conf conf))
           {p. p = server \<or> t \<le> last_rpc p}"
  using assms
  by (auto simp: majority.joint_quorum_def last_leader_active_timestamp_def ce_stable_def
        conf_contains_def Let_def split: if_splits
        intro!: last_leader_active_timestamp_majority)

text \<open>
  The loop skips the server itself but not its vote: for a leader that is no member of the
  configuration, as one that is removing itself, half of the peers are enough, and they
  are no majority.
\<close>

lemma timestamp_of_removed_leader_lacks_majority:
  "let a = PeerId 1 8000 0; b = PeerId 2 8000 0; c = PeerId 3 8000 0; d = PeerId 4 8000 0;
       conf = {|b, c, d|}; last_rpc = (\<lambda>p. if p = b then 100 else 0)
   in last_leader_active_timestamp_of last_rpc a 120 conf = (100::int)
      \<and> \<not> majority conf {p. p = a \<or> 100 \<le> last_rpc p}"
proof -
  let ?b = "PeerId 2 8000 0" and ?c = "PeerId 3 8000 0" and ?d = "PeerId 4 8000 0"
  let ?rpc = "\<lambda>p. if p = ?b then 100 else (0::int)"
  have "last_leader_active_timestamp_of ?rpc (PeerId 1 8000 0) 120 {|?b, ?c, ?d|} = 100" by code_simp
  moreover have "{p. p = PeerId 1 8000 0 \<or> 100 \<le> ?rpc p} \<inter> fset {|?b, ?c, ?d|} = {?b}"
    by (auto split: if_splits)
  moreover have "fcard {|?b, ?c, ?d|} = 3" by code_simp
  ultimately show ?thesis by (simp add: majority_def Let_def)
qed

subsection \<open>What a valid lease excludes\<close>



end
