(* ===== verification/Raft_Node_Types.thy ===== *)
theory Raft_Node_Types
  imports Raft_Log_Manager Raft_Ballot_Box Raft_Lease
begin

text \<open>
  The vocabulary of \<^verbatim>\<open>raft/braft/node.{h,cpp}\<close>: the states of a node
  (\<^verbatim>\<open>raft/braft/raft.h\<close>), the messages (\<^verbatim>\<open>raft/braft/raft.proto\<close>), the
  error codes (\<^verbatim>\<open>raft/braft/errno.proto\<close>) and what a node reads from its
  surroundings.
\<close>

subsection \<open>Error codes\<close>

abbreviation (input) EBUSY :: int where "EBUSY \<equiv> 16"
abbreviation (input) ETIMEDOUT :: int where "ETIMEDOUT \<equiv> 110"
abbreviation (input) ESHUTDOWN :: int where "ESHUTDOWN \<equiv> 108"
abbreviation (input) ERAFTTIMEDOUT :: int where "ERAFTTIMEDOUT \<equiv> 10001"
abbreviation (input) ECATCHUP :: int where "ECATCHUP \<equiv> 10003"
abbreviation (input) ELEADERREMOVED :: int where "ELEADERREMOVED \<equiv> 10004"
abbreviation (input) ESETPEER :: int where "ESETPEER \<equiv> 10005"
abbreviation (input) EHIGHERTERMREQUEST :: int where "EHIGHERTERMREQUEST \<equiv> 10007"
abbreviation (input) EHIGHERTERMRESPONSE :: int where "EHIGHERTERMRESPONSE \<equiv> 10008"
abbreviation (input) EBADNODE :: int where "EBADNODE \<equiv> 10009"
abbreviation (input) EVOTEFORCANDIDATE :: int where "EVOTEFORCANDIDATE \<equiv> 10010"
abbreviation (input) ENEWLEADER :: int where "ENEWLEADER \<equiv> 10011"
abbreviation (input) ELEADERCONFLICT :: int where "ELEADERCONFLICT \<equiv> 10012"
abbreviation (input) ETRANSFERLEADERSHIP :: int where "ETRANSFERLEADERSHIP \<equiv> 10013"
abbreviation (input) EREADONLY :: int where "EREADONLY \<equiv> 10016"
abbreviation (input) EREQUEST :: int where "EREQUEST \<equiv> 1003"

subsection \<open>States\<close>

datatype state =
  STATE_LEADER | STATE_TRANSFERRING | STATE_CANDIDATE | STATE_FOLLOWER
| STATE_ERROR | STATE_UNINITIALIZED | STATE_SHUTTING | STATE_SHUTDOWN | STATE_END

fun state_number :: "state \<Rightarrow> nat" where
  "state_number STATE_LEADER = 1"
| "state_number STATE_TRANSFERRING = 2"
| "state_number STATE_CANDIDATE = 3"
| "state_number STATE_FOLLOWER = 4"
| "state_number STATE_ERROR = 5"
| "state_number STATE_UNINITIALIZED = 6"
| "state_number STATE_SHUTTING = 7"
| "state_number STATE_SHUTDOWN = 8"
| "state_number STATE_END = 9"

instantiation state :: linorder
begin

definition less_state :: "state \<Rightarrow> state \<Rightarrow> bool" where
  "less_state a b \<longleftrightarrow> state_number a < state_number b"

definition less_eq_state :: "state \<Rightarrow> state \<Rightarrow> bool" where
  "less_eq_state a b \<longleftrightarrow> state_number a \<le> state_number b"

lemma state_number_inj: "state_number a = state_number b \<Longrightarrow> a = b"
  by (cases a; cases b) simp_all

instance
  by standard (auto simp: less_state_def less_eq_state_def intro: state_number_inj)

end

definition is_active_state :: "state \<Rightarrow> bool" where
  "is_active_state s \<longleftrightarrow> s < STATE_ERROR"

lemma is_active_state_iff:
  "is_active_state s \<longleftrightarrow> s \<in> {STATE_LEADER, STATE_TRANSFERRING, STATE_CANDIDATE, STATE_FOLLOWER}"
  by (cases s) (simp_all add: is_active_state_def less_state_def)

lemma state_le_simps [simp]:
  "s \<le> STATE_TRANSFERRING \<longleftrightarrow> s = STATE_LEADER \<or> s = STATE_TRANSFERRING"
  "s \<le> STATE_FOLLOWER \<longleftrightarrow> is_active_state s"
  "s > STATE_TRANSFERRING \<longleftrightarrow> s \<noteq> STATE_LEADER \<and> s \<noteq> STATE_TRANSFERRING"
  by (cases s; simp add: is_active_state_iff less_state_def less_eq_state_def)+

subsection \<open>Messages\<close>

text \<open>
  A \<^verbatim>\<open>server_id\<close> travels as the text of a \<^verbatim>\<open>PeerId\<close>; \<open>None\<close> is a text that does not
  parse. The group and the receiver, which route a request, are left out.
\<close>

record vote_request =
  rv_server_id :: "peer_id option"
  rv_term :: int
  rv_last_log_term :: int
  rv_last_log_index :: int
  rv_disrupted_leader :: "(peer_id option \<times> int) option"

record vote_response =
  vr_term :: int
  vr_granted :: bool
  vr_disrupted :: bool
  vr_previous_term :: int
  vr_rejected_by_lease :: bool

record entry_meta =
  em_term :: int
  em_type :: entry_type
  em_peers :: "peer_id list"
  em_data_len :: "nat option"
  em_old_peers :: "peer_id list"

record append_request =
  ae_server_id :: "peer_id option"
  ae_term :: int
  ae_prev_log_term :: int
  ae_prev_log_index :: int
  ae_entries :: "entry_meta list"
  ae_committed_index :: int
  ae_attachment :: string

record append_response =
  ar_term :: int
  ar_success :: "bool option"
  ar_last_log_index :: "int option"
  ar_readonly :: "bool option"

text \<open>
  \<^verbatim>\<open>struct AppendEntriesRpc\<close>. The call itself (controller, response, closure) is known by
  a number of its own.
\<close>

record append_rpc =
  rpc_id :: nat
  rpc_request :: append_request
  receive_time_ms :: int

abbreviation rpc_prev_index :: "append_rpc \<Rightarrow> int" where
  "rpc_prev_index r \<equiv> ae_prev_log_index (rpc_request r)"

abbreviation rpc_last_index :: "append_rpc \<Rightarrow> int" where
  "rpc_last_index r \<equiv> rpc_prev_index r + int (length (ae_entries (rpc_request r)))"

subsection \<open>What a node reads from its surroundings\<close>

text \<open>
  The clocks, the flags, the outcome of calls to the timer thread, to bthread and to the
  storage of term and vote, and what the replicators report. All of them are arbitrary.
\<close>

record env =
  now_ms :: int
  time_of_day_ms :: int
  enable_leader_lease :: bool
  enable_append_entries_cache :: bool
  max_append_entries_cache_size :: nat
  step_down_when_vote_timedout :: bool
  election_heartbeat_factor :: int
  timer_add_ok :: bool
  timer_del_ok :: bool
  bthread_start_ok :: bool
  channel_init_ok :: "peer_id \<Rightarrow> bool"
  meta_store_ok :: "int \<Rightarrow> peer_id \<Rightarrow> bool"
  last_rpc_send_timestamp :: "peer_id \<Rightarrow> int"
  replicator_readonly :: "peer_id \<Rightarrow> bool"
  add_replicator_rc :: "peer_id \<Rightarrow> int"
  wait_caughtup_rc :: "peer_id \<Rightarrow> int"
  transfer_leadership_rc :: "peer_id \<Rightarrow> int \<Rightarrow> int"
  next_candidate :: "peer_id option"
  has_snapshot_executor :: bool
  is_installing_snapshot :: bool

text \<open>Surroundings in which every call succeeds, for examples.\<close>

definition calm_env :: env where
  "calm_env = \<lparr>now_ms = 1000, time_of_day_ms = 5000, enable_leader_lease = False,
     enable_append_entries_cache = True, max_append_entries_cache_size = 8,
     step_down_when_vote_timedout = True, election_heartbeat_factor = 10, timer_add_ok = True,
     timer_del_ok = True, bthread_start_ok = True, channel_init_ok = (\<lambda>_. True), meta_store_ok = (\<lambda>_ _. True),
     last_rpc_send_timestamp = (\<lambda>_. 1000), replicator_readonly = (\<lambda>_. False),
     add_replicator_rc = (\<lambda>_. 0), wait_caughtup_rc = (\<lambda>_. 0), transfer_leadership_rc = (\<lambda>_ _. 0),
     next_candidate = None, has_snapshot_executor = False, is_installing_snapshot = False\<rparr>"

end
