(* ===== verification/Nori_Ordered_Map.thy ===== *)
theory Nori_Ordered_Map
  imports Nori_Prelude
begin

text \<open>
  \<^verbatim>\<open>std::map\<close> as the list of its pairs in ascending order of the keys, and what the
  components rely on when they use one: the locale \<open>ordered_map\<close> with the laws of lookup,
  assignment, insertion and removal, and its interpretation on the lists.
\<close>

type_synonym ('k, 'v) omap = "('k \<times> 'v) list"

definition omap_wf :: "('k :: linorder, 'v) omap \<Rightarrow> bool" where
  "omap_wf m \<longleftrightarrow> sorted_wrt (<) (map fst m)"

text \<open>\<^verbatim>\<open>m[k] = v\<close>.\<close>

fun omap_put :: "'k :: linorder \<Rightarrow> 'v \<Rightarrow> ('k, 'v) omap \<Rightarrow> ('k, 'v) omap" where
  "omap_put k v [] = [(k, v)]"
| "omap_put k v ((k', v') # m) =
     (if k < k' then (k, v) # (k', v') # m
      else if k = k' then (k, v) # m
      else (k', v') # omap_put k v m)"

text \<open>\<^verbatim>\<open>m.insert({k, v})\<close> leaves a present key alone; \<^verbatim>\<open>m.erase(k)\<close>.\<close>

definition omap_insert :: "'k :: linorder \<Rightarrow> 'v \<Rightarrow> ('k, 'v) omap \<Rightarrow> ('k, 'v) omap" where
  "omap_insert k v m = (case map_of m k of None \<Rightarrow> omap_put k v m | Some _ \<Rightarrow> m)"

definition omap_erase :: "'k \<Rightarrow> ('k, 'v) omap \<Rightarrow> ('k, 'v) omap" where
  "omap_erase k m = filter (\<lambda>p. fst p \<noteq> k) m"

lemma keys_omap_put [simp]: "fst ` set (omap_put k v m) = insert k (fst ` set m)"
  by (induction k v m rule: omap_put.induct) auto

lemma map_of_omap_put [simp]: "map_of (omap_put k v m) = (map_of m)(k \<mapsto> v)"
  by (induction k v m rule: omap_put.induct) (auto simp: fun_eq_iff)

lemma omap_wf_put [simp]: "omap_wf m \<Longrightarrow> omap_wf (omap_put k v m)"
proof (induction k v m rule: omap_put.induct)
  case (2 k v k' v' m)
  then show ?case
    using keys_omap_put [of k v m] by (auto simp: omap_wf_def)
qed (simp add: omap_wf_def)

lemma map_of_omap_erase [simp]: "map_of (omap_erase k m) = (map_of m)(k := None)"
  by (induction m) (auto simp: omap_erase_def fun_eq_iff)

lemma omap_wf_erase [simp]: "omap_wf m \<Longrightarrow> omap_wf (omap_erase k m)"
  by (induction m) (auto simp: omap_wf_def omap_erase_def)

lemma omap_wf_distinct: "omap_wf m \<Longrightarrow> distinct (map fst m)"
  by (auto simp: omap_wf_def intro: strict_sorted_imp_sorted sorted_wrt_mono_rel
      dest!: strict_sorted_iff [THEN iffD1])

lemma omap_sorted: "omap_wf m \<Longrightarrow> sorted_wrt (<) (map fst m)"
  by (simp add: omap_wf_def)

lemma omap_mem_iff: "omap_wf m \<Longrightarrow> (k, v) \<in> set m \<longleftrightarrow> map_of m k = Some v"
  by (simp add: omap_wf_distinct)

text \<open>The contract of an ordered map.\<close>

locale ordered_map =
  fixes wf :: "'m \<Rightarrow> bool"
    and lookup :: "'m \<Rightarrow> 'k :: linorder \<Rightarrow> 'v option"
    and put :: "'k \<Rightarrow> 'v \<Rightarrow> 'm \<Rightarrow> 'm"
    and insert_new :: "'k \<Rightarrow> 'v \<Rightarrow> 'm \<Rightarrow> 'm"
    and erase :: "'k \<Rightarrow> 'm \<Rightarrow> 'm"
    and items :: "'m \<Rightarrow> ('k \<times> 'v) list"
  assumes lookup_put: "wf m \<Longrightarrow> lookup (put k v m) = (lookup m)(k \<mapsto> v)"
    and lookup_insert_new: "wf m \<Longrightarrow> lookup (insert_new k v m) =
          (case lookup m k of None \<Rightarrow> (lookup m)(k \<mapsto> v) | Some _ \<Rightarrow> lookup m)"
    and lookup_erase: "wf m \<Longrightarrow> lookup (erase k m) = (lookup m)(k := None)"
    and wf_put: "wf m \<Longrightarrow> wf (put k v m)"
    and wf_insert_new: "wf m \<Longrightarrow> wf (insert_new k v m)"
    and wf_erase: "wf m \<Longrightarrow> wf (erase k m)"
    and items_sorted: "wf m \<Longrightarrow> sorted_wrt (<) (map fst (items m))"
    and items_lookup: "wf m \<Longrightarrow> map_of (items m) = lookup m"
begin

lemma lookup_fold_put:
  assumes "wf m" and "distinct (map fst kvs)"
  shows "lookup (foldl (\<lambda>m p. put (fst p) (snd p) m) m kvs) = lookup m ++ map_of kvs"
    and "wf (foldl (\<lambda>m p. put (fst p) (snd p) m) m kvs)"
proof -
  have "lookup (foldl (\<lambda>m p. put (fst p) (snd p) m) m kvs) = lookup m ++ map_of kvs \<and>
      wf (foldl (\<lambda>m p. put (fst p) (snd p) m) m kvs)"
    using assms
  proof (induction kvs arbitrary: m)
    case (Cons p kvs)
    have "map_of kvs (fst p) = None" using Cons.prems(2) by (simp add: map_of_eq_None_iff)
    with Cons show ?case
      by (auto simp: lookup_put wf_put fun_eq_iff map_add_def split: option.splits)
  qed simp
  then show "lookup (foldl (\<lambda>m p. put (fst p) (snd p) m) m kvs) = lookup m ++ map_of kvs"
    and "wf (foldl (\<lambda>m p. put (fst p) (snd p) m) m kvs)" by blast+
qed

lemma insert_new_absent: "wf m \<Longrightarrow> lookup m k = None \<Longrightarrow> lookup (insert_new k v m) k = Some v"
  by (simp add: lookup_insert_new)

lemma erase_put: "wf m \<Longrightarrow> lookup m k = None \<Longrightarrow> lookup (erase k (put k v m)) = lookup m"
  by (auto simp: lookup_erase lookup_put wf_put)

end

interpretation omap: ordered_map omap_wf map_of omap_put omap_insert omap_erase "\<lambda>m. m"
  by unfold_locales (auto simp: omap_insert_def omap_sorted split: option.splits)

end
