(* ===== verification/Raft_Append_Cache.thy ===== *)
theory Raft_Append_Cache
  imports Raft_Node_Types Nori_Ordered_Map
begin

text \<open>
  \<^verbatim>\<open>NodeImpl::AppendEntriesCache\<close> of \<^verbatim>\<open>raft/braft/node.{h,cpp}\<close>: the cache in which a
  follower keeps AppendEntries requests that arrived ahead of the ones before them. The
  requests are kept twice, in order of arrival and in order of their position in the log.
  Every operation lists the batches it gives to a new bthread and the requests it fails
  when no bthread can be started.
\<close>

datatype cache_output =
  HandleFromCache "append_rpc list"
| AckFail append_rpc
| CacheTimer int int int

record append_cache =
  rpc_queue :: "append_rpc list"
  rpc_map :: "(int, append_rpc) omap"
  ac_timer :: bool
  cache_version :: int
  timer_version :: int

text \<open>The constructor ignores the version it is given.\<close>

definition ac_new :: "int \<Rightarrow> append_cache" where
  "ac_new version = \<lparr>rpc_queue = [], rpc_map = [], ac_timer = False, cache_version = 0, timer_version = 0\<rparr>"

definition ac_empty :: "append_cache \<Rightarrow> bool" where
  "ac_empty c \<longleftrightarrow> rpc_map c = []"

definition ac_first_index :: "append_cache \<Rightarrow> int" where
  "ac_first_index c = rpc_prev_index (snd (hd (rpc_map c))) + 1"

definition start_to_handle :: "env \<Rightarrow> append_rpc list \<Rightarrow> cache_output list" where
  "start_to_handle e rpcs = (if bthread_start_ok e then [HandleFromCache rpcs] else map AckFail rpcs)"

definition ac_start_timer :: "env \<Rightarrow> append_cache \<Rightarrow> bool \<times> append_cache \<times> cache_output list" where
  "ac_start_timer e c =
     (let c = c\<lparr>timer_version := timer_version c + 1\<rparr>;
          timer_start_ms = receive_time_ms (hd (rpc_queue c))
      in if timer_add_ok e
         then (True, c\<lparr>ac_timer := True\<rparr>, [CacheTimer (timer_version c) (cache_version c) timer_start_ms])
         else (False, c, []))"

definition ac_stop_timer :: "env \<Rightarrow> append_cache \<Rightarrow> append_cache" where
  "ac_stop_timer e c =
     (if \<not> ac_timer c then c
      else let c = c\<lparr>timer_version := timer_version c + 1\<rparr>
           in if timer_del_ok e then c\<lparr>ac_timer := False\<rparr> else c)"

definition ac_clear :: "env \<Rightarrow> append_cache \<Rightarrow> append_cache \<times> cache_output list" where
  "ac_clear e c =
     (let c = ac_stop_timer e c;
          rpcs = rpc_queue c
      in (c\<lparr>rpc_queue := [], rpc_map := []\<rparr>, start_to_handle e rpcs))"

text \<open>Whether a request overlaps its neighbours, which are found with \<^verbatim>\<open>lower_bound\<close>.\<close>

definition need_clear :: "append_rpc \<Rightarrow> (int, append_rpc) omap \<Rightarrow> bool" where
  "need_clear rpc m =
     (let before = takeWhile (\<lambda>p. fst p < rpc_prev_index rpc) m;
          from_it = dropWhile (\<lambda>p. fst p < rpc_prev_index rpc) m
      in if before \<noteq> [] \<and> rpc_last_index (snd (last before)) > rpc_prev_index rpc then True
         else from_it \<noteq> [] \<and> rpc_prev_index (snd (hd from_it)) < rpc_last_index rpc)"

text \<open>The requests that are let go while the cache is too big, from the end of the log.\<close>

fun release_excess ::
  "nat \<Rightarrow> append_rpc list \<Rightarrow> append_rpc list \<Rightarrow> (int, append_rpc) omap
     \<Rightarrow> append_rpc list \<times> append_rpc list \<times> (int, append_rpc) omap" where
  "release_excess cap out q [] = (out, q, [])"
| "release_excess cap out q (p # m) =
     (if length (p # m) > cap
      then let rpc = snd (last (p # m))
           in release_excess cap (out @ [rpc]) (remove1 rpc q) (butlast (p # m))
      else (out, q, p # m))"

definition ac_store :: "env \<Rightarrow> append_rpc \<Rightarrow> append_cache \<Rightarrow> bool \<times> append_cache \<times> cache_output list" where
  "ac_store e rpc c =
     (let (c, o1) = (if rpc_map c \<noteq> [] \<and> need_clear rpc (rpc_map c) then ac_clear e c else (c, []));
          c = c\<lparr>rpc_queue := rpc_queue c @ [rpc], rpc_map := omap_insert (rpc_prev_index rpc) rpc (rpc_map c)\<rparr>;
          (ok, c, o2) = (if length (rpc_map c) = 1 then ac_start_timer e c else (True, c, []))
      in if \<not> ok then let (c, o3) = ac_clear e c in (True, c, o1 @ o2 @ o3)
         else let (out, q, m) =
                    release_excess (max_append_entries_cache_size e) [] (rpc_queue c) (rpc_map c)
              in (True, c\<lparr>rpc_queue := q, rpc_map := m\<rparr>,
                  o1 @ o2 @ (if out \<noteq> [] then start_to_handle e out else [])))"

fun take_runnable :: "int \<Rightarrow> (int, append_rpc) omap \<Rightarrow> append_rpc list \<times> (int, append_rpc) omap" where
  "take_runnable local_last_index [] = ([], [])"
| "take_runnable local_last_index ((k, rpc) # m) =
     (if rpc_prev_index rpc > local_last_index then ([], (k, rpc) # m)
      else let (rpcs, m) = take_runnable (rpc_last_index rpc) m in (rpc # rpcs, m))"

definition ac_process_runable_rpcs :: "env \<Rightarrow> int \<Rightarrow> append_cache \<Rightarrow> append_cache \<times> cache_output list" where
  "ac_process_runable_rpcs e local_last_index c =
     (let (rpcs, m) = take_runnable local_last_index (rpc_map c);
          c = c\<lparr>rpc_map := m, rpc_queue := foldl (\<lambda>q rpc. remove1 rpc q) (rpc_queue c) rpcs\<rparr>;
          outs = (if rpcs \<noteq> [] then start_to_handle e rpcs else [])
      in (if rpc_map c = [] then ac_stop_timer e c else c, outs))"

definition ac_timedout :: "env \<Rightarrow> int \<Rightarrow> int \<Rightarrow> append_cache \<Rightarrow> append_cache \<times> cache_output list" where
  "ac_timedout e tversion timer_start_ms c =
     (if tversion \<noteq> timer_version c then (c, [])
      else if receive_time_ms (hd (rpc_queue c)) \<le> timer_start_ms then ac_clear e c
      else let (ok, c, o1) = ac_start_timer e c
           in if \<not> ok then let (c, o2) = ac_clear e c in (c, o1 @ o2) else (c, o1))"

lemmas ac_defs [raft_defs] = ac_start_timer_def ac_stop_timer_def ac_clear_def ac_store_def
  ac_process_runable_rpcs_def ac_timedout_def

subsection \<open>The cache of a node\<close>

text \<open>
  The functions of \<^verbatim>\<open>NodeImpl\<close> that create and delete the cache; the counter is
  \<^verbatim>\<open>_append_entries_cache_version\<close>.
\<close>

definition handle_out_of_order_append_entries ::
  "env \<Rightarrow> nat \<Rightarrow> append_request \<Rightarrow> int \<Rightarrow> append_cache option \<times> int
     \<Rightarrow> bool \<times> (append_cache option \<times> int) \<times> cache_output list" where
  "handle_out_of_order_append_entries e i request local_last_index = (\<lambda>(oc, version).
     if \<not> enable_append_entries_cache e \<or> local_last_index \<ge> ae_prev_log_index request
        \<or> ae_entries request = []
     then (False, (oc, version), [])
     else let (c, version) = (case oc of None \<Rightarrow> (ac_new (version + 1), version + 1) | Some c \<Rightarrow> (c, version));
              rpc = \<lparr>rpc_id = i, rpc_request = request, receive_time_ms = time_of_day_ms e\<rparr>;
              (rc, c, outs) = ac_store e rpc c
          in (rc, (if \<not> rc \<and> ac_empty c then None else Some c, version), outs))"

definition check_append_entries_cache ::
  "env \<Rightarrow> int \<Rightarrow> append_cache option \<Rightarrow> append_cache option \<times> cache_output list" where
  "check_append_entries_cache e local_last_index oc =
     (case oc of
        None \<Rightarrow> (None, [])
      | Some c \<Rightarrow> let (c, outs) = ac_process_runable_rpcs e local_last_index c
                  in (if ac_empty c then None else Some c, outs))"

definition clear_append_entries_cache ::
  "env \<Rightarrow> append_cache option \<Rightarrow> append_cache option \<times> cache_output list" where
  "clear_append_entries_cache e oc =
     (case oc of None \<Rightarrow> (None, []) | Some c \<Rightarrow> (None, snd (ac_clear e c)))"

definition handle_append_entries_cache_timedout ::
  "env \<Rightarrow> int \<Rightarrow> int \<Rightarrow> int \<Rightarrow> append_cache option \<Rightarrow> append_cache option \<times> cache_output list" where
  "handle_append_entries_cache_timedout e tversion cversion timer_start_ms oc =
     (case oc of
        None \<Rightarrow> (None, [])
      | Some c \<Rightarrow>
          if cversion = cache_version c
          then let (c, outs) = ac_timedout e tversion timer_start_ms c
               in (if ac_empty c then None else Some c, outs)
          else (Some c, []))"

subsection \<open>What the cache keeps true\<close>

text \<open>The requests that an output takes over.\<close>

definition taken_over :: "cache_output list \<Rightarrow> append_rpc list" where
  "taken_over outs =
     concat (map (\<lambda>out. case out of HandleFromCache rpcs \<Rightarrow> rpcs | AckFail rpc \<Rightarrow> [rpc] | CacheTimer _ _ _ \<Rightarrow> []) outs)"

lemma taken_over_append [simp]: "taken_over (xs @ ys) = taken_over xs @ taken_over ys"
  by (simp add: taken_over_def)

lemma taken_over_simps [simp]:
  "taken_over [] = []" "taken_over [CacheTimer a b c] = []"
  "taken_over (start_to_handle e rpcs) = rpcs"
  by (simp_all add: taken_over_def start_to_handle_def comp_def)

definition cached :: "append_cache option \<Rightarrow> append_rpc list" where
  "cached oc = (case oc of None \<Rightarrow> [] | Some c \<Rightarrow> rpc_queue c)"

text \<open>Both orders hold the same requests, and no two of them overlap in the log.\<close>

definition ac_inv :: "nat \<Rightarrow> append_cache \<Rightarrow> bool" where
  "ac_inv cap c \<longleftrightarrow>
     mset (rpc_queue c) = mset (map snd (rpc_map c))
     \<and> list_all (\<lambda>p. fst p = rpc_prev_index (snd p) \<and> ae_entries (rpc_request (snd p)) \<noteq> []) (rpc_map c)
     \<and> sorted_wrt (\<lambda>p q. rpc_last_index (snd p) \<le> rpc_prev_index (snd q)) (rpc_map c)
     \<and> length (rpc_map c) \<le> cap
     \<and> (rpc_map c \<noteq> [] \<longrightarrow> ac_timer c)"

lemma ac_inv_new [simp]: "ac_inv cap (ac_new v)"
  by (simp add: ac_inv_def ac_new_def)

lemma ac_inv_emptied [simp]: "ac_inv cap (c\<lparr>rpc_queue := [], rpc_map := []\<rparr>)"
  by (simp add: ac_inv_def)

lemma ac_stop_timer_simps [simp]:
  "rpc_queue (ac_stop_timer e c) = rpc_queue c" "rpc_map (ac_stop_timer e c) = rpc_map c"
  by (simp_all add: ac_stop_timer_def Let_def)

lemma omap_put_split:
  "k \<notin> fst ` set m \<Longrightarrow>
     omap_put k v m = takeWhile (\<lambda>p. fst p < k) m @ (k, v) # dropWhile (\<lambda>p. fst p < k) m"
  by (induction k v m rule: omap_put.induct) auto

lemma ac_clear_keeps:
  "ac_clear e c = (c', outs) \<Longrightarrow> ac_inv cap c' \<and> rpc_queue c' = [] \<and> taken_over outs = rpc_queue c"
  by (auto simp: ac_clear_def Let_def ac_inv_def)

lemma release_excess_keeps:
  "release_excess cap out q m = (out', q', m') \<Longrightarrow> mset q = mset (map snd m) \<Longrightarrow>
     m' = take cap m \<and> mset q' = mset (map snd m') \<and> mset out' + mset q' = mset out + mset q"
proof (induction cap out q m arbitrary: out' q' m' rule: release_excess.induct)
  case (2 cap out q p m)
  show ?case
  proof (cases "length (p # m) > cap")
    case True
    obtain xs x where px: "p # m = xs @ [x]" by (metis list.distinct(1) rev_exhaust)
    have q: "mset q = add_mset (snd x) (mset (map snd xs))" using 2(3) by (simp add: px)
    have len: "length xs \<ge> cap" using True px by (metis length_append_singleton less_Suc_eq_le)
    have IH: "release_excess cap (out @ [snd x]) (remove1 (snd x) q) xs = (out', q', m') \<Longrightarrow>
        m' = take cap xs \<and> mset q' = mset (map snd m')
        \<and> mset out' + mset q' = mset (out @ [snd x]) + mset (remove1 (snd x) q)"
      using 2(1) [OF True refl] q unfolding px by auto
    have "release_excess cap out q (p # m) = release_excess cap (out @ [snd (last (p # m))])
        (remove1 (snd (last (p # m))) q) (butlast (p # m))"
      using True by (simp only: release_excess.simps Let_def if_True)
    then have "release_excess cap (out @ [snd x]) (remove1 (snd x) q) xs = (out', q', m')"
      using 2(2) unfolding px by simp
    from IH [OF this] show ?thesis unfolding px using len q by auto
  next
    case False
    then show ?thesis using 2(2,3) by auto
  qed
qed auto

lemma take_runnable_split:
  "take_runnable l m = (rpcs, m') \<Longrightarrow> map snd m = rpcs @ map snd m' \<and> m' = drop (length rpcs) m"
  by (induction l m arbitrary: rpcs m' rule: take_runnable.induct) (auto split: if_splits prod.splits)

lemma mset_foldl_remove1: "mset (foldl (\<lambda>q r. remove1 r q) q rs) = mset q - mset rs"
  by (induction rs arbitrary: q) auto

text \<open>A request that overlaps no neighbour overlaps nothing and goes between them.\<close>

lemma store_between:
  assumes inv: "list_all (\<lambda>p. fst p = rpc_prev_index (snd p) \<and> ae_entries (rpc_request (snd p)) \<noteq> []) m"
    "sorted_wrt (\<lambda>p q. rpc_last_index (snd p) \<le> rpc_prev_index (snd q)) m"
    and free: "m = [] \<or> \<not> need_clear rpc m" and some: "ae_entries (rpc_request rpc) \<noteq> []"
  shows "omap_insert (rpc_prev_index rpc) rpc m =
      takeWhile (\<lambda>p. fst p < rpc_prev_index rpc) m @ (rpc_prev_index rpc, rpc)
        # dropWhile (\<lambda>p. fst p < rpc_prev_index rpc) m"
    and "sorted_wrt (\<lambda>p q. rpc_last_index (snd p) \<le> rpc_prev_index (snd q))
      (takeWhile (\<lambda>p. fst p < rpc_prev_index rpc) m @ (rpc_prev_index rpc, rpc)
        # dropWhile (\<lambda>p. fst p < rpc_prev_index rpc) m)"
proof -
  define k where "k = rpc_prev_index rpc"
  define b where "b = takeWhile (\<lambda>p. fst p < k) m"
  define a where "a = dropWhile (\<lambda>p. fst p < k) m"
  have m: "m = b @ a" by (simp add: a_def b_def)
  have sb: "sorted_wrt (\<lambda>p q. rpc_last_index (snd p) \<le> rpc_prev_index (snd q)) (b @ a)"
    using inv(2) m by simp
  have len: "rpc_prev_index (snd p) < rpc_last_index (snd p)" if "p \<in> set m" for p
    using inv(1) that by (auto simp: list_all_iff)
  have after: "rpc_last_index rpc \<le> rpc_prev_index (snd p)" if q: "p \<in> set a" for p
  proof -
    obtain x xs where x: "a = x # xs" using q by (cases a) auto
    then have hd: "rpc_last_index rpc \<le> rpc_prev_index (snd x)"
      using free m unfolding need_clear_def k_def [symmetric] a_def [symmetric] b_def [symmetric]
      by (auto simp: Let_def not_less split: if_splits)
    have "p = x \<or> rpc_last_index (snd x) \<le> rpc_prev_index (snd p)"
      using q sb x by (auto simp: sorted_wrt_append)
    then show ?thesis using hd len [of x] m x by auto
  qed
  have before: "rpc_last_index (snd p) \<le> k" if q: "p \<in> set b" for p
  proof -
    obtain x xs where x: "b = xs @ [x]" using q by (cases b rule: rev_cases) auto
    then have last: "rpc_last_index (snd x) \<le> k"
      using free m unfolding need_clear_def k_def [symmetric] a_def [symmetric] b_def [symmetric]
      by (auto simp: Let_def not_less split: if_splits)
    have "p = x \<or> rpc_last_index (snd p) \<le> rpc_prev_index (snd x)"
      using q sb x by (auto simp: sorted_wrt_append)
    then show ?thesis using last len [of x] m x by auto
  qed
  have "k \<notin> fst ` set m"
  proof
    assume "k \<in> fst ` set m"
    then obtain p where p: "p \<in> set m" "fst p = k" by auto
    then have "rpc_prev_index (snd p) = k" using inv(1) by (auto simp: list_all_iff)
    moreover have "p \<notin> set b"
      using p(2) set_takeWhileD [of p "\<lambda>p. fst p < k" m] unfolding b_def by blast
    then have "p \<in> set a" using p(1) m by auto
    moreover have "k < rpc_last_index rpc" using some by (simp add: k_def)
    ultimately show False using after [of p] by simp
  qed
  then have "map_of m k = None" by (simp add: map_of_eq_None_iff)
  with \<open>k \<notin> fst ` set m\<close> show "omap_insert (rpc_prev_index rpc) rpc m =
      takeWhile (\<lambda>p. fst p < rpc_prev_index rpc) m @ (rpc_prev_index rpc, rpc)
        # dropWhile (\<lambda>p. fst p < rpc_prev_index rpc) m"
    unfolding k_def by (simp add: omap_insert_def omap_put_split)
  have "sorted_wrt (\<lambda>p q. rpc_last_index (snd p) \<le> rpc_prev_index (snd q)) (b @ (k, rpc) # a)"
    using sb after before by (auto simp: sorted_wrt_append k_def)
  then show "sorted_wrt (\<lambda>p q. rpc_last_index (snd p) \<le> rpc_prev_index (snd q))
      (takeWhile (\<lambda>p. fst p < rpc_prev_index rpc) m @ (rpc_prev_index rpc, rpc)
        # dropWhile (\<lambda>p. fst p < rpc_prev_index rpc) m)"
    by (simp add: a_def b_def k_def)
qed

lemma ac_store_keeps:
  assumes inv: "ac_inv (max_append_entries_cache_size e) c"
    and some: "ae_entries (rpc_request rpc) \<noteq> []" and st: "ac_store e rpc c = (rc, c', outs)"
  shows "rc \<and> ac_inv (max_append_entries_cache_size e) c'
    \<and> mset (taken_over outs) + mset (rpc_queue c') = add_mset rpc (mset (rpc_queue c))"
proof -
  let ?cap = "max_append_entries_cache_size e" and ?k = "rpc_prev_index rpc"
  define r where "r = (if rpc_map c \<noteq> [] \<and> need_clear rpc (rpc_map c) then ac_clear e c else (c, []))"
  obtain c1 o1 where r: "r = (c1, o1)" by (cases r)
  have c1: "ac_inv ?cap c1" "rpc_map c1 = [] \<or> \<not> need_clear rpc (rpc_map c1)"
    "mset (taken_over o1) + mset (rpc_queue c1) = mset (rpc_queue c)"
    using inv r ac_clear_keeps [of e c c1 o1]
    by (auto simp: r_def ac_clear_def Let_def split: if_splits)
  define c2 where "c2 = c1\<lparr>rpc_queue := rpc_queue c1 @ [rpc], rpc_map := omap_insert ?k rpc (rpc_map c1)\<rparr>"
  have m2: "rpc_map c2 = takeWhile (\<lambda>p. fst p < ?k) (rpc_map c1) @ (?k, rpc)
      # dropWhile (\<lambda>p. fst p < ?k) (rpc_map c1)"
    and s2: "sorted_wrt (\<lambda>p q. rpc_last_index (snd p) \<le> rpc_prev_index (snd q)) (rpc_map c2)"
    using store_between [OF _ _ c1(2) some] c1(1) by (auto simp: c2_def ac_inv_def)
  have parts: "mset (rpc_map c2) = add_mset (?k, rpc) (mset (rpc_map c1))"
    unfolding m2 using mset_append [of "takeWhile (\<lambda>p. fst p < ?k) (rpc_map c1)"
        "dropWhile (\<lambda>p. fst p < ?k) (rpc_map c1)"] by simp
  then have q2: "mset (rpc_queue c2) = mset (map snd (rpc_map c2))"
    using c1(1) by (simp add: c2_def ac_inv_def)
  have l2: "list_all (\<lambda>p. fst p = rpc_prev_index (snd p) \<and> ae_entries (rpc_request (snd p)) \<noteq> []) (rpc_map c2)"
    using c1(1) some parts by (simp add: ac_inv_def list_all_iff flip: set_mset_mset)
  define u where "u = (if length (rpc_map c2) = 1 then ac_start_timer e c2 else (True, c2, []))"
  obtain ok c3 o2 where u: "u = (ok, c3, o2)" by (cases u)
  have c3: "rpc_map c3 = rpc_map c2" "rpc_queue c3 = rpc_queue c2" "taken_over o2 = []" "ok \<Longrightarrow> ac_timer c3"
    using u m2 c1(1) by (auto simp: u_def ac_start_timer_def Let_def ac_inv_def c2_def split: if_splits)
  have tot: "mset (taken_over o1) + mset (rpc_queue c3) = add_mset rpc (mset (rpc_queue c))"
    using c1(3) c3(2) by (simp add: c2_def)
  have st': "(if \<not> ok then let (c, o3) = ac_clear e c3 in (True, c, o1 @ o2 @ o3)
      else let (out, q, m) = release_excess ?cap [] (rpc_queue c3) (rpc_map c3)
           in (True, c3\<lparr>rpc_queue := q, rpc_map := m\<rparr>,
               o1 @ o2 @ (if out \<noteq> [] then start_to_handle e out else []))) = (rc, c', outs)"
    using st
    unfolding ac_store_def r_def [symmetric] r Let_def prod.case c2_def [symmetric] u_def [symmetric] u
    by simp
  show ?thesis
  proof (cases ok)
    case False
    obtain c4 o3 where c4: "ac_clear e c3 = (c4, o3)" by (cases "ac_clear e c3")
    then have "rc = True" "c' = c4" "outs = o1 @ o2 @ o3"
      using st' False by simp_all
    then show ?thesis using ac_clear_keeps [OF c4, of ?cap] c3(3) tot by simp
  next
    case True
    obtain out q m where rel: "release_excess ?cap [] (rpc_queue c3) (rpc_map c3) = (out, q, m)"
      by (metis prod.exhaust)
    then have "rc = True" "c' = c3\<lparr>rpc_queue := q, rpc_map := m\<rparr>"
      "outs = o1 @ o2 @ (if out \<noteq> [] then start_to_handle e out else [])"
      using st' True by simp_all
    moreover have "m = take ?cap (rpc_map c2)" "mset q = mset (map snd m)"
      "mset out + mset q = mset (rpc_queue c3)"
      using release_excess_keeps [OF rel] q2 c3 by auto
    moreover have "mset (taken_over outs) = mset (taken_over o1) + mset out"
      using \<open>outs = _\<close> c3(3) by simp
    ultimately show ?thesis
      using tot [symmetric] c3 True l2 s2
      by (auto simp: ac_inv_def sorted_wrt_take list_all_iff add.assoc dest: in_set_takeD)
  qed
qed

lemma ac_process_keeps:
  assumes inv: "ac_inv cap c" and pr: "ac_process_runable_rpcs e l c = (c', outs)"
  shows "ac_inv cap c' \<and> mset (taken_over outs) + mset (rpc_queue c') = mset (rpc_queue c)"
proof -
  obtain rpcs m where t: "take_runnable l (rpc_map c) = (rpcs, m)" by (metis prod.exhaust)
  from take_runnable_split [OF t] have sp: "map snd (rpc_map c) = rpcs @ map snd m"
    and m: "m = drop (length rpcs) (rpc_map c)" by auto
  let ?q = "foldl (\<lambda>q rpc. remove1 rpc q) (rpc_queue c) rpcs"
  have q: "mset (rpc_queue c) = mset rpcs + mset (map snd m)"
    using inv sp by (metis ac_inv_def mset_append)
  then have "mset ?q = mset (map snd m)" by (simp add: mset_foldl_remove1)
  moreover have "list_all P m" if "list_all P (rpc_map c)" for P
    using that m by (auto simp: list_all_iff dest: in_set_dropD)
  moreover have "sorted_wrt P m" if "sorted_wrt P (rpc_map c)" for P
    using that m by (simp add: sorted_wrt_drop)
  ultimately show ?thesis
    using inv pr t q m by (auto simp: ac_process_runable_rpcs_def Let_def ac_inv_def split: if_splits)
qed

lemma ac_timedout_keeps:
  assumes inv: "ac_inv cap c" and td: "ac_timedout e v t c = (c', outs)"
  shows "ac_inv cap c' \<and> mset (taken_over outs) + mset (rpc_queue c') = mset (rpc_queue c)"
proof -
  obtain ok c2 o1 where st: "ac_start_timer e c = (ok, c2, o1)" by (metis prod.exhaust)
  obtain c3 o2 where cl: "ac_clear e c2 = (c3, o2)" by (metis prod.exhaust)
  obtain c4 o3 where cl': "ac_clear e c = (c4, o3)" by (metis prod.exhaust)
  have "rpc_queue c2 = rpc_queue c" "taken_over o1 = []" "ok \<Longrightarrow> ac_inv cap c2"
    using st inv by (auto simp: ac_start_timer_def Let_def ac_inv_def split: if_splits)
  then show ?thesis
    using inv td st cl cl' ac_clear_keeps [OF cl, of cap] ac_clear_keeps [OF cl', of cap]
    by (auto simp: ac_timedout_def split: if_splits)
qed

subsection \<open>No request is lost\<close>

text \<open>
  All histories of the cache of a node under one limit: the requests it was given and the
  ones it gave away.
\<close>

inductive cache_run :: "nat \<Rightarrow> append_cache option \<Rightarrow> append_rpc list \<Rightarrow> append_rpc list \<Rightarrow> bool" for cap where
  cr_start: "cache_run cap None [] []"
| cr_out_of_order:
    "\<lbrakk>cache_run cap oc given out; max_append_entries_cache_size e = cap;
      handle_out_of_order_append_entries e i request l (oc, v) = (rc, (oc', v'), outs)\<rbrakk>
     \<Longrightarrow> cache_run cap oc'
           (given @ (if rc then [\<lparr>rpc_id = i, rpc_request = request, receive_time_ms = time_of_day_ms e\<rparr>] else []))
           (out @ taken_over outs)"
| cr_check:
    "\<lbrakk>cache_run cap oc given out; check_append_entries_cache e l oc = (oc', outs)\<rbrakk>
     \<Longrightarrow> cache_run cap oc' given (out @ taken_over outs)"
| cr_clear:
    "\<lbrakk>cache_run cap oc given out; clear_append_entries_cache e oc = (oc', outs)\<rbrakk>
     \<Longrightarrow> cache_run cap oc' given (out @ taken_over outs)"
| cr_timedout:
    "\<lbrakk>cache_run cap oc given out; handle_append_entries_cache_timedout e tv cv t oc = (oc', outs)\<rbrakk>
     \<Longrightarrow> cache_run cap oc' given (out @ taken_over outs)"

definition cache_inv :: "nat \<Rightarrow> append_cache option \<Rightarrow> bool" where
  "cache_inv cap oc \<longleftrightarrow> (case oc of None \<Rightarrow> True | Some c \<Rightarrow> ac_inv cap c)"

lemma cached_empty: "ac_inv cap c \<Longrightarrow> ac_empty c \<Longrightarrow> rpc_queue c = []"
  by (simp add: ac_inv_def ac_empty_def)

lemma cache_run_keeps:
  "cache_run cap oc given out \<Longrightarrow> cache_inv cap oc \<and> mset out + mset (cached oc) = mset given"
proof (induction rule: cache_run.induct)
  case cr_start
  then show ?case by (simp add: cache_inv_def cached_def)
next
  case (cr_out_of_order oc given out e i request l v rc oc' v' outs)
  show ?case
  proof (cases "\<not> enable_append_entries_cache e \<or> l \<ge> ae_prev_log_index request \<or> ae_entries request = []")
    case True
    then show ?thesis using cr_out_of_order by (auto simp: handle_out_of_order_append_entries_def)
  next
    case False
    let ?rpc = "\<lparr>rpc_id = i, rpc_request = request, receive_time_ms = time_of_day_ms e\<rparr>"
    let ?c = "case oc of None \<Rightarrow> ac_new (v + 1) | Some c \<Rightarrow> c"
    obtain r c' o1 where st: "ac_store e ?rpc ?c = (r, c', o1)" by (metis prod.exhaust)
    have inv: "ac_inv (max_append_entries_cache_size e) ?c"
      using cr_out_of_order.IH cr_out_of_order.hyps(2) by (cases oc) (auto simp: cache_inv_def)
    have q: "rpc_queue ?c = cached oc" by (cases oc) (simp_all add: cached_def ac_new_def)
    have k: "r \<and> ac_inv cap c' \<and> mset (taken_over o1) + mset (rpc_queue c') = add_mset ?rpc (mset (rpc_queue ?c))"
      using ac_store_keeps [OF inv _ st] False cr_out_of_order.hyps(2) by simp
    then have "rc" "oc' = Some c'" "outs = o1"
      using cr_out_of_order.hyps(3) False st
      by (auto simp: handle_out_of_order_append_entries_def Let_def split: option.splits)
    then show ?thesis using k q cr_out_of_order.IH by (simp add: cache_inv_def cached_def union_ac)
  qed
next
  case (cr_check oc given out e l oc' outs)
  show ?case
  proof (cases oc)
    case (Some c)
    obtain c' o1 where pr: "ac_process_runable_rpcs e l c = (c', o1)" by (metis prod.exhaust)
    then have "outs = o1" "oc' = (if ac_empty c' then None else Some c')"
      using cr_check.hyps(2) Some by (auto simp: check_append_entries_cache_def)
    moreover have "ac_inv cap c'" "mset (taken_over o1) + mset (rpc_queue c') = mset (rpc_queue c)"
      using ac_process_keeps [OF _ pr] cr_check.IH Some by (auto simp: cache_inv_def)
    ultimately show ?thesis
      using cr_check.IH Some cached_empty [of cap c'] by (auto simp: cache_inv_def cached_def union_ac)
  qed (use cr_check in \<open>auto simp: check_append_entries_cache_def\<close>)
next
  case (cr_clear oc given out e oc' outs)
  then show ?case
    by (auto simp: clear_append_entries_cache_def cache_inv_def cached_def ac_clear_def Let_def
        split: option.splits)
next
  case (cr_timedout oc given out e tv cv t oc' outs)
  show ?case
  proof (cases oc)
    case (Some c)
    obtain c' o1 where pr: "ac_timedout e tv t c = (c', o1)" by (metis prod.exhaust)
    then have "outs = o1 \<and> oc' = (if ac_empty c' then None else Some c') \<or> outs = [] \<and> oc' = oc"
      using cr_timedout.hyps(2) Some by (auto simp: handle_append_entries_cache_timedout_def split: if_splits)
    moreover have "ac_inv cap c'" "mset (taken_over o1) + mset (rpc_queue c') = mset (rpc_queue c)"
      using ac_timedout_keeps [OF _ pr] cr_timedout.IH Some by (auto simp: cache_inv_def)
    ultimately show ?thesis
      using cr_timedout.IH Some cached_empty [of cap c'] by (auto simp: cache_inv_def cached_def union_ac)
  qed (use cr_timedout in \<open>auto simp: handle_append_entries_cache_timedout_def\<close>)
qed

text \<open>
  C35: Every out-of-order request that the cache accepted is either still in it or was
  handed on exactly once, to be handled again or to be failed. The cache never holds more
  than \<^verbatim>\<open>FLAGS_raft_max_append_entries_cache_size\<close> requests, and the ones it holds
  cover disjoint ranges of the log.
\<close>

theorem cached_request_handed_on_once:
  assumes "cache_run cap oc given out"
  shows "mset given = mset out + mset (cached oc) \<and> length (cached oc) \<le> cap
    \<and> (\<forall>c. oc = Some c \<longrightarrow> mset (map snd (rpc_map c)) = mset (cached oc)
         \<and> sorted_wrt (\<lambda>p q. rpc_last_index (snd p) \<le> rpc_prev_index (snd q)) (rpc_map c))"
proof -
  have "length (rpc_queue c) \<le> cap" if "oc = Some c" for c
    using cache_run_keeps [OF assms] that mset_eq_length [of "rpc_queue c" "map snd (rpc_map c)"]
    by (simp add: cache_inv_def ac_inv_def)
  then show ?thesis
    using cache_run_keeps [OF assms] by (auto simp: cache_inv_def ac_inv_def cached_def split: option.splits)
qed

theorem cached_request_handed_on_once_witness:
  "let e = calm_env\<lparr>max_append_entries_cache_size := 1\<rparr>;
       m = \<lparr>em_term = 1, em_type = ENTRY_TYPE_DATA, em_peers = [], em_data_len = None, em_old_peers = []\<rparr>;
       req = (\<lambda>k. \<lparr>ae_server_id = Some (PeerId 1 8000 0), ae_term = 1, ae_prev_log_term = 1,
                   ae_prev_log_index = k, ae_entries = [m], ae_committed_index = 0, ae_attachment = []\<rparr>);
       rpc = (\<lambda>i k. \<lparr>rpc_id = i, rpc_request = req k, receive_time_ms = 5000\<rparr>);
       oc1 = fst (snd (handle_out_of_order_append_entries e 11 (req 5) 3 (None, 0)));
       oc2 = fst (snd (handle_out_of_order_append_entries e 12 (req 9) 3 oc1))
   in cached (fst oc2) = [rpc 11 5]
      \<and> mset [rpc 11 5, rpc 12 9] = mset [rpc 12 9] + mset (cached (fst oc2)) \<and> length (cached (fst oc2)) \<le> 1"
proof -
  let ?e = "calm_env\<lparr>max_append_entries_cache_size := 1\<rparr>"
  let ?m = "\<lparr>em_term = 1, em_type = ENTRY_TYPE_DATA, em_peers = [], em_data_len = None, em_old_peers = []\<rparr>"
  let ?req = "\<lambda>k. \<lparr>ae_server_id = Some (PeerId 1 8000 0), ae_term = 1, ae_prev_log_term = 1,
                   ae_prev_log_index = k, ae_entries = [?m], ae_committed_index = 0, ae_attachment = []\<rparr>"
  let ?rpc = "\<lambda>i k. \<lparr>rpc_id = i, rpc_request = ?req k, receive_time_ms = 5000\<rparr>"
  let ?c = "\<lparr>rpc_queue = [?rpc 11 5], rpc_map = [(5, ?rpc 11 5)], ac_timer = True,
      cache_version = 0, timer_version = 1\<rparr>"
  have h1: "handle_out_of_order_append_entries ?e 11 (?req 5) 3 (None, 0)
      = (True, (Some ?c, 1), [CacheTimer 1 0 5000])" by code_simp
  have h2: "handle_out_of_order_append_entries ?e 12 (?req 9) 3 (Some ?c, 1)
      = (True, (Some ?c, 1), [HandleFromCache [?rpc 12 9]])" by code_simp
  have r1: "cache_run 1 (Some ?c) [?rpc 11 5] []"
    using cr_out_of_order [OF cr_start _ h1] by (simp add: calm_env_def)
  have run: "cache_run 1 (Some ?c) [?rpc 11 5, ?rpc 12 9] [?rpc 12 9]"
    using cr_out_of_order [OF r1 _ h2] by (simp add: calm_env_def taken_over_def)
  show ?thesis
    using cached_request_handed_on_once [OF run] unfolding Let_def h1 snd_conv fst_conv h2
    by (simp add: cached_def)
qed

end
