(* ===== verification/Raft_Node.thy ===== *)
theory Raft_Node
  imports Raft_Append_Cache
begin

text \<open>
  \<^verbatim>\<open>class NodeImpl\<close> of \<^verbatim>\<open>raft/braft/node.{h,cpp}\<close>, first part: the state of a node, the
  ballots of votes and pre-votes, the context of a configuration change, stepping down and
  taking over the leadership.

  A node contains its log manager and its ballot box as they are modelled in
  \<open>Raft_Log_Manager\<close> and \<open>Raft_Ballot_Box\<close>; the storage behind the log is the parameter
  \<open>ops\<close>. What a node tells components that are not modelled (timers, replicators, the
  caller of the state machine, RPC channels, closures of users) is appended to \<open>nd_calls\<close>.
  Where the code gives up the node's mutex to ask the log manager for its last id, the
  operation is split in two: the first half leaves an entry in \<open>nd_paused\<close>, the second half
  takes it up again with the id that was read, and other operations may come in between.
\<close>

subsection \<open>State\<close>

datatype ctx_kind = VoteCtx | PreVoteCtx

text \<open>\<^verbatim>\<open>class VoteBallotCtx\<close>. \<open>vc_timer\<close> is the version the pending timer was started with.\<close>

record vote_ctx =
  vc_timer :: "int option"
  vc_ballot :: ballot
  vc_version :: int
  vc_triggered :: bool
  vc_reserved_peers :: "peer_id fset"
  vc_disrupted_leader :: "peer_id \<times> int"
  vc_last_log_id :: log_id

definition ballot_new :: ballot where
  "ballot_new = \<lparr>b_peers = [], b_quorum = 0, b_old_peers = [], b_old_quorum = 0\<rparr>"

definition vote_ctx_new :: vote_ctx where
  "vote_ctx_new = \<lparr>vc_timer = None, vc_ballot = ballot_new, vc_version = 0, vc_triggered = False,
     vc_reserved_peers = {||}, vc_disrupted_leader = (empty_peer, -1), vc_last_log_id = LogId 0 0\<rparr>"

datatype stage = STAGE_NONE | STAGE_CATCHING_UP | STAGE_JOINT | STAGE_STABLE

record 'c conf_ctx =
  cc_stage :: stage
  cc_nchanges :: nat
  cc_version :: int
  cc_new_peers :: "peer_id fset"
  cc_old_peers :: "peer_id fset"
  cc_adding_peers :: "peer_id fset"
  cc_done :: "'c option"

definition conf_ctx_new :: "'c conf_ctx" where
  "conf_ctx_new = \<lparr>cc_stage = STAGE_NONE, cc_nchanges = 0, cc_version = 0, cc_new_peers = {||},
     cc_old_peers = {||}, cc_adding_peers = {||}, cc_done = None\<rparr>"

text \<open>The closures of the ballot box, and those the node hands to its log manager.\<close>

datatype 'c node_closure =
  UserClosure 'c
| ConfigurationChangeDone int bool int

datatype stable_done =
  LeaderStable int nat
| FollowerStable nat append_request int

datatype timer = ElectionTimer | VoteTimer | StepdownTimer | SnapshotTimer

datatype 'c node_call =
  StartTimer timer
| StopTimer timer
| DestroyTimer timer
| ResetElectionTimer int
| FsmOnLeaderStart int int
| UserFsmOnLeaderStart int
| FsmOnLeaderStop int
| FsmOnStopFollowing peer_id int int
| FsmOnStartFollowing peer_id int int
| FsmOnError int
| FsmShutdown
| RunClosure 'c int
| AddReplicator peer_id
| StopReplicator peer_id
| StopAllReplicators
| StopAllAndWakeCandidate
| ResetReplicatorTerm int
| ResetHeartbeat int int
| WaitCaughtup peer_id int int
| StopTransferLeadership peer_id
| ChangeReplicatorReadonly peer_id bool
| InterruptDownloadingSnapshot int
| SnapshotExecutorShutdown
| DoSnapshot "'c option"
| SendPreVote peer_id vote_request int int
| SendRequestVote peer_id vote_request int int
| CacheOutput cache_output
| LogManagerEvent lm_event
| Committed int
| RemoveFromNodeManager

text \<open>Operations that wait for the last log id outside the mutex.\<close>

datatype paused =
  PreVotePaused int bool
| ElectSelfPaused int
| PreVoteRequestPaused nat vote_request
| RequestVotePaused nat vote_request peer_id int

record ('s, 'c) node =
  nd_state :: state
  current_term :: int
  leader_id :: peer_id
  voted_id :: peer_id
  vote_ctx :: vote_ctx
  pre_vote_ctx :: vote_ctx
  nd_conf :: conf_entry
  server_id :: peer_id
  opt_election_timeout_ms :: int
  opt_max_clock_drift_ms :: int
  conf_ctx :: "'c conf_ctx"
  meta_storage :: "int \<times> peer_id"
  nd_lm :: "'s log_manager"
  nd_box :: "'c node_closure ballot_box"
  vote_triggered :: bool
  stop_transfer_arg :: "(int \<times> peer_id) option"
  shutdown_continuations :: "'c list"
  append_entries_cache :: "append_cache option"
  append_entries_cache_version :: int
  node_readonly :: bool
  majority_nodes_readonly :: bool
  nd_leader_lease :: leader_lease
  nd_follower_lease :: follower_lease
  grant_timers :: "(ctx_kind \<times> int) list"
  nd_paused :: "paused list"
  stable_closures :: "(nat \<times> stable_done) list"
  next_closure :: nat
  nd_calls :: "'c node_call list"

definition call :: "'c node_call \<Rightarrow> ('s, 'c) node \<Rightarrow> ('s, 'c) node" where
  "call c n = n\<lparr>nd_calls := nd_calls n @ [c]\<rparr>"

definition calls :: "'c node_call list \<Rightarrow> ('s, 'c) node \<Rightarrow> ('s, 'c) node" where
  "calls cs n = n\<lparr>nd_calls := nd_calls n @ cs\<rparr>"

definition pause :: "paused \<Rightarrow> ('s, 'c) node \<Rightarrow> ('s, 'c) node" where
  "pause p n = n\<lparr>nd_paused := nd_paused n @ [p]\<rparr>"

text \<open>\<^verbatim>\<open>std::set\<close> iterates in ascending order.\<close>

abbreviation in_order :: "peer_id fset \<Rightarrow> peer_id list" where
  "in_order \<equiv> sorted_list_of_fset"

subsection \<open>Ballots of votes and pre-votes\<close>

definition get_ctx :: "ctx_kind \<Rightarrow> ('s, 'c) node \<Rightarrow> vote_ctx" where
  "get_ctx k n = (case k of VoteCtx \<Rightarrow> vote_ctx n | PreVoteCtx \<Rightarrow> pre_vote_ctx n)"

definition upd_ctx :: "ctx_kind \<Rightarrow> (vote_ctx \<Rightarrow> vote_ctx) \<Rightarrow> ('s, 'c) node \<Rightarrow> ('s, 'c) node" where
  "upd_ctx k f n = (case k of VoteCtx \<Rightarrow> n\<lparr>vote_ctx := f (vote_ctx n)\<rparr>
                    | PreVoteCtx \<Rightarrow> n\<lparr>pre_vote_ctx := f (pre_vote_ctx n)\<rparr>)"

definition vc_grant :: "ctx_kind \<Rightarrow> peer_id \<Rightarrow> ('s, 'c) node \<Rightarrow> ('s, 'c) node" where
  "vc_grant k p = upd_ctx k (\<lambda>c. c\<lparr>vc_ballot := grant_no_hint p (vc_ballot c)\<rparr>)"

definition vc_granted :: "ctx_kind \<Rightarrow> ('s, 'c) node \<Rightarrow> bool" where
  "vc_granted k n \<longleftrightarrow> granted (vc_ballot (get_ctx k n))"

definition start_grant_self_timer :: "env \<Rightarrow> ctx_kind \<Rightarrow> ('s, 'c) node \<Rightarrow> ('s, 'c) node" where
  "start_grant_self_timer e k n =
     (if timer_add_ok e
      then let v = vc_version (get_ctx k n)
           in upd_ctx k (\<lambda>c. c\<lparr>vc_timer := Some v\<rparr>) (n\<lparr>grant_timers := grant_timers n @ [(k, v)]\<rparr>)
      else n)"

text \<open>A timer can be deleted only while it has not fired.\<close>

definition stop_grant_self_timer :: "env \<Rightarrow> ctx_kind \<Rightarrow> ('s, 'c) node \<Rightarrow> ('s, 'c) node" where
  "stop_grant_self_timer e k n =
     (case vc_timer (get_ctx k n) of
        None \<Rightarrow> n
      | Some v \<Rightarrow>
          if timer_del_ok e \<and> (k, v) \<in> set (grant_timers n)
          then upd_ctx k (\<lambda>c. c\<lparr>vc_timer := None\<rparr>) (n\<lparr>grant_timers := remove1 (k, v) (grant_timers n)\<rparr>)
          else n)"

definition vc_reset :: "env \<Rightarrow> ctx_kind \<Rightarrow> ('s, 'c) node \<Rightarrow> ('s, 'c) node" where
  "vc_reset e k n =
     upd_ctx k (\<lambda>c. c\<lparr>vc_version := vc_version c + 1, vc_triggered := False,
                      vc_last_log_id := LogId 0 0, vc_disrupted_leader := (empty_peer, -1),
                      vc_reserved_peers := {||}\<rparr>)
       (stop_grant_self_timer e k n)"

definition vc_init :: "env \<Rightarrow> ctx_kind \<Rightarrow> bool \<Rightarrow> ('s, 'c) node \<Rightarrow> ('s, 'c) node" where
  "vc_init e k triggered n =
     upd_ctx k (\<lambda>c. c\<lparr>vc_ballot := ballot_init (ce_conf (nd_conf n))
                        (if ce_stable (nd_conf n) then None else Some (ce_old_conf (nd_conf n))),
                      vc_triggered := triggered\<rparr>)
       (vc_reset e k n)"

definition vc_reserve :: "ctx_kind \<Rightarrow> peer_id \<Rightarrow> ('s, 'c) node \<Rightarrow> ('s, 'c) node" where
  "vc_reserve k p = upd_ctx k (\<lambda>c. c\<lparr>vc_reserved_peers := finsert p (vc_reserved_peers c)\<rparr>)"

definition vc_set_disrupted_leader ::
  "ctx_kind \<Rightarrow> peer_id \<times> int \<Rightarrow> ('s, 'c) node \<Rightarrow> ('s, 'c) node" where
  "vc_set_disrupted_leader k d = upd_ctx k (\<lambda>c. c\<lparr>vc_disrupted_leader := d\<rparr>)"

definition vc_pop_grantable_peers ::
  "ctx_kind \<Rightarrow> ('s, 'c) node \<Rightarrow> peer_id fset \<times> ('s, 'c) node" where
  "vc_pop_grantable_peers k n =
     (if snd (vc_disrupted_leader (get_ctx k n)) = -1 then ({||}, n)
      else (vc_reserved_peers (get_ctx k n), upd_ctx k (\<lambda>c. c\<lparr>vc_reserved_peers := {||}\<rparr>) n))"

definition vc_set_last_log_id :: "ctx_kind \<Rightarrow> log_id \<Rightarrow> ('s, 'c) node \<Rightarrow> ('s, 'c) node" where
  "vc_set_last_log_id k i = upd_ctx k (\<lambda>c. c\<lparr>vc_last_log_id := i\<rparr>)"

subsection \<open>Storage of term and vote\<close>

definition set_term_and_votedfor ::
  "env \<Rightarrow> int \<Rightarrow> peer_id \<Rightarrow> ('s, 'c) node \<Rightarrow> bool \<times> ('s, 'c) node" where
  "set_term_and_votedfor e t v n =
     (if meta_store_ok e t v then (True, n\<lparr>meta_storage := (t, v)\<rparr>) else (False, n))"

subsection \<open>Readonly mode\<close>

definition check_majority_nodes_readonly_of ::
  "env \<Rightarrow> configuration \<Rightarrow> ('s, 'c) node \<Rightarrow> ('s, 'c) node" where
  "check_majority_nodes_readonly_of e conf n =
     (let peers = conf_list_peers conf;
          readonly_nodes = length (filter (\<lambda>p. if p = server_id n then node_readonly n
                                               else replicator_readonly e p) peers);
          writable_nodes = length peers - readonly_nodes
      in n\<lparr>majority_nodes_readonly := \<not> writable_nodes \<ge> length peers div 2 + 1\<rparr>)"

definition check_majority_nodes_readonly :: "env \<Rightarrow> ('s, 'c) node \<Rightarrow> ('s, 'c) node" where
  "check_majority_nodes_readonly e n =
     (let n = check_majority_nodes_readonly_of e (ce_conf (nd_conf n)) n
      in if ce_old_conf (nd_conf n) \<noteq> {||}
         then check_majority_nodes_readonly_of e (ce_old_conf (nd_conf n)) n else n)"

subsection \<open>Resetting a configuration change\<close>

definition stop_replicator :: "peer_id fset \<Rightarrow> peer_id fset \<Rightarrow> ('s, 'c) node \<Rightarrow> ('s, 'c) node" where
  "stop_replicator keep drp n =
     calls (map StopReplicator (filter (\<lambda>p. p |\<notin>| keep \<and> p \<noteq> server_id n) (in_order drp))) n"

definition cc_is_busy :: "('s, 'c) node \<Rightarrow> bool" where
  "cc_is_busy n \<longleftrightarrow> cc_stage (conf_ctx n) \<noteq> STAGE_NONE"

text \<open>The status is absent (\<open>None\<close>), fine (\<open>Some 0\<close>) or an error.\<close>

definition cc_reset :: "env \<Rightarrow> int option \<Rightarrow> ('s, 'c) node \<Rightarrow> ('s, 'c) node" where
  "cc_reset e st n =
     (if cc_stage (conf_ctx n) = STAGE_NONE then n
      else
        let n = (if st = Some 0
                 then stop_replicator (cc_new_peers (conf_ctx n)) (cc_old_peers (conf_ctx n)) n
                 else stop_replicator (cc_old_peers (conf_ctx n)) (cc_new_peers (conf_ctx n)) n);
            n = n\<lparr>conf_ctx := (conf_ctx n)\<lparr>cc_new_peers := {||}, cc_old_peers := {||},
                    cc_adding_peers := {||}, cc_version := cc_version (conf_ctx n) + 1,
                    cc_stage := STAGE_NONE, cc_nchanges := 0\<rparr>\<rparr>;
            n = check_majority_nodes_readonly e n
        in case cc_done (conf_ctx n) of
             None \<Rightarrow> n
           | Some c \<Rightarrow>
               (call (RunClosure c (case st of None \<Rightarrow> EPERM | Some s \<Rightarrow> s)) n)
                 \<lparr>conf_ctx := (conf_ctx n)\<lparr>cc_done := None\<rparr>\<rparr>)"

subsection \<open>Stepping down\<close>

definition reset_leader_id :: "env \<Rightarrow> peer_id \<Rightarrow> int \<Rightarrow> ('s, 'c) node \<Rightarrow> ('s, 'c) node" where
  "reset_leader_id e new_leader_id status n =
     (if peer_is_empty new_leader_id
      then let n = (if \<not> peer_is_empty (leader_id n) \<and> nd_state n > STATE_TRANSFERRING
                    then call (FsmOnStopFollowing (leader_id n) (current_term n) status) n else n)
           in n\<lparr>leader_id := empty_peer\<rparr>
      else let n = (if peer_is_empty (leader_id n)
                    then call (FsmOnStartFollowing new_leader_id (current_term n) status)
                           (vc_reset e PreVoteCtx n)
                    else n)
           in n\<lparr>leader_id := new_leader_id\<rparr>)"

text \<open>A pending closure of a user is run with an error; that of a configuration change does
  nothing then.\<close>

definition failed_calls :: "('c node_closure \<times> int) list \<Rightarrow> 'c node_call list" where
  "failed_calls cs =
     List.map_filter (\<lambda>(c, s). case c of UserClosure u \<Rightarrow> Some (RunClosure u s)
                               | ConfigurationChangeDone _ _ _ \<Rightarrow> None) cs"

definition clear_cache :: "env \<Rightarrow> ('s, 'c) node \<Rightarrow> ('s, 'c) node" where
  "clear_cache e n =
     (let (oc, outs) = clear_append_entries_cache e (append_entries_cache n)
      in calls (map CacheOutput outs) (n\<lparr>append_entries_cache := oc\<rparr>))"

definition leave_state :: "env \<Rightarrow> int \<Rightarrow> ('s, 'c) node \<Rightarrow> ('s, 'c) node" where
  "leave_state e status n =
     (if nd_state n = STATE_CANDIDATE then vc_reset e VoteCtx (call (StopTimer VoteTimer) n)
      else if nd_state n = STATE_FOLLOWER then vc_reset e PreVoteCtx n
      else if nd_state n \<le> STATE_TRANSFERRING
      then let (box, failed) = bb_clear_pending_tasks (nd_box n);
               n = calls (StopTimer StepdownTimer # failed_calls failed) (n\<lparr>nd_box := box\<rparr>)
           in if nd_state n = STATE_LEADER
              then call (FsmOnLeaderStop status)
                     (n\<lparr>nd_leader_lease := ll_on_leader_stop (nd_leader_lease n)\<rparr>)
              else n
      else n)"

definition raise_term :: "env \<Rightarrow> int \<Rightarrow> ('s, 'c) node \<Rightarrow> ('s, 'c) node" where
  "raise_term e t n =
     (if t > current_term n
      then snd (set_term_and_votedfor e t empty_peer (n\<lparr>current_term := t, voted_id := empty_peer\<rparr>))
      else n)"

definition step_down :: "env \<Rightarrow> int \<Rightarrow> bool \<Rightarrow> int \<Rightarrow> ('s, 'c) node \<Rightarrow> ('s, 'c) node" where
  "step_down e t wakeup_a_candidate status n =
     (if \<not> is_active_state (nd_state n) then n
      else
        let n = leave_state e status n;
            n = reset_leader_id e empty_peer status n;
            n = n\<lparr>nd_state := STATE_FOLLOWER\<rparr>;
            n = cc_reset e None n;
            n = n\<lparr>majority_nodes_readonly := False\<rparr>;
            n = clear_cache e n;
            n = (if has_snapshot_executor e then call (InterruptDownloadingSnapshot t) n else n);
            n = raise_term e t n;
            n = call (if wakeup_a_candidate then StopAllAndWakeCandidate else StopAllReplicators) n;
            n = n\<lparr>stop_transfer_arg := None\<rparr>
        in call (StartTimer ElectionTimer) n)"

definition check_step_down :: "env \<Rightarrow> int \<Rightarrow> peer_id \<Rightarrow> ('s, 'c) node \<Rightarrow> ('s, 'c) node" where
  "check_step_down e request_term server n =
     (let (status, n) =
            (if request_term > current_term n \<or> nd_state n \<noteq> STATE_FOLLOWER
                \<or> peer_is_empty (leader_id n)
             then (ENEWLEADER, step_down e request_term False ENEWLEADER n) else (0, n))
      in if peer_is_empty (leader_id n) then reset_leader_id e server status n else n)"

subsection \<open>Appending to the log\<close>

text \<open>
  The log manager knows the closure of an append by a number. Afterwards the node takes
  over the newest configuration of the log.
\<close>

definition append_to_log ::
  "'s log_storage_ops \<Rightarrow> stable_done \<Rightarrow> log_entry list \<Rightarrow> ('s, 'c) node \<Rightarrow> ('s, 'c) node" where
  "append_to_log ops d entries n =
     (let (lm, evs) = lm_append_entries ops (next_closure n) entries (nd_lm n)
      in calls (map LogManagerEvent evs)
           (n\<lparr>nd_lm := lm, stable_closures := stable_closures n @ [(next_closure n, d)],
              next_closure := next_closure n + 1,
              nd_conf := snd (check_and_set_configuration (nd_conf n) lm)\<rparr>))"

definition unsafe_apply_configuration ::
  "'s log_storage_ops \<Rightarrow> configuration \<Rightarrow> configuration option \<Rightarrow> bool \<Rightarrow> ('s, 'c) node \<Rightarrow> ('s, 'c) node" where
  "unsafe_apply_configuration ops new_conf old_conf leader_start n =
     (let entry = \<lparr>le_type = ENTRY_TYPE_CONFIGURATION, le_id = LogId 0 (current_term n),
                   le_peers = Some (conf_list_peers new_conf),
                   le_old_peers = map_option conf_list_peers old_conf, le_data = []\<rparr>;
          c = ConfigurationChangeDone (current_term n) leader_start (ll_lease_epoch (nd_leader_lease n));
          n = n\<lparr>nd_box := snd (bb_append_pending_task new_conf old_conf (Some c) (nd_box n))\<rparr>
      in append_to_log ops (LeaderStable (last_log_index (nd_lm n) + 1) 1) [entry] n)"

subsection \<open>Configuration changes\<close>

definition cc_flush ::
  "'s log_storage_ops \<Rightarrow> configuration \<Rightarrow> configuration \<Rightarrow> ('s, 'c) node \<Rightarrow> ('s, 'c) node" where
  "cc_flush ops conf old_conf n =
     (let cc = (conf_ctx n)\<lparr>cc_new_peers := conf\<rparr>;
          cc = (if old_conf = {||} then cc\<lparr>cc_stage := STAGE_STABLE, cc_old_peers := conf\<rparr>
                else cc\<lparr>cc_stage := STAGE_JOINT, cc_old_peers := old_conf\<rparr>)
      in unsafe_apply_configuration ops conf (if old_conf = {||} then None else Some old_conf) True
           (n\<lparr>conf_ctx := cc\<rparr>))"

definition cc_set_stage :: "stage \<Rightarrow> ('s, 'c) node \<Rightarrow> ('s, 'c) node" where
  "cc_set_stage s n = n\<lparr>conf_ctx := (conf_ctx n)\<lparr>cc_stage := s\<rparr>\<rparr>"

definition cc_next_stage :: "env \<Rightarrow> 's log_storage_ops \<Rightarrow> ('s, 'c) node \<Rightarrow> ('s, 'c) node" where
  "cc_next_stage e ops n =
     (let cc = conf_ctx n;
          to_stable = unsafe_apply_configuration ops (cc_new_peers cc) None False (cc_set_stage STAGE_STABLE n)
      in case cc_stage cc of
           STAGE_CATCHING_UP \<Rightarrow>
             if cc_nchanges cc > 1
             then unsafe_apply_configuration ops (cc_new_peers cc) (Some (cc_old_peers cc)) False
                    (cc_set_stage STAGE_JOINT n)
             else to_stable
         | STAGE_JOINT \<Rightarrow> to_stable
         | STAGE_STABLE \<Rightarrow>
             (let should_step_down = server_id n |\<notin>| cc_new_peers cc;
                  n = cc_reset e (Some 0) n
              in if should_step_down then step_down e (current_term n) True ELEADERREMOVED n else n)
         | STAGE_NONE \<Rightarrow> n)"

definition cc_on_caughtup ::
  "env \<Rightarrow> 's log_storage_ops \<Rightarrow> int \<Rightarrow> peer_id \<Rightarrow> bool \<Rightarrow> ('s, 'c) node \<Rightarrow> ('s, 'c) node" where
  "cc_on_caughtup e ops version peer succ n =
     (if version \<noteq> cc_version (conf_ctx n) then n
      else if succ
      then let n = n\<lparr>conf_ctx := (conf_ctx n)\<lparr>cc_adding_peers := cc_adding_peers (conf_ctx n) |-| {|peer|}\<rparr>\<rparr>
           in if cc_adding_peers (conf_ctx n) = {||} then cc_next_stage e ops n else n
      else cc_reset e (Some ECATCHUP) n)"

fun start_catchup ::
  "env \<Rightarrow> 's log_storage_ops \<Rightarrow> peer_id list \<Rightarrow> ('s, 'c) node \<Rightarrow> ('s, 'c) node" where
  "start_catchup e ops [] n = n"
| "start_catchup e ops (p # ps) n =
     (let n = call (AddReplicator p) n
      in if add_replicator_rc e p \<noteq> 0 then cc_on_caughtup e ops (cc_version (conf_ctx n)) p False n
         else
           let n = call (WaitCaughtup p (current_term n) (cc_version (conf_ctx n))) n
           in if wait_caughtup_rc e p \<noteq> 0 then cc_on_caughtup e ops (cc_version (conf_ctx n)) p False n
              else start_catchup e ops ps n)"

definition cc_start ::
  "env \<Rightarrow> 's log_storage_ops \<Rightarrow> configuration \<Rightarrow> configuration \<Rightarrow> 'c option \<Rightarrow> ('s, 'c) node \<Rightarrow> ('s, 'c) node" where
  "cc_start e ops old_conf new_conf d n =
     (let (adding, removing) = conf_diffs new_conf old_conf;
          n = n\<lparr>conf_ctx := (conf_ctx n)\<lparr>cc_done := d, cc_stage := STAGE_CATCHING_UP,
                  cc_old_peers := old_conf, cc_new_peers := new_conf,
                  cc_nchanges := fcard adding + fcard removing\<rparr>\<rparr>
      in if adding = {||} then cc_next_stage e ops n
         else start_catchup e ops (in_order adding)
                (n\<lparr>conf_ctx := (conf_ctx n)\<lparr>cc_adding_peers := adding\<rparr>\<rparr>))"

subsection \<open>Taking over\<close>

definition become_leader :: "env \<Rightarrow> 's log_storage_ops \<Rightarrow> ('s, 'c) node \<Rightarrow> ('s, 'c) node" where
  "become_leader e ops n =
     (let n = vc_reset e VoteCtx (call (StopTimer VoteTimer) n);
          n = n\<lparr>nd_state := STATE_LEADER, leader_id := server_id n\<rparr>;
          n = call (ResetReplicatorTerm (current_term n)) n;
          n = n\<lparr>nd_follower_lease := fl_reset (nd_follower_lease n),
                nd_leader_lease := ll_on_leader_start (current_term n) (nd_leader_lease n)\<rparr>;
          n = calls (map AddReplicator
                 (filter (\<lambda>p. p \<noteq> server_id n) (in_order (ce_list_peers (nd_conf n))))) n;
          n = n\<lparr>nd_box := snd (bb_reset_pending_index (last_log_index (nd_lm n) + 1) (nd_box n))\<rparr>;
          n = cc_flush ops (ce_conf (nd_conf n)) (ce_old_conf (nd_conf n)) n
      in call (StartTimer StepdownTimer) n)"

definition elect_self_begin :: "env \<Rightarrow> bool \<Rightarrow> ('s, 'c) node \<Rightarrow> ('s, 'c) node" where
  "elect_self_begin e old_leader_stepped_down n =
     (if \<not> ce_contains (nd_conf n) (server_id n) then n
      else
        let n = (if nd_state n = STATE_FOLLOWER then call (StopTimer ElectionTimer) n else n);
            old_leader = leader_id n; leader_term = current_term n;
            n = reset_leader_id e empty_peer ERAFTTIMEDOUT n;
            n = n\<lparr>nd_state := STATE_CANDIDATE, current_term := current_term n + 1,
                  voted_id := server_id n\<rparr>;
            n = call (StartTimer VoteTimer) n;
            n = vc_reset e PreVoteCtx n;
            n = vc_init e VoteCtx False n;
            n = (if old_leader_stepped_down
                 then (vc_set_disrupted_leader VoteCtx (old_leader, leader_term) n)
                        \<lparr>nd_follower_lease := fl_expire (nd_follower_lease n)\<rparr>
                 else n)
        in pause (ElectSelfPaused (current_term n)) n)"

definition grant_self :: "env \<Rightarrow> 's log_storage_ops \<Rightarrow> ctx_kind \<Rightarrow> ('s, 'c) node \<Rightarrow> ('s, 'c) node" where
  "grant_self e ops k n =
     (if fl_votable_time_from_now (enable_leader_lease e) (now_ms e) (nd_follower_lease n) = 0
      then let n = vc_grant k (server_id n) n
           in if \<not> vc_granted k n then n
              else case k of PreVoteCtx \<Rightarrow> elect_self_begin e False n | VoteCtx \<Rightarrow> become_leader e ops n
      else start_grant_self_timer e k n)"

definition request_peers_to_vote ::
  "env \<Rightarrow> peer_id fset \<Rightarrow> peer_id \<times> int \<Rightarrow> ('s, 'c) node \<Rightarrow> ('s, 'c) node" where
  "request_peers_to_vote e peers disrupted_leader n =
     calls (map (\<lambda>p. SendRequestVote p
         \<lparr>rv_server_id = Some (server_id n), rv_term = current_term n,
          rv_last_log_term = log_term (vc_last_log_id (vote_ctx n)),
          rv_last_log_index = index (vc_last_log_id (vote_ctx n)),
          rv_disrupted_leader =
            (if fst disrupted_leader \<noteq> empty_peer
             then Some (Some (fst disrupted_leader), snd disrupted_leader) else None)\<rparr>
         (current_term n) (vc_version (vote_ctx n)))
       (filter (\<lambda>p. p \<noteq> server_id n \<and> channel_init_ok e p) (in_order peers))) n"

definition elect_self_end ::
  "env \<Rightarrow> 's log_storage_ops \<Rightarrow> log_id \<Rightarrow> int \<Rightarrow> ('s, 'c) node \<Rightarrow> ('s, 'c) node" where
  "elect_self_end e ops last_log_id old_term n =
     (if old_term \<noteq> current_term n then n
      else
        let n = vc_set_last_log_id VoteCtx last_log_id n;
            n = request_peers_to_vote e (ce_list_peers (nd_conf n)) (vc_disrupted_leader (vote_ctx n)) n;
            (ok, n) = set_term_and_votedfor e (current_term n) (server_id n) n
        in if \<not> ok then n\<lparr>voted_id := empty_peer\<rparr> else grant_self e ops VoteCtx n)"

definition pre_vote_begin :: "env \<Rightarrow> bool \<Rightarrow> ('s, 'c) node \<Rightarrow> ('s, 'c) node" where
  "pre_vote_begin e triggered n =
     (if has_snapshot_executor e \<and> is_installing_snapshot e then n
      else if \<not> ce_contains (nd_conf n) (server_id n) then n
      else pause (PreVotePaused (current_term n) triggered) n)"

definition pre_vote_end ::
  "env \<Rightarrow> 's log_storage_ops \<Rightarrow> log_id \<Rightarrow> int \<Rightarrow> bool \<Rightarrow> ('s, 'c) node \<Rightarrow> ('s, 'c) node" where
  "pre_vote_end e ops last_log_id old_term triggered n =
     (if old_term \<noteq> current_term n then n
      else
        let n = vc_init e PreVoteCtx triggered n;
            n = calls (map (\<lambda>p. SendPreVote p
                  \<lparr>rv_server_id = Some (server_id n), rv_term = current_term n + 1,
                   rv_last_log_term = log_term last_log_id, rv_last_log_index = index last_log_id,
                   rv_disrupted_leader = None\<rparr>
                  (current_term n) (vc_version (pre_vote_ctx n)))
                (filter (\<lambda>p. p \<noteq> server_id n \<and> channel_init_ok e p) (in_order (ce_list_peers (nd_conf n))))) n
        in grant_self e ops PreVoteCtx n)"

end
