(* ===== verification/Raft_Node_Vote.thy ===== *)
theory Raft_Node_Vote
  imports Raft_Node
begin

text \<open>
  \<^verbatim>\<open>class NodeImpl\<close>, second part: the handlers of votes and pre-votes, of the election
  timers, of the transfer of leadership and of errors and shutdown.

  A handler of an RPC returns its status code with the response, or nothing while it waits
  for the last log id; the number \<open>i\<close> stands for the RPC.
\<close>

subsection \<open>Timers\<close>

definition handle_election_timeout :: "env \<Rightarrow> ('s, 'c) node \<Rightarrow> ('s, 'c) node" where
  "handle_election_timeout e n =
     (if nd_state n \<noteq> STATE_FOLLOWER then n
      else if \<not> vote_triggered n \<and> \<not> fl_expired (now_ms e) (nd_follower_lease n) then n
      else let triggered = vote_triggered n;
               n = n\<lparr>vote_triggered := False\<rparr>;
               n = reset_leader_id e empty_peer ERAFTTIMEDOUT n
           in pre_vote_begin e triggered n)"

definition handle_vote_timeout :: "env \<Rightarrow> ('s, 'c) node \<Rightarrow> ('s, 'c) node" where
  "handle_vote_timeout e n =
     (if nd_state n \<noteq> STATE_CANDIDATE then n
      else if step_down_when_vote_timedout e
      then pre_vote_begin e False (step_down e (current_term n) False ERAFTTIMEDOUT n)
      else elect_self_begin e False n)"

text \<open>The timer of \<open>grant_self\<close> fires.\<close>

definition handle_grant_self_timedout ::
  "env \<Rightarrow> 's log_storage_ops \<Rightarrow> ctx_kind \<Rightarrow> int \<Rightarrow> ('s, 'c) node \<Rightarrow> ('s, 'c) node" where
  "handle_grant_self_timedout e ops k vote_ctx_version n =
     (if \<not> is_active_state (nd_state n) \<or> vc_version (get_ctx k n) \<noteq> vote_ctx_version then n
      else grant_self e ops k n)"

definition check_dead_nodes :: "env \<Rightarrow> configuration \<Rightarrow> ('s, 'c) node \<Rightarrow> ('s, 'c) node" where
  "check_dead_nodes e conf n =
     (let peers = conf_list_peers conf;
          alive_count = length (filter (\<lambda>p. p = server_id n
            \<or> now_ms e - last_rpc_send_timestamp e p \<le> opt_election_timeout_ms n) peers)
      in if alive_count \<ge> length peers div 2 + 1 then n
         else step_down e (current_term n) False ERAFTTIMEDOUT n)"

definition handle_stepdown_timeout :: "env \<Rightarrow> ('s, 'c) node \<Rightarrow> ('s, 'c) node" where
  "handle_stepdown_timeout e n =
     (if nd_state n > STATE_TRANSFERRING then n
      else let n = check_dead_nodes e (ce_conf (nd_conf n)) n
           in if ce_old_conf (nd_conf n) \<noteq> {||} then check_dead_nodes e (ce_old_conf (nd_conf n)) n
              else n)"

subsection \<open>Timeouts as options\<close>

definition heartbeat_timeout :: "env \<Rightarrow> int \<Rightarrow> int" where
  "heartbeat_timeout e election_timeout =
     (let factor = (if election_heartbeat_factor e \<le> 0 then 10 else election_heartbeat_factor e)
      in max (if election_timeout \<ge> 0 then election_timeout div factor else - ((- election_timeout) div factor)) 10)"

definition unsafe_reset_election_timeout_ms ::
  "env \<Rightarrow> int \<Rightarrow> int \<Rightarrow> ('s, 'c) node \<Rightarrow> ('s, 'c) node" where
  "unsafe_reset_election_timeout_ms e election_timeout_ms max_clock_drift_ms n =
     (let n = n\<lparr>opt_election_timeout_ms := election_timeout_ms, opt_max_clock_drift_ms := max_clock_drift_ms\<rparr>;
          n = calls [ResetHeartbeat (heartbeat_timeout e election_timeout_ms) election_timeout_ms,
                     ResetElectionTimer election_timeout_ms] n
      in n\<lparr>nd_leader_lease := ll_reset_election_timeout_ms election_timeout_ms (nd_leader_lease n),
           nd_follower_lease :=
             fl_reset_election_timeout_ms election_timeout_ms max_clock_drift_ms (nd_follower_lease n)\<rparr>)"

definition reset_election_timeout_within ::
  "env \<Rightarrow> int \<Rightarrow> ('s, 'c) node \<Rightarrow> int \<times> ('s, 'c) node" where
  "reset_election_timeout_within e election_timeout_ms n =
     (let max_election_timeout_ms = opt_max_clock_drift_ms n + opt_election_timeout_ms n
      in if election_timeout_ms > max_election_timeout_ms then (EINVAL, n)
         else let election_timeout_ms = min election_timeout_ms max_election_timeout_ms;
                  max_clock_drift_ms = max_election_timeout_ms - election_timeout_ms
              in (0, unsafe_reset_election_timeout_ms e election_timeout_ms max_clock_drift_ms n))"

definition nd_vote :: "env \<Rightarrow> int \<Rightarrow> ('s, 'c) node \<Rightarrow> int \<times> ('s, 'c) node" where
  "nd_vote e election_timeout_ms n =
     (if nd_state n \<noteq> STATE_FOLLOWER then (EPERM, n)
      else let (rc, n) = reset_election_timeout_within e election_timeout_ms n
           in if rc \<noteq> 0 then (rc, n) else (0, n\<lparr>vote_triggered := True\<rparr>))"

definition reset_election_timeout_ms ::
  "env \<Rightarrow> int \<Rightarrow> ('s, 'c) node \<Rightarrow> int \<times> ('s, 'c) node" where
  "reset_election_timeout_ms e election_timeout_ms n = reset_election_timeout_within e election_timeout_ms n"

definition reset_election_timeout_and_drift_ms ::
  "env \<Rightarrow> int \<Rightarrow> int \<Rightarrow> ('s, 'c) node \<Rightarrow> ('s, 'c) node" where
  "reset_election_timeout_and_drift_ms e election_timeout_ms max_clock_drift_ms n =
     unsafe_reset_election_timeout_ms e election_timeout_ms max_clock_drift_ms n"

subsection \<open>Requests for votes\<close>

definition request_last_id :: "vote_request \<Rightarrow> log_id" where
  "request_last_id r = LogId (rv_last_log_index r) (rv_last_log_term r)"

definition pre_vote_response :: "bool \<Rightarrow> bool \<Rightarrow> ('s, 'c) node \<Rightarrow> vote_response" where
  "pre_vote_response grant_it rejected_by_lease n =
     \<lparr>vr_term = current_term n, vr_granted = grant_it, vr_disrupted = (nd_state n = STATE_LEADER),
      vr_previous_term = current_term n, vr_rejected_by_lease = rejected_by_lease\<rparr>"

definition handle_pre_vote_request_begin ::
  "nat \<Rightarrow> vote_request \<Rightarrow> ('s, 'c) node \<Rightarrow> (int \<times> vote_response option) option \<times> ('s, 'c) node" where
  "handle_pre_vote_request_begin i request n =
     (if \<not> is_active_state (nd_state n) then (Some (EINVAL, None), n)
      else if rv_server_id request = None then (Some (EINVAL, None), n)
      else if rv_term request < current_term n
      then (Some (0, Some (pre_vote_response False False n)), n)
      else (None, pause (PreVoteRequestPaused i request) n))"

definition handle_pre_vote_request_end ::
  "env \<Rightarrow> log_id \<Rightarrow> vote_request \<Rightarrow> ('s, 'c) node \<Rightarrow> vote_response" where
  "handle_pre_vote_request_end e last_log_id request n =
     (let votable_time = fl_votable_time_from_now (enable_leader_lease e) (now_ms e) (nd_follower_lease n);
          grantable = (request_last_id request \<ge> last_log_id)
      in pre_vote_response (grantable \<and> votable_time = 0) (grantable \<and> votable_time > 0) n)"

definition vote_reply ::
  "vote_request \<Rightarrow> peer_id \<Rightarrow> bool \<Rightarrow> int \<Rightarrow> bool \<Rightarrow> ('s, 'c) node \<Rightarrow> vote_response" where
  "vote_reply request candidate_id disrupted previous_term rejected_by_lease n =
     \<lparr>vr_term = current_term n,
      vr_granted = (rv_term request = current_term n \<and> voted_id n = candidate_id),
      vr_disrupted = disrupted, vr_previous_term = previous_term,
      vr_rejected_by_lease = rejected_by_lease\<rparr>"

definition expire_for_disrupted :: "vote_request \<Rightarrow> ('s, 'c) node \<Rightarrow> ('s, 'c) node" where
  "expire_for_disrupted request n =
     (case rv_disrupted_leader request of
        Some (Some p, t) \<Rightarrow>
          if nd_state n = STATE_FOLLOWER \<and> current_term n = t \<and> leader_id n = p
          then n\<lparr>nd_follower_lease := fl_expire (nd_follower_lease n)\<rparr> else n
      | _ \<Rightarrow> n)"

definition handle_request_vote_request_begin ::
  "nat \<Rightarrow> vote_request \<Rightarrow> ('s, 'c) node \<Rightarrow> (int \<times> vote_response option) option \<times> ('s, 'c) node" where
  "handle_request_vote_request_begin i request n =
     (if \<not> is_active_state (nd_state n) then (Some (EINVAL, None), n)
      else case rv_server_id request of
        None \<Rightarrow> (Some (EINVAL, None), n)
      | Some candidate_id \<Rightarrow>
          (let n = expire_for_disrupted request n
           in if rv_term request < current_term n
              then (Some (0, Some (vote_reply request candidate_id False (current_term n) False n)), n)
              else (None, pause (RequestVotePaused i request candidate_id (current_term n)) n)))"

definition save_vote :: "env \<Rightarrow> vote_request \<Rightarrow> peer_id \<Rightarrow> ('s, 'c) node \<Rightarrow> ('s, 'c) node" where
  "save_vote e request candidate_id n =
     (let n = step_down e (rv_term request) False EVOTEFORCANDIDATE n;
          n = n\<lparr>voted_id := candidate_id\<rparr>;
          (ok, n) = set_term_and_votedfor e (current_term n) candidate_id n
      in if \<not> ok then n\<lparr>voted_id := empty_peer\<rparr> else n)"

definition handle_request_vote_request_end ::
  "env \<Rightarrow> log_id \<Rightarrow> vote_request \<Rightarrow> peer_id \<Rightarrow> int \<Rightarrow> ('s, 'c) node \<Rightarrow> vote_response \<times> ('s, 'c) node" where
  "handle_request_vote_request_end e last_log_id request candidate_id previous_term n =
     (if previous_term \<noteq> current_term n
      then (vote_reply request candidate_id False previous_term False n, n)
      else
        let log_is_ok = (request_last_id request \<ge> last_log_id);
            votable_time = fl_votable_time_from_now (enable_leader_lease e) (now_ms e) (nd_follower_lease n)
        in if votable_time > 0
           then (vote_reply request candidate_id False previous_term log_is_ok n, n)
           else
             let (disrupted, n) =
                   (if rv_term request > current_term n
                    then (nd_state n \<le> STATE_TRANSFERRING,
                          step_down e (rv_term request) False EHIGHERTERMREQUEST n)
                    else (False, n));
                 n = (if log_is_ok \<and> peer_is_empty (voted_id n)
                      then save_vote e request candidate_id n else n)
             in (vote_reply request candidate_id disrupted previous_term False n, n))"

subsection \<open>Responses to requests for votes\<close>

definition retry_vote_on_reserved_peers :: "env \<Rightarrow> ('s, 'c) node \<Rightarrow> ('s, 'c) node" where
  "retry_vote_on_reserved_peers e n =
     (let (peers, n) = vc_pop_grantable_peers VoteCtx n
      in if peers = {||} then n
         else request_peers_to_vote e peers (vc_disrupted_leader (vote_ctx n)) n)"

definition grant_peer :: "env \<Rightarrow> ctx_kind \<Rightarrow> peer_id \<Rightarrow> ('s, 'c) node \<Rightarrow> ('s, 'c) node" where
  "grant_peer e k peer n =
     (let n = vc_grant k peer n
      in if peer = fl_last_leader (nd_follower_lease n)
         then stop_grant_self_timer e k (vc_grant k (server_id n) n) else n)"

definition handle_request_vote_response ::
  "env \<Rightarrow> 's log_storage_ops \<Rightarrow> peer_id \<Rightarrow> int \<Rightarrow> int \<Rightarrow> vote_response \<Rightarrow> ('s, 'c) node \<Rightarrow> ('s, 'c) node" where
  "handle_request_vote_response e ops peer t ctx_version response n =
     (if ctx_version \<noteq> vc_version (vote_ctx n) then n
      else if nd_state n \<noteq> STATE_CANDIDATE then n
      else if t \<noteq> current_term n then n
      else if vr_term response > current_term n
      then step_down e (vr_term response) False EHIGHERTERMRESPONSE n
      else if \<not> vr_granted response \<and> \<not> vr_rejected_by_lease response then n
      else
        let n = (if vr_disrupted response
                 then vc_set_disrupted_leader VoteCtx (peer, vr_previous_term response) n else n)
        in if vr_granted response
           then let n = grant_peer e VoteCtx peer n
                in if vc_granted VoteCtx n then become_leader e ops n else retry_vote_on_reserved_peers e n
           else retry_vote_on_reserved_peers e (vc_reserve VoteCtx peer n))"

definition handle_pre_vote_response ::
  "env \<Rightarrow> peer_id \<Rightarrow> int \<Rightarrow> int \<Rightarrow> vote_response \<Rightarrow> ('s, 'c) node \<Rightarrow> ('s, 'c) node" where
  "handle_pre_vote_response e peer t ctx_version response n =
     (if ctx_version \<noteq> vc_version (pre_vote_ctx n) then n
      else if nd_state n \<noteq> STATE_FOLLOWER then n
      else if t \<noteq> current_term n then n
      else if vr_term response > current_term n
      then step_down e (vr_term response) False EHIGHERTERMRESPONSE n
      else if \<not> vr_granted response \<and> \<not> vr_rejected_by_lease response then n
      else if vr_rejected_by_lease response \<and> \<not> vc_triggered (pre_vote_ctx n) then n
      else
        let n = (if vr_disrupted response
                 then vc_set_disrupted_leader PreVoteCtx (peer, vr_previous_term response) n else n);
            (peers, n) =
              (if vr_rejected_by_lease response
               then vc_pop_grantable_peers PreVoteCtx (vc_reserve PreVoteCtx peer n)
               else let (peers, n) = vc_pop_grantable_peers PreVoteCtx n in (finsert peer peers, n));
            n = foldl (\<lambda>n p. grant_peer e PreVoteCtx p n) n (in_order peers)
        in if vc_granted PreVoteCtx n then elect_self_begin e False n else n)"

subsection \<open>Transfer of leadership\<close>

record timeout_now_request =
  tn_term :: int
  tn_old_leader_stepped_down :: bool

definition handle_timeout_now_request ::
  "env \<Rightarrow> timeout_now_request \<Rightarrow> ('s, 'c) node \<Rightarrow> (int \<times> bool) \<times> ('s, 'c) node" where
  "handle_timeout_now_request e request n =
     (if tn_term request \<noteq> current_term n
      then let n = (if tn_term request > current_term n
                    then step_down e (tn_term request) False EHIGHERTERMREQUEST n else n)
           in ((current_term n, False), n)
      else if nd_state n \<noteq> STATE_FOLLOWER then ((current_term n, False), n)
      else ((if enable_leader_lease e then current_term n else current_term n + 1, True),
            elect_self_begin e (tn_old_leader_stepped_down request) n))"

definition handle_transfer_timeout :: "int \<Rightarrow> peer_id \<Rightarrow> ('s, 'c) node \<Rightarrow> ('s, 'c) node" where
  "handle_transfer_timeout t peer n =
     (if t \<noteq> current_term n then n
      else let n = call (StopTransferLeadership peer) n
           in if nd_state n \<noteq> STATE_TRANSFERRING then n
              else let n = n\<lparr>nd_leader_lease := ll_on_leader_start t (nd_leader_lease n)\<rparr>;
                       n = call (FsmOnLeaderStart t (ll_lease_epoch (nd_leader_lease n))) n
                   in n\<lparr>nd_state := STATE_LEADER, stop_transfer_arg := None\<rparr>)"

definition transfer_leadership_to :: "env \<Rightarrow> peer_id \<Rightarrow> ('s, 'c) node \<Rightarrow> int \<times> ('s, 'c) node" where
  "transfer_leadership_to e peer n =
     (if nd_state n \<noteq> STATE_LEADER then (if nd_state n = STATE_TRANSFERRING then EBUSY else EPERM, n)
      else if cc_is_busy n then (EBUSY, n)
      else case (if peer = empty_peer then next_candidate e else Some peer) of
        None \<Rightarrow> (-1, n)
      | Some peer_id \<Rightarrow>
          if peer_id = server_id n then (0, n)
          else if \<not> ce_contains (nd_conf n) peer_id then (EINVAL, n)
          else
            let rc = transfer_leadership_rc e peer_id (last_log_index (nd_lm n))
            in if rc \<noteq> 0 then (rc, n)
               else
                 let n = n\<lparr>nd_state := STATE_TRANSFERRING,
                           nd_leader_lease := ll_on_leader_stop (nd_leader_lease n)\<rparr>;
                     n = call (FsmOnLeaderStop ETRANSFERLEADERSHIP) n;
                     n = n\<lparr>stop_transfer_arg := Some (current_term n, peer_id)\<rparr>
                 in if timer_add_ok e then (0, n)
                    else (-1, handle_transfer_timeout (current_term n) peer_id n))"

subsection \<open>Errors and shutdown\<close>

definition increase_term_to :: "env \<Rightarrow> int \<Rightarrow> int \<Rightarrow> ('s, 'c) node \<Rightarrow> int \<times> ('s, 'c) node" where
  "increase_term_to e new_term status n =
     (if new_term \<le> current_term n then (EINVAL, n) else (0, step_down e new_term False status n))"

definition nd_on_error :: "env \<Rightarrow> int \<Rightarrow> ('s, 'c) node \<Rightarrow> ('s, 'c) node" where
  "nd_on_error e err n =
     (let n = call (FsmOnError err) n;
          n = (if nd_state n \<le> STATE_FOLLOWER
               then step_down e (current_term n) (nd_state n = STATE_LEADER) EBADNODE n else n)
      in if nd_state n < STATE_ERROR then n\<lparr>nd_state := STATE_ERROR\<rparr> else n)"

definition nd_shutdown :: "env \<Rightarrow> 'c option \<Rightarrow> ('s, 'c) node \<Rightarrow> ('s, 'c) node" where
  "nd_shutdown e d n =
     (let n = (if nd_state n < STATE_SHUTTING
               then
                 let n = call RemoveFromNodeManager n;
                     n = (if nd_state n \<le> STATE_FOLLOWER
                          then step_down e (current_term n) (nd_state n = STATE_LEADER) ESHUTDOWN n else n);
                     n = n\<lparr>nd_state := STATE_SHUTTING\<rparr>;
                     n = calls (map DestroyTimer [ElectionTimer, VoteTimer, StepdownTimer, SnapshotTimer]) n;
                     (lm, evs) = lm_shutdown (nd_lm n);
                     n = calls (map LogManagerEvent evs) (n\<lparr>nd_lm := lm\<rparr>);
                     n = (if has_snapshot_executor e then call SnapshotExecutorShutdown n else n)
                 in call FsmShutdown n
               else n)
      in case d of
           None \<Rightarrow> n
         | Some c \<Rightarrow> if nd_state n \<noteq> STATE_SHUTDOWN
                     then n\<lparr>shutdown_continuations := shutdown_continuations n @ [c]\<rparr>
                     else call (RunClosure c 0) n)"

definition after_shutdown :: "('s, 'c) node \<Rightarrow> ('s, 'c) node" where
  "after_shutdown n =
     (let saved_done = shutdown_continuations n;
          n = n\<lparr>nd_state := STATE_SHUTDOWN, shutdown_continuations := []\<rparr>
      in calls (map (\<lambda>c. RunClosure c 0) saved_done) n)"

end
