(* ===== verification/Raft_Node_Append.thy ===== *)
theory Raft_Node_Append
  imports Raft_Node_Vote
begin

text \<open>
  \<^verbatim>\<open>class NodeImpl\<close>, third part: tasks of the user, AppendEntries and InstallSnapshot
  requests, the closures of the log manager, configuration changes, leases, readonly mode
  and the start of a node.
\<close>

subsection \<open>Tasks of the user\<close>

record 'c task =
  tk_data :: string
  tk_done :: "'c option"
  tk_expected_term :: int

definition reject_tasks :: "int \<Rightarrow> 'c task list \<Rightarrow> ('s, 'c) node \<Rightarrow> ('s, 'c) node" where
  "reject_tasks st tasks n =
     calls (map (\<lambda>c. RunClosure c st) (List.map_filter tk_done tasks)) n"

fun accept_tasks ::
  "'c task list \<Rightarrow> log_entry list \<Rightarrow> ('s, 'c) node \<Rightarrow> log_entry list \<times> ('s, 'c) node" where
  "accept_tasks [] entries n = (entries, n)"
| "accept_tasks (t # ts) entries n =
     (if tk_expected_term t \<noteq> -1 \<and> tk_expected_term t \<noteq> current_term n
      then accept_tasks ts entries (reject_tasks EPERM [t] n)
      else accept_tasks ts
             (entries @ [\<lparr>le_type = ENTRY_TYPE_DATA, le_id = LogId 0 (current_term n), le_peers = None,
                          le_old_peers = None, le_data = tk_data t\<rparr>])
             (n\<lparr>nd_box := snd (bb_append_pending_task (ce_conf (nd_conf n))
                  (if ce_stable (nd_conf n) then None else Some (ce_old_conf (nd_conf n)))
                  (map_option UserClosure (tk_done t)) (nd_box n))\<rparr>))"

definition nd_apply :: "'s log_storage_ops \<Rightarrow> 'c task list \<Rightarrow> ('s, 'c) node \<Rightarrow> ('s, 'c) node" where
  "nd_apply ops tasks n =
     (let reject_new_user_logs = (node_readonly n \<or> majority_nodes_readonly n)
      in if nd_state n \<noteq> STATE_LEADER \<or> reject_new_user_logs
         then reject_tasks (if nd_state n = STATE_LEADER \<and> reject_new_user_logs then EREADONLY
                            else if nd_state n \<noteq> STATE_TRANSFERRING then EPERM else EBUSY) tasks n
         else let (entries, n) = accept_tasks tasks [] n
              in append_to_log ops
                   (LeaderStable (if entries = [] then 0 else last_log_index (nd_lm n) + 1) (length entries))
                   entries n)"

text \<open>The queue of tasks is applied in batches of \<^verbatim>\<open>FLAGS_raft_apply_batch\<close>.\<close>

fun execute_applying_tasks ::
  "'s log_storage_ops \<Rightarrow> nat \<Rightarrow> 'c task list \<Rightarrow> 'c task list \<Rightarrow> ('s, 'c) node \<Rightarrow> ('s, 'c) node" where
  "execute_applying_tasks ops batch_size batch [] n =
     (if batch \<noteq> [] then nd_apply ops batch n else n)"
| "execute_applying_tasks ops batch_size batch (t # ts) n =
     (if length batch = batch_size
      then execute_applying_tasks ops batch_size [t] ts (nd_apply ops batch n)
      else execute_applying_tasks ops batch_size (batch @ [t]) ts n)"

subsection \<open>Commit\<close>

definition on_committed :: "int option \<Rightarrow> ('s, 'c) node \<Rightarrow> ('s, 'c) node" where
  "on_committed oc n = (case oc of None \<Rightarrow> n | Some i \<Rightarrow> call (Committed i) n)"

definition commit_follower :: "int \<Rightarrow> ('s, 'c) node \<Rightarrow> ('s, 'c) node" where
  "commit_follower committed_index n =
     (case bb_set_last_committed_index committed_index (nd_box n) of
        (_, box, oc) \<Rightarrow> on_committed oc (n\<lparr>nd_box := box\<rparr>))"

definition leader_stable_run :: "int \<Rightarrow> int \<Rightarrow> nat \<Rightarrow> ('s, 'c) node \<Rightarrow> ('s, 'c) node" where
  "leader_stable_run status first nentries n =
     (if status = 0
      then (case bb_commit_at first (first + int nentries - 1) (server_id n) (nd_box n) of
              (_, box, oc) \<Rightarrow> on_committed oc (n\<lparr>nd_box := box\<rparr>))
      else n)"

datatype append_outcome =
  AppendFailed int
| AppendReply append_response
| AppendWaiting
| AppendCached

definition no_response :: append_response where
  "no_response = \<lparr>ar_term = 0, ar_success = None, ar_last_log_index = None, ar_readonly = None\<rparr>"

definition follower_stable_run ::
  "int \<Rightarrow> append_request \<Rightarrow> int \<Rightarrow> ('s, 'c) node \<Rightarrow> append_outcome \<times> ('s, 'c) node" where
  "follower_stable_run status request t n =
     (if status \<noteq> 0 then (AppendFailed status, n)
      else if t \<noteq> current_term n
      then (AppendReply (no_response\<lparr>ar_success := Some False, ar_term := current_term n\<rparr>), n)
      else
        (AppendReply (no_response\<lparr>ar_success := Some True, ar_term := t\<rparr>),
         commit_follower (min (ae_committed_index request)
                           (ae_prev_log_index request + int (length (ae_entries request)))) n))"

text \<open>A closure of the log manager runs.\<close>

definition run_stable_closure ::
  "nat \<Rightarrow> int \<Rightarrow> ('s, 'c) node \<Rightarrow> (nat \<times> append_outcome) option \<times> ('s, 'c) node" where
  "run_stable_closure c status n =
     (let n' = n\<lparr>stable_closures := AList.delete c (stable_closures n)\<rparr>
      in case map_of (stable_closures n) c of
           None \<Rightarrow> (None, n)
         | Some (LeaderStable first nentries) \<Rightarrow> (None, leader_stable_run status first nentries n')
         | Some (FollowerStable i request t) \<Rightarrow>
             (let (out, n'') = follower_stable_run status request t n' in (Some (i, out), n'')))"

subsection \<open>AppendEntries\<close>

fun parse_entries :: "int \<Rightarrow> string \<Rightarrow> entry_meta list \<Rightarrow> log_entry list" where
  "parse_entries k data_buf [] = []"
| "parse_entries k data_buf (m # ms) =
     (if em_type m = ENTRY_TYPE_UNKNOWN then parse_entries (k + 1) data_buf ms
      else
        let len = (case em_data_len m of None \<Rightarrow> 0 | Some l \<Rightarrow> l)
        in \<lparr>le_type = em_type m, le_id = LogId (k + 1) (em_term m),
            le_peers = (if em_peers m \<noteq> [] then Some (em_peers m) else None),
            le_old_peers = (if em_peers m \<noteq> [] \<and> em_old_peers m \<noteq> [] then Some (em_old_peers m) else None),
            le_data = take len data_buf\<rparr>
           # parse_entries (k + 1) (drop len data_buf) ms)"

definition cache_out_of_order ::
  "env \<Rightarrow> nat \<Rightarrow> append_request \<Rightarrow> ('s, 'c) node \<Rightarrow> bool \<times> ('s, 'c) node" where
  "cache_out_of_order e i request n =
     (case handle_out_of_order_append_entries e i request (last_log_index (nd_lm n))
             (append_entries_cache n, append_entries_cache_version n) of
        (rc, (oc, v), outs) \<Rightarrow>
          (rc, calls (map CacheOutput outs)
                 (n\<lparr>append_entries_cache := oc, append_entries_cache_version := v\<rparr>)))"

definition check_cache :: "env \<Rightarrow> int \<Rightarrow> ('s, 'c) node \<Rightarrow> ('s, 'c) node" where
  "check_cache e local_last_index n =
     (let (oc, outs) = check_append_entries_cache e local_last_index (append_entries_cache n)
      in calls (map CacheOutput outs) (n\<lparr>append_entries_cache := oc\<rparr>))"

definition append_matched ::
  "env \<Rightarrow> 's log_storage_ops \<Rightarrow> nat \<Rightarrow> append_request \<Rightarrow> ('s, 'c) node \<Rightarrow> append_outcome \<times> ('s, 'c) node" where
  "append_matched e ops i request n =
     (if ae_entries request = []
      then (AppendReply \<lparr>ar_term = current_term n, ar_success = Some True,
                         ar_last_log_index = Some (last_log_index (nd_lm n)),
                         ar_readonly = Some (node_readonly n)\<rparr>,
            commit_follower (min (ae_committed_index request) (ae_prev_log_index request)) n)
      else
        let entries = parse_entries (ae_prev_log_index request) (ae_attachment request) (ae_entries request);
            n = check_cache e (ae_prev_log_index request + int (length (ae_entries request))) n
        in (AppendWaiting, append_to_log ops (FollowerStable i request (current_term n)) entries n))"

definition append_from_leader ::
  "env \<Rightarrow> 's log_storage_ops \<Rightarrow> nat \<Rightarrow> append_request \<Rightarrow> bool \<Rightarrow> ('s, 'c) node
     \<Rightarrow> append_outcome \<times> ('s, 'c) node" where
  "append_from_leader e ops i request from_append_entries_cache n =
     (let n = (if \<not> from_append_entries_cache
               then n\<lparr>nd_follower_lease := fl_renew (now_ms e) (leader_id n) (nd_follower_lease n)\<rparr> else n)
      in if ae_entries request \<noteq> [] \<and> has_snapshot_executor e \<and> is_installing_snapshot e
         then (AppendFailed EBUSY, n)
         else if lm_get_term ops (ae_prev_log_index request) (nd_lm n) \<noteq> ae_prev_log_term request
         then
           let last_index = last_log_index (nd_lm n);
               (cached_it, n) =
                 (if from_append_entries_cache then (False, n) else cache_out_of_order e i request n)
           in if cached_it then (AppendCached, n)
              else (AppendReply (no_response\<lparr>ar_success := Some False, ar_term := current_term n,
                                            ar_last_log_index := Some last_index\<rparr>), n)
         else append_matched e ops i request n)"

definition handle_append_entries_request ::
  "env \<Rightarrow> 's log_storage_ops \<Rightarrow> nat \<Rightarrow> append_request \<Rightarrow> bool \<Rightarrow> ('s, 'c) node
     \<Rightarrow> append_outcome \<times> ('s, 'c) node" where
  "handle_append_entries_request e ops i request from_append_entries_cache n =
     (if \<not> is_active_state (nd_state n) then (AppendFailed EINVAL, n)
      else case ae_server_id request of
        None \<Rightarrow> (AppendFailed EREQUEST, n)
      | Some server \<Rightarrow>
          if ae_term request < current_term n
          then (AppendReply (no_response\<lparr>ar_success := Some False, ar_term := current_term n\<rparr>), n)
          else
            let n = check_step_down e (ae_term request) server n
            in if server \<noteq> leader_id n
               then (AppendReply (no_response\<lparr>ar_success := Some False, ar_term := ae_term request + 1\<rparr>),
                     step_down e (ae_term request + 1) False ELEADERCONFLICT n)
               else append_from_leader e ops i request from_append_entries_cache n)"

text \<open>A batch that the cache handed on is handled request by request.\<close>

fun handle_append_entries_from_cache ::
  "env \<Rightarrow> 's log_storage_ops \<Rightarrow> append_rpc list \<Rightarrow> ('s, 'c) node
     \<Rightarrow> (nat \<times> append_outcome) list \<times> ('s, 'c) node" where
  "handle_append_entries_from_cache e ops [] n = ([], n)"
| "handle_append_entries_from_cache e ops (r # rs) n =
     (let (out, n) = handle_append_entries_request e ops (rpc_id r) (rpc_request r) True n;
          (outs, n) = handle_append_entries_from_cache e ops rs n
      in ((rpc_id r, out) # outs, n))"

subsection \<open>InstallSnapshot\<close>

datatype install_outcome =
  InstallFailed int
| InstallReply int bool
| InstallStarted

definition handle_install_snapshot_request ::
  "env \<Rightarrow> peer_id option \<Rightarrow> int \<Rightarrow> ('s, 'c) node \<Rightarrow> install_outcome \<times> ('s, 'c) node" where
  "handle_install_snapshot_request e server request_term n =
     (if \<not> has_snapshot_executor e then (InstallFailed EINVAL, n)
      else case server of
        None \<Rightarrow> (InstallFailed EREQUEST, n)
      | Some server \<Rightarrow>
          if \<not> is_active_state (nd_state n) then (InstallFailed EINVAL, n)
          else if request_term < current_term n then (InstallReply (current_term n) False, n)
          else
            let n = check_step_down e request_term server n
            in if server \<noteq> leader_id n
               then (InstallReply (request_term + 1) False,
                     step_down e (request_term + 1) False ELEADERCONFLICT n)
               else (InstallStarted, clear_cache e n))"

definition update_configuration_after_installing_snapshot :: "('s, 'c) node \<Rightarrow> ('s, 'c) node" where
  "update_configuration_after_installing_snapshot n =
     n\<lparr>nd_conf := snd (check_and_set_configuration (nd_conf n) (nd_lm n))\<rparr>"

definition do_snapshot :: "env \<Rightarrow> 'c option \<Rightarrow> ('s, 'c) node \<Rightarrow> ('s, 'c) node" where
  "do_snapshot e d n =
     (if has_snapshot_executor e then call (DoSnapshot d) n
      else case d of None \<Rightarrow> n | Some c \<Rightarrow> call (RunClosure c EINVAL) n)"

definition handle_snapshot_timeout :: "env \<Rightarrow> ('s, 'c) node \<Rightarrow> ('s, 'c) node" where
  "handle_snapshot_timeout e n = (if \<not> is_active_state (nd_state n) then n else do_snapshot e None n)"

text \<open>The timer of the cache fires.\<close>

definition cache_timedout :: "env \<Rightarrow> int \<Rightarrow> int \<Rightarrow> int \<Rightarrow> ('s, 'c) node \<Rightarrow> ('s, 'c) node" where
  "cache_timedout e tversion cversion timer_start_ms n =
     (let (oc, outs) = handle_append_entries_cache_timedout e tversion cversion timer_start_ms
                         (append_entries_cache n)
      in calls (map CacheOutput outs) (n\<lparr>append_entries_cache := oc\<rparr>))"

subsection \<open>Configuration changes\<close>

definition on_configuration_change_done ::
  "env \<Rightarrow> 's log_storage_ops \<Rightarrow> int \<Rightarrow> ('s, 'c) node \<Rightarrow> ('s, 'c) node" where
  "on_configuration_change_done e ops t n =
     (if nd_state n > STATE_TRANSFERRING \<or> t \<noteq> current_term n then n else cc_next_stage e ops n)"

definition leader_lease_start :: "env \<Rightarrow> int \<Rightarrow> ('s, 'c) node \<Rightarrow> ('s, 'c) node" where
  "leader_lease_start e lease_epoch n =
     (if nd_state n = STATE_LEADER
      then n\<lparr>nd_leader_lease := ll_on_lease_start lease_epoch
              (last_leader_active_timestamp (last_rpc_send_timestamp e) (server_id n) (now_ms e) (nd_conf n))
              (nd_leader_lease n)\<rparr>
      else n)"

text \<open>\<^verbatim>\<open>ConfigurationChangeDone::Run\<close> after the entry was committed.\<close>

definition configuration_change_done_run ::
  "env \<Rightarrow> 's log_storage_ops \<Rightarrow> int \<Rightarrow> bool \<Rightarrow> int \<Rightarrow> ('s, 'c) node \<Rightarrow> ('s, 'c) node" where
  "configuration_change_done_run e ops t leader_start lease_epoch n =
     (let n = on_configuration_change_done e ops t n
      in if leader_start
         then call (UserFsmOnLeaderStart t) (leader_lease_start e lease_epoch n) else n)"

definition on_caughtup ::
  "env \<Rightarrow> 's log_storage_ops \<Rightarrow> peer_id \<Rightarrow> int \<Rightarrow> int \<Rightarrow> int \<Rightarrow> ('s, 'c) node \<Rightarrow> ('s, 'c) node" where
  "on_caughtup e ops peer t version st n =
     (if nd_state n \<noteq> STATE_LEADER \<or> t \<noteq> current_term n then n
      else if st = 0 then cc_on_caughtup e ops version peer True n
      else if st = ETIMEDOUT \<and> now_ms e - last_rpc_send_timestamp e peer \<le> opt_election_timeout_ms n
      then let n = call (WaitCaughtup peer (current_term n) version) n
           in if wait_caughtup_rc e peer = 0 then n else cc_on_caughtup e ops version peer False n
      else cc_on_caughtup e ops version peer False n)"

definition run_done :: "'c option \<Rightarrow> int \<Rightarrow> ('s, 'c) node \<Rightarrow> ('s, 'c) node" where
  "run_done d st n = (case d of None \<Rightarrow> n | Some c \<Rightarrow> call (RunClosure c st) n)"

definition unsafe_register_conf_change ::
  "env \<Rightarrow> 's log_storage_ops \<Rightarrow> configuration \<Rightarrow> configuration \<Rightarrow> 'c option \<Rightarrow> ('s, 'c) node \<Rightarrow> ('s, 'c) node" where
  "unsafe_register_conf_change e ops old_conf new_conf d n =
     (if nd_state n \<noteq> STATE_LEADER
      then run_done d (if nd_state n = STATE_TRANSFERRING then EBUSY else EPERM) n
      else if cc_is_busy n then run_done d EBUSY n
      else if conf_equals (ce_conf (nd_conf n)) new_conf then run_done d 0 n
      else cc_start e ops old_conf new_conf d n)"

definition nd_list_peers :: "('s, 'c) node \<Rightarrow> peer_id list option" where
  "nd_list_peers n =
     (if nd_state n \<noteq> STATE_LEADER then None else Some (conf_list_peers (ce_conf (nd_conf n))))"

definition nd_add_peer ::
  "env \<Rightarrow> 's log_storage_ops \<Rightarrow> peer_id \<Rightarrow> 'c option \<Rightarrow> ('s, 'c) node \<Rightarrow> ('s, 'c) node" where
  "nd_add_peer e ops peer d n =
     unsafe_register_conf_change e ops (ce_conf (nd_conf n)) (snd (add_peer peer (ce_conf (nd_conf n)))) d n"

definition nd_remove_peer ::
  "env \<Rightarrow> 's log_storage_ops \<Rightarrow> peer_id \<Rightarrow> 'c option \<Rightarrow> ('s, 'c) node \<Rightarrow> ('s, 'c) node" where
  "nd_remove_peer e ops peer d n =
     unsafe_register_conf_change e ops (ce_conf (nd_conf n)) (snd (remove_peer peer (ce_conf (nd_conf n)))) d n"

definition nd_change_peers ::
  "env \<Rightarrow> 's log_storage_ops \<Rightarrow> configuration \<Rightarrow> 'c option \<Rightarrow> ('s, 'c) node \<Rightarrow> ('s, 'c) node" where
  "nd_change_peers e ops new_peers d n =
     unsafe_register_conf_change e ops (ce_conf (nd_conf n)) new_peers d n"

definition reset_peers :: "env \<Rightarrow> configuration \<Rightarrow> ('s, 'c) node \<Rightarrow> int \<times> ('s, 'c) node" where
  "reset_peers e new_peers n =
     (if new_peers = {||} then (EINVAL, n)
      else if \<not> is_active_state (nd_state n) then (EPERM, n)
      else if ce_conf (nd_conf n) = {||}
      then (0, step_down e (current_term n + 1) False ESETPEER
                 (n\<lparr>nd_conf := (nd_conf n)\<lparr>ce_conf := new_peers\<rparr>\<rparr>))
      else if nd_state n = STATE_LEADER \<and> cc_is_busy n then (EBUSY, n)
      else if conf_equals (ce_conf (nd_conf n)) new_peers then (0, n)
      else (0, step_down e (current_term n + 1) False ESETPEER
                 (n\<lparr>nd_conf := (nd_conf n)\<lparr>ce_conf := new_peers, ce_old_conf := {||}\<rparr>\<rparr>)))"

subsection \<open>Leases\<close>

datatype lease_state = LEASE_DISABLED | LEASE_EXPIRED | LEASE_NOT_READY | LEASE_VALID int int

text \<open>A suspect lease is renewed from the answers of the peers, and given up if that is not
  enough.\<close>

definition get_leader_lease_status :: "env \<Rightarrow> ('s, 'c) node \<Rightarrow> lease_state \<times> ('s, 'c) node" where
  "get_leader_lease_status e n =
     (let info = ll_get_lease_info (enable_leader_lease e) (now_ms e) (nd_leader_lease n)
      in case li_state info of
           DISABLED \<Rightarrow> (LEASE_DISABLED, n)
         | EXPIRED \<Rightarrow> (LEASE_EXPIRED, n)
         | NOT_READY \<Rightarrow> (LEASE_NOT_READY, n)
         | VALID \<Rightarrow> (LEASE_VALID (li_term info) (li_lease_epoch info), n)
         | SUSPECT \<Rightarrow>
             if nd_state n \<noteq> STATE_LEADER then (LEASE_EXPIRED, n)
             else
               let n = n\<lparr>nd_leader_lease := ll_renew
                         (last_leader_active_timestamp (last_rpc_send_timestamp e) (server_id n)
                            (now_ms e) (nd_conf n)) (nd_leader_lease n)\<rparr>;
                   info = ll_get_lease_info (enable_leader_lease e) (now_ms e) (nd_leader_lease n)
               in case li_state info of
                    VALID \<Rightarrow> (LEASE_VALID (li_term info) (li_lease_epoch info), n)
                  | DISABLED \<Rightarrow> (LEASE_DISABLED, n)
                  | _ \<Rightarrow> (LEASE_EXPIRED, step_down e (current_term n) False ERAFTTIMEDOUT n))"

definition is_leader_lease_valid :: "env \<Rightarrow> ('s, 'c) node \<Rightarrow> bool \<times> ('s, 'c) node" where
  "is_leader_lease_valid e n =
     (case get_leader_lease_status e n of
        (LEASE_VALID _ _, n) \<Rightarrow> (True, n) | (_, n) \<Rightarrow> (False, n))"

subsection \<open>Readonly mode\<close>

definition enter_readonly_mode :: "('s, 'c) node \<Rightarrow> ('s, 'c) node" where
  "enter_readonly_mode n = (if \<not> node_readonly n then n\<lparr>node_readonly := True\<rparr> else n)"

definition leave_readonly_mode :: "('s, 'c) node \<Rightarrow> ('s, 'c) node" where
  "leave_readonly_mode n = (if node_readonly n then n\<lparr>node_readonly := False\<rparr> else n)"

definition nd_readonly :: "('s, 'c) node \<Rightarrow> bool" where
  "nd_readonly n \<longleftrightarrow> node_readonly n \<or> majority_nodes_readonly n"

definition change_readonly_config ::
  "env \<Rightarrow> int \<Rightarrow> peer_id \<Rightarrow> bool \<Rightarrow> ('s, 'c) node \<Rightarrow> int \<times> ('s, 'c) node" where
  "change_readonly_config e t peer ro n =
     (if t \<noteq> current_term n \<and> nd_state n \<noteq> STATE_LEADER then (EINVAL, n)
      else (0, check_majority_nodes_readonly e (call (ChangeReplicatorReadonly peer ro) n)))"

subsection \<open>Reading the log of the user\<close>

abbreviation (input) ELOGDELETED :: int where "ELOGDELETED \<equiv> 10014"
abbreviation (input) ENOMOREUSERLOG :: int where "ENOMOREUSERLOG \<equiv> 10015"

datatype user_log = UserLogError int | UserLog int string

text \<open>The loop looks at no more than the entries up to the last applied one.\<close>

function read_user_log ::
  "'s log_storage_ops \<Rightarrow> int \<Rightarrow> int \<Rightarrow> ('s, 'c) node \<Rightarrow> user_log \<times> ('s, 'c) node" where
  "read_user_log ops last_applied cur_index n =
     (case lm_get_entry ops cur_index (nd_lm n) of
        (entry, lm, evs) \<Rightarrow>
          (let n = calls (map LogManagerEvent evs) (n\<lparr>nd_lm := lm\<rparr>)
           in case entry of
                None \<Rightarrow> (UserLogError ELOGDELETED, n)
              | Some en \<Rightarrow>
                  if le_type en = ENTRY_TYPE_DATA then (UserLog cur_index (le_data en), n)
                  else if cur_index + 1 > last_applied then (UserLogError ENOMOREUSERLOG, n)
                  else read_user_log ops last_applied (cur_index + 1) n))"
  by pat_completeness auto

termination
  by (relation "measure (\<lambda>(ops, last_applied, cur_index, n). nat (last_applied - cur_index))") auto

declare read_user_log.simps [simp del]

definition read_committed_user_log ::
  "'s log_storage_ops \<Rightarrow> int \<Rightarrow> int \<Rightarrow> ('s, 'c) node \<Rightarrow> user_log \<times> ('s, 'c) node" where
  "read_committed_user_log ops last_applied i n =
     (if i \<le> 0 then (UserLogError EINVAL, n)
      else if i > last_applied then (UserLogError ENOMOREUSERLOG, n)
      else read_user_log ops last_applied i n)"

subsection \<open>Start\<close>

text \<open>
  What \<open>init\<close> reads from its options and from components that are not modelled.
  \<open>io_load_snapshot\<close> is what the snapshot executor does to the log manager when it loads
  the last snapshot.
\<close>

record 's init_options =
  io_election_timeout_ms :: int
  io_max_clock_drift_ms :: int
  io_initial_conf :: configuration
  io_server_exists :: bool
  io_queue_ok :: bool
  io_meta_ok :: bool
  io_fsm_ok :: bool
  io_load_snapshot :: "'s log_manager \<Rightarrow> int \<times> 's log_manager"
  io_snapshot_interval_s :: int
  io_add_to_manager_ok :: bool

definition node_new ::
  "peer_id \<Rightarrow> int \<times> peer_id \<Rightarrow> 's log_manager \<Rightarrow> ('s, 'c) node" where
  "node_new server meta lm =
     \<lparr>nd_state = STATE_UNINITIALIZED, current_term = 0, leader_id = empty_peer, voted_id = empty_peer,
      vote_ctx = vote_ctx_new, pre_vote_ctx = vote_ctx_new,
      nd_conf = \<lparr>ce_id = LogId 0 0, ce_conf = {||}, ce_old_conf = {||}\<rparr>, server_id = server,
      opt_election_timeout_ms = 0, opt_max_clock_drift_ms = 0, conf_ctx = conf_ctx_new,
      meta_storage = meta, nd_lm = lm, nd_box = bb_new, vote_triggered = False,
      stop_transfer_arg = None, shutdown_continuations = [], append_entries_cache = None,
      append_entries_cache_version = 0, node_readonly = False, majority_nodes_readonly = False,
      nd_leader_lease = leader_lease_new, nd_follower_lease = follower_lease_new,
      grant_timers = [], nd_paused = [], stable_closures = [], next_closure = 0, nd_calls = []\<rparr>"

definition init_meta :: "('s, 'c) node \<Rightarrow> ('s, 'c) node" where
  "init_meta n = n\<lparr>current_term := fst (meta_storage n), voted_id := snd (meta_storage n)\<rparr>"

definition init_follower :: "env \<Rightarrow> 's init_options \<Rightarrow> ('s, 'c) node \<Rightarrow> ('s, 'c) node" where
  "init_follower e io n =
     (let n = n\<lparr>nd_conf := (nd_conf n)\<lparr>ce_id := LogId 0 0\<rparr>\<rparr>;
          n = (if last_log_index (nd_lm n) > 0
               then n\<lparr>nd_conf := snd (check_and_set_configuration (nd_conf n) (nd_lm n))\<rparr>
               else n\<lparr>nd_conf := (nd_conf n)\<lparr>ce_conf := io_initial_conf io\<rparr>\<rparr>);
          n = init_meta n;
          n = (if current_term n = 1 \<and> peer_is_empty (voted_id n)
               then n\<lparr>nd_follower_lease := fl_reset (nd_follower_lease n)\<rparr> else n);
          n = n\<lparr>nd_state := STATE_FOLLOWER\<rparr>;
          n = (if has_snapshot_executor e \<and> io_snapshot_interval_s io > 0
               then call (StartTimer SnapshotTimer) n else n)
      in if ce_conf (nd_conf n) \<noteq> {||} then step_down e (current_term n) False 0 n else n)"

definition init_components ::
  "env \<Rightarrow> 's log_storage_ops \<Rightarrow> 's init_options \<Rightarrow> ('s, 'c) node \<Rightarrow> bool \<times> ('s, 'c) node" where
  "init_components e ops io n =
     (let n = n\<lparr>opt_election_timeout_ms := io_election_timeout_ms io,
                opt_max_clock_drift_ms := io_max_clock_drift_ms io\<rparr>
      in if ip (server_id n) = 0 \<or> \<not> io_server_exists io \<or> \<not> io_queue_ok io then (False, n)
         else
           let n = n\<lparr>nd_leader_lease := ll_init (io_election_timeout_ms io) (nd_leader_lease n),
                     nd_follower_lease := fl_init (now_ms e) (io_election_timeout_ms io)
                       (io_max_clock_drift_ms io) (nd_follower_lease n)\<rparr>;
               (rc, lm) = lm_init ops (nd_lm n);
               n = n\<lparr>nd_lm := lm\<rparr>
           in if rc \<noteq> 0 \<or> \<not> io_meta_ok io then (False, n)
              else
                let n = init_meta n
                in if \<not> io_fsm_ok io then (False, n)
                   else
                     let n = n\<lparr>nd_box := bb_new\<rparr>;
                         (rc, lm) = (if has_snapshot_executor e then io_load_snapshot io (nd_lm n) else (0, nd_lm n));
                         n = n\<lparr>nd_lm := lm\<rparr>
                     in (rc = 0 \<and> check_consistency (nd_lm n) = 0, n))"

definition nd_init ::
  "env \<Rightarrow> 's log_storage_ops \<Rightarrow> 's init_options \<Rightarrow> ('s, 'c) node \<Rightarrow> int \<times> ('s, 'c) node" where
  "nd_init e ops io n =
     (let (ok, n) = init_components e ops io n
      in if \<not> ok then (-1, n)
         else
           let n = init_follower e io n
           in if \<not> io_add_to_manager_ok io then (-1, n)
              else (0, if ce_stable (nd_conf n) \<and> fcard (ce_conf (nd_conf n)) = 1
                          \<and> conf_contains (ce_conf (nd_conf n)) (server_id n)
                       then elect_self_begin e False n else n))"

end
