(* ===== verification/Raft_Node_View.thy ===== *)
theory Raft_Node_View
  imports Raft_Node_Append
begin

text \<open>
  The part of a node that elections depend on, and what every operation of the node does
  to it. Most operations leave it alone; the others either step down, start an election,
  vote, count a vote or take over.
\<close>

subsection \<open>The view\<close>

text \<open>
  \<open>ev_pending\<close> lists the elections that wait for the last log id, \<open>ev_timers\<close> the
  versions of the pending timers of the vote, \<open>ev_asked\<close> the requests for votes that wait
  for the last log id with the candidates they are from, and \<open>ev_out\<close> the requests for
  votes that were sent.
\<close>

record eview =
  ev_state :: state
  ev_term :: int
  ev_voted :: peer_id
  ev_meta :: "int \<times> peer_id"
  ev_server :: peer_id
  ev_conf :: "configuration \<times> configuration"
  ev_ballot :: ballot
  ev_version :: int
  ev_pending :: "int list"
  ev_timers :: "int set"
  ev_asked :: "(vote_request \<times> peer_id) set"
  ev_out :: "(peer_id \<times> vote_request \<times> int \<times> int) set"

fun sent :: "'c node_call \<Rightarrow> (peer_id \<times> vote_request \<times> int \<times> int) set" where
  "sent (SendRequestVote p r t v) = {(p, r, t, v)}"
| "sent _ = {}"

fun pending_elect :: "paused \<Rightarrow> int option" where
  "pending_elect (ElectSelfPaused t) = Some t"
| "pending_elect _ = None"

fun pending_request :: "paused \<Rightarrow> (vote_request \<times> peer_id) set" where
  "pending_request (RequestVotePaused i r c t) = {(r, c)}"
| "pending_request _ = {}"

definition view :: "('s, 'c) node \<Rightarrow> eview" where
  "view n = \<lparr>ev_state = nd_state n, ev_term = current_term n, ev_voted = voted_id n,
     ev_meta = meta_storage n, ev_server = server_id n,
     ev_conf = (ce_conf (nd_conf n), ce_old_conf (nd_conf n)),
     ev_ballot = vc_ballot (vote_ctx n), ev_version = vc_version (vote_ctx n),
     ev_pending = List.map_filter pending_elect (nd_paused n),
     ev_timers = {v. (VoteCtx, v) \<in> set (grant_timers n)},
     ev_asked = (\<Union>p \<in> set (nd_paused n). pending_request p),
     ev_out = (\<Union>c \<in> set (nd_calls n). sent c)\<rparr>"

lemma view_sel [simp]:
  "ev_state (view n) = nd_state n" "ev_term (view n) = current_term n"
  "ev_voted (view n) = voted_id n" "ev_meta (view n) = meta_storage n"
  "ev_server (view n) = server_id n" "ev_version (view n) = vc_version (vote_ctx n)"
  "ev_ballot (view n) = vc_ballot (vote_ctx n)"
  "ev_conf (view n) = (ce_conf (nd_conf n), ce_old_conf (nd_conf n))"
  by (simp_all add: view_def)

text \<open>Fields that do not belong to the view.\<close>

lemma view_other [simp]:
  "view (n\<lparr>leader_id := a\<rparr>) = view n"
  "view (n\<lparr>pre_vote_ctx := b\<rparr>) = view n"
  "view (n\<lparr>opt_election_timeout_ms := c\<rparr>) = view n"
  "view (n\<lparr>opt_max_clock_drift_ms := c\<rparr>) = view n"
  "view (n\<lparr>conf_ctx := d\<rparr>) = view n"
  "view (n\<lparr>nd_lm := f\<rparr>) = view n"
  "view (n\<lparr>nd_box := g\<rparr>) = view n"
  "view (n\<lparr>vote_triggered := h\<rparr>) = view n"
  "view (n\<lparr>stop_transfer_arg := i\<rparr>) = view n"
  "view (n\<lparr>shutdown_continuations := j\<rparr>) = view n"
  "view (n\<lparr>append_entries_cache := k\<rparr>) = view n"
  "view (n\<lparr>append_entries_cache_version := c\<rparr>) = view n"
  "view (n\<lparr>node_readonly := h\<rparr>) = view n"
  "view (n\<lparr>majority_nodes_readonly := h\<rparr>) = view n"
  "view (n\<lparr>nd_leader_lease := l\<rparr>) = view n"
  "view (n\<lparr>nd_follower_lease := m\<rparr>) = view n"
  "view (n\<lparr>stable_closures := o'\<rparr>) = view n"
  "view (n\<lparr>next_closure := p\<rparr>) = view n"
  by (simp_all add: view_def)

lemma view_upd [simp]:
  "view (n\<lparr>nd_state := s\<rparr>) = (view n)\<lparr>ev_state := s\<rparr>"
  "view (n\<lparr>current_term := t\<rparr>) = (view n)\<lparr>ev_term := t\<rparr>"
  "view (n\<lparr>voted_id := p\<rparr>) = (view n)\<lparr>ev_voted := p\<rparr>"
  "view (n\<lparr>meta_storage := m\<rparr>) = (view n)\<lparr>ev_meta := m\<rparr>"
  "view (n\<lparr>nd_conf := c\<rparr>) = (view n)\<lparr>ev_conf := (ce_conf c, ce_old_conf c)\<rparr>"
  "view (n\<lparr>vote_ctx := x\<rparr>) = (view n)\<lparr>ev_ballot := vc_ballot x, ev_version := vc_version x\<rparr>"
  by (simp_all add: view_def)

lemma view_calls: "view (calls cs n) = (view n)\<lparr>ev_out := ev_out (view n) \<union> (\<Union>c \<in> set cs. sent c)\<rparr>"
  by (simp add: view_def calls_def)

lemma view_silent_calls [simp]: "(\<Union>c \<in> set cs. sent c) = {} \<Longrightarrow> view (calls cs n) = view n"
  by (simp add: view_def calls_def)

lemma view_silent_call [simp]: "sent c = {} \<Longrightarrow> view (call c n) = view n"
  by (simp add: view_def call_def)

lemma view_pause [simp]:
  "view (pause p n) = (view n)\<lparr>ev_pending := ev_pending (view n) @ (case pending_elect p of None \<Rightarrow> [] | Some t \<Rightarrow> [t]),
     ev_asked := ev_asked (view n) \<union> pending_request p\<rparr>"
  by (auto simp: view_def pause_def map_filter_def split: option.splits)

text \<open>Fields of a node that silent operations keep.\<close>

lemma call_sel [simp]:
  "nd_state (call c n) = nd_state n" "current_term (call c n) = current_term n"
  "voted_id (call c n) = voted_id n" "meta_storage (call c n) = meta_storage n"
  "server_id (call c n) = server_id n" "nd_conf (call c n) = nd_conf n"
  "vote_ctx (call c n) = vote_ctx n" "conf_ctx (call c n) = conf_ctx n" "leader_id (call c n) = leader_id n"
  by (simp_all add: call_def)

lemma calls_sel [simp]:
  "nd_state (calls c n) = nd_state n" "current_term (calls c n) = current_term n"
  "voted_id (calls c n) = voted_id n" "meta_storage (calls c n) = meta_storage n"
  "server_id (calls c n) = server_id n" "nd_conf (calls c n) = nd_conf n"
  "vote_ctx (calls c n) = vote_ctx n" "conf_ctx (calls c n) = conf_ctx n" "leader_id (calls c n) = leader_id n"
  by (simp_all add: calls_def)

text \<open>Two nodes with the same view agree on these fields.\<close>

lemma view_eqD:
  assumes "view m = view n"
  shows "nd_state m = nd_state n" "current_term m = current_term n" "voted_id m = voted_id n"
    "meta_storage m = meta_storage n" "server_id m = server_id n"
    "vc_ballot (vote_ctx m) = vc_ballot (vote_ctx n)" "vc_version (vote_ctx m) = vc_version (vote_ctx n)"
    "ce_conf (nd_conf m) = ce_conf (nd_conf n)" "ce_old_conf (nd_conf m) = ce_old_conf (nd_conf n)"
  using assms by (simp_all add: view_def)

subsection \<open>Operations that leave the view alone\<close>

lemma view_pre_vote_ctx [simp]:
  "view (upd_ctx PreVoteCtx f n) = view n"
  "view (vc_grant PreVoteCtx p n) = view n"
  "view (vc_reserve PreVoteCtx p n) = view n"
  "view (vc_set_disrupted_leader PreVoteCtx d n) = view n"
  "view (vc_set_last_log_id PreVoteCtx i n) = view n"
  by (simp_all add: upd_ctx_def vc_grant_def vc_reserve_def vc_set_disrupted_leader_def vc_set_last_log_id_def)

lemma view_pre_vote_timers [simp]:
  "view (n\<lparr>grant_timers := grant_timers n @ [(PreVoteCtx, v)]\<rparr>) = view n"
  "view (n\<lparr>grant_timers := remove1 (PreVoteCtx, v) (grant_timers n)\<rparr>) = view n"
  by (auto simp: view_def in_set_remove1)

lemma view_stop_pre_vote_timer [simp]: "view (stop_grant_self_timer e PreVoteCtx n) = view n"
  by (simp add: stop_grant_self_timer_def split: option.splits)

lemma view_start_pre_vote_timer [simp]: "view (start_grant_self_timer e PreVoteCtx n) = view n"
  by (simp add: start_grant_self_timer_def Let_def)

lemma view_reset_pre_vote [simp]: "view (vc_reset e PreVoteCtx n) = view n"
  by (simp add: vc_reset_def)

lemma view_init_pre_vote [simp]: "view (vc_init e PreVoteCtx b n) = view n"
  by (simp add: vc_init_def)

lemma view_pop_pre_vote [simp]: "view (snd (vc_pop_grantable_peers PreVoteCtx n)) = view n"
  by (simp add: vc_pop_grantable_peers_def)

lemma view_vote_ctx_soft [simp]:
  "view (vc_reserve VoteCtx p n) = view n"
  "view (vc_set_disrupted_leader VoteCtx d n) = view n"
  "view (vc_set_last_log_id VoteCtx i n) = view n"
  "view (snd (vc_pop_grantable_peers VoteCtx n)) = view n"
  by (simp_all add: view_def upd_ctx_def vc_reserve_def vc_set_disrupted_leader_def
      vc_set_last_log_id_def vc_pop_grantable_peers_def get_ctx_def)

lemma view_readonly [simp]:
  "view (check_majority_nodes_readonly_of e c n) = view n"
  "view (check_majority_nodes_readonly e n) = view n"
  by (simp_all add: check_majority_nodes_readonly_of_def check_majority_nodes_readonly_def Let_def)

lemma view_stop_replicator [simp]: "view (stop_replicator k d n) = view n"
  by (simp add: stop_replicator_def)

lemma view_cc_reset [simp]: "view (cc_reset e st n) = view n"
  by (auto simp: cc_reset_def Let_def split: option.splits)

lemma view_reset_leader_id [simp]: "view (reset_leader_id e p st n) = view n"
  by (auto simp: reset_leader_id_def Let_def)

lemma view_clear_cache [simp]: "view (clear_cache e n) = view n"
  by (auto simp: clear_cache_def split: prod.splits)

lemma sent_failed_calls [simp]: "(\<Union>c \<in> set (failed_calls cs). sent c) = {}"
  by (auto simp: failed_calls_def map_filter_def split: node_closure.splits)

lemma view_cc_set_stage [simp]: "view (cc_set_stage s n) = view n"
  by (simp add: cc_set_stage_def)

subsection \<open>Operations that change the view\<close>

text \<open>Stepping down to term \<open>t\<close>.\<close>

definition v_down :: "int \<Rightarrow> eview \<Rightarrow> eview \<Rightarrow> bool" where
  "v_down t v v' \<longleftrightarrow>
     (if \<not> is_active_state (ev_state v) then v' = v
      else \<exists>ver S m. S \<subseteq> ev_timers v \<and> ev_version v \<le> ver \<and> (ev_state v = STATE_CANDIDATE \<longrightarrow> ev_version v < ver)
        \<and> m \<in> {ev_meta v, (t, empty_peer)}
        \<and> v' = (if t > ev_term v
                then v\<lparr>ev_version := ver, ev_timers := S, ev_state := STATE_FOLLOWER, ev_term := t,
                        ev_voted := empty_peer, ev_meta := m\<rparr>
                else v\<lparr>ev_version := ver, ev_timers := S, ev_state := STATE_FOLLOWER\<rparr>))"

lemma v_downI:
  assumes "is_active_state (ev_state v)" "S \<subseteq> ev_timers v" "ev_version v \<le> ver"
    "ev_state v = STATE_CANDIDATE \<longrightarrow> ev_version v < ver" "m \<in> {ev_meta v, (t, empty_peer)}"
    "v' = (if t > ev_term v
           then v\<lparr>ev_version := ver, ev_timers := S, ev_state := STATE_FOLLOWER, ev_term := t,
                        ev_voted := empty_peer, ev_meta := m\<rparr>
           else v\<lparr>ev_version := ver, ev_timers := S, ev_state := STATE_FOLLOWER\<rparr>)"
  shows "v_down t v v'"
  unfolding v_down_def
  apply (simp only: assms(1) not_True_eq_False if_False)
  apply (rule exI [of _ ver], rule exI [of _ S], rule exI [of _ m])
  apply (intro conjI; fact assms)
  done

text \<open>Starting an election.\<close>

definition joint_of :: "configuration \<times> configuration \<Rightarrow> configuration option" where
  "joint_of c = (if snd c = {||} then None else Some (snd c))"

definition v_elect :: "eview \<Rightarrow> eview \<Rightarrow> bool" where
  "v_elect v v' \<longleftrightarrow>
     (if ev_server v |\<notin>| fst (ev_conf v) |\<union>| snd (ev_conf v) then v' = v
      else \<exists>S \<subseteq> ev_timers v.
        v' = v\<lparr>ev_state := STATE_CANDIDATE, ev_term := ev_term v + 1, ev_voted := ev_server v,
               ev_ballot := ballot_init (fst (ev_conf v)) (joint_of (ev_conf v)),
               ev_version := ev_version v + 1, ev_timers := S,
               ev_pending := ev_pending v @ [ev_term v + 1]\<rparr>)"

text \<open>Taking over.\<close>

definition v_lead :: "eview \<Rightarrow> eview \<Rightarrow> bool" where
  "v_lead v v' \<longleftrightarrow> (\<exists>S c. S \<subseteq> ev_timers v
     \<and> v' = v\<lparr>ev_state := STATE_LEADER, ev_version := ev_version v + 1, ev_timers := S, ev_conf := c\<rparr>)"

lemma stop_vote_timer_sel [simp]:
  "nd_state (stop_grant_self_timer e k n) = nd_state n"
  "server_id (stop_grant_self_timer e k n) = server_id n"
  "nd_conf (stop_grant_self_timer e k n) = nd_conf n"
  "nd_lm (stop_grant_self_timer e k n) = nd_lm n"
  "current_term (stop_grant_self_timer e k n) = current_term n"
  by (auto simp: stop_grant_self_timer_def upd_ctx_def split: option.splits ctx_kind.splits)

lemma vc_reset_sel [simp]:
  "nd_state (vc_reset e k n) = nd_state n"
  "server_id (vc_reset e k n) = server_id n"
  "nd_conf (vc_reset e k n) = nd_conf n"
  "nd_lm (vc_reset e k n) = nd_lm n"
  "current_term (vc_reset e k n) = current_term n"
  by (simp_all add: vc_reset_def upd_ctx_def split: ctx_kind.splits)

lemma view_stop_vote_timer:
  "\<exists>S \<subseteq> ev_timers (view n). view (stop_grant_self_timer e VoteCtx n) = (view n)\<lparr>ev_timers := S\<rparr>"
proof (cases "vc_timer (vote_ctx n)")
  case None
  then have "view (stop_grant_self_timer e VoteCtx n) = (view n)\<lparr>ev_timers := ev_timers (view n)\<rparr>"
    by (simp add: stop_grant_self_timer_def get_ctx_def)
  then show ?thesis by blast
next
  case (Some v)
  show ?thesis
  proof (cases "timer_del_ok e \<and> (VoteCtx, v) \<in> set (grant_timers n)")
    case True
    let ?S = "{w. (VoteCtx, w) \<in> set (remove1 (VoteCtx, v) (grant_timers n))}"
    have "view (stop_grant_self_timer e VoteCtx n) = (view n)\<lparr>ev_timers := ?S\<rparr>"
      using Some True by (simp add: stop_grant_self_timer_def get_ctx_def upd_ctx_def view_def)
    moreover have "?S \<subseteq> ev_timers (view n)" by (auto simp: view_def dest: set_rev_mp [OF _ set_remove1_subset])
    ultimately show ?thesis by blast
  next
    case False
    then have "view (stop_grant_self_timer e VoteCtx n) = (view n)\<lparr>ev_timers := ev_timers (view n)\<rparr>"
      using Some by (auto simp: stop_grant_self_timer_def get_ctx_def)
    then show ?thesis by blast
  qed
qed

lemma view_upd_version:
  "vc_ballot (f (vote_ctx n)) = vc_ballot (vote_ctx n) \<Longrightarrow> vc_version (f (vote_ctx n)) = w \<Longrightarrow>
     view (upd_ctx VoteCtx f n) = (view n)\<lparr>ev_version := w\<rparr>"
  by (simp add: upd_ctx_def view_def)

lemma view_reset_vote:
  "\<exists>S \<subseteq> ev_timers (view n).
     view (vc_reset e VoteCtx n) = (view n)\<lparr>ev_version := ev_version (view n) + 1, ev_timers := S\<rparr>"
proof -
  obtain S where S: "S \<subseteq> ev_timers (view n)"
    and st: "view (stop_grant_self_timer e VoteCtx n) = (view n)\<lparr>ev_timers := S\<rparr>"
    using view_stop_vote_timer by blast
  have v: "vc_version (vote_ctx (stop_grant_self_timer e VoteCtx n)) = vc_version (vote_ctx n)"
    using arg_cong [OF st, of ev_version] by simp
  have "view (vc_reset e VoteCtx n) = (view (stop_grant_self_timer e VoteCtx n))\<lparr>ev_version := ev_version (view n) + 1\<rparr>"
    unfolding vc_reset_def by (rule view_upd_version) (simp_all add: v)
  then have "view (vc_reset e VoteCtx n) = (view n)\<lparr>ev_version := ev_version (view n) + 1, ev_timers := S\<rparr>"
    using st by simp
  with S show ?thesis by blast
qed

lemma view_init_vote:
  "\<exists>S \<subseteq> ev_timers (view n).
     view (vc_init e VoteCtx b n) = (view n)\<lparr>ev_version := ev_version (view n) + 1, ev_timers := S,
       ev_ballot := ballot_init (ce_conf (nd_conf n)) (joint_of (ce_conf (nd_conf n), ce_old_conf (nd_conf n)))\<rparr>"
proof -
  obtain S where S: "S \<subseteq> ev_timers (view n)"
    and r: "view (vc_reset e VoteCtx n) = (view n)\<lparr>ev_version := ev_version (view n) + 1, ev_timers := S\<rparr>"
    using view_reset_vote by blast
  have "vc_version (vote_ctx (vc_reset e VoteCtx n)) = ev_version (view n) + 1"
    using arg_cong [OF r, of ev_version] by simp
  then have "view (vc_init e VoteCtx b n) = (view n)\<lparr>ev_version := ev_version (view n) + 1, ev_timers := S,
      ev_ballot := ballot_init (ce_conf (nd_conf n)) (joint_of (ce_conf (nd_conf n), ce_old_conf (nd_conf n)))\<rparr>"
    using r by (simp add: vc_init_def upd_ctx_def joint_of_def ce_stable_def)
  with S show ?thesis by blast
qed

lemma view_leave_state:
  "is_active_state (nd_state n) \<Longrightarrow>
   \<exists>ver S. S \<subseteq> ev_timers (view n) \<and> ev_version (view n) \<le> ver
     \<and> (nd_state n = STATE_CANDIDATE \<longrightarrow> ev_version (view n) < ver)
     \<and> view (leave_state e st n) = (view n)\<lparr>ev_version := ver, ev_timers := S\<rparr>"
proof -
  assume act: "is_active_state (nd_state n)"
  have same: "view m = view n \<Longrightarrow> view m = (view n)\<lparr>ev_version := ev_version (view n), ev_timers := ev_timers (view n)\<rparr>" for m :: "('a, 'b) node"
    by simp
  show ?thesis
  proof (cases "nd_state n = STATE_CANDIDATE")
    case True
    obtain S where "S \<subseteq> ev_timers (view n)"
      "view (vc_reset e VoteCtx (call (StopTimer VoteTimer) n)) = (view n)\<lparr>ev_version := ev_version (view n) + 1, ev_timers := S\<rparr>"
      using view_reset_vote [of "call (StopTimer VoteTimer) n" e] by auto
    then show ?thesis using True
      by (intro exI [of _ "ev_version (view n) + 1"] exI [of _ S]) (simp add: leave_state_def)
  next
    case False
    then have "view (leave_state e st n) = view n"
      by (auto simp: leave_state_def Let_def split: prod.splits)
    from same [OF this] False show ?thesis
      by (intro exI [of _ "ev_version (view n)"] exI [of _ "ev_timers (view n)"]) simp
  qed
qed

lemma view_raise_term:
  "\<exists>m \<in> {ev_meta (view n), (t, empty_peer)}.
     view (raise_term e t n) = (if t > ev_term (view n)
       then (view n)\<lparr>ev_term := t, ev_voted := empty_peer, ev_meta := m\<rparr> else view n)"
proof -
  let ?m = "if meta_store_ok e t empty_peer then (t, empty_peer) else meta_storage n"
  have "view (raise_term e t n) = (if t > ev_term (view n)
      then (view n)\<lparr>ev_term := t, ev_voted := empty_peer, ev_meta := ?m\<rparr> else view n)"
    by (auto simp: raise_term_def set_term_and_votedfor_def view_def)
  then show ?thesis by (intro bexI [of _ ?m]) simp_all
qed

lemma view_step_down: "v_down t (view n) (view (step_down e t w st n))"
proof (cases "is_active_state (nd_state n)")
  case False
  then show ?thesis by (simp add: v_down_def step_down_def)
next
  case True
  obtain ver S where S: "S \<subseteq> ev_timers (view n)" "ev_version (view n) \<le> ver"
    "nd_state n = STATE_CANDIDATE \<longrightarrow> ev_version (view n) < ver"
    and lv: "view (leave_state e st n) = (view n)\<lparr>ev_version := ver, ev_timers := S\<rparr>"
    using view_leave_state [OF True, of e st] by (elim exE conjE) (rule that)
  define n1 where "n1 = reset_leader_id e empty_peer st (leave_state e st n)"
  define n2 where "n2 = clear_cache e ((cc_reset e None (n1\<lparr>nd_state := STATE_FOLLOWER\<rparr>))\<lparr>majority_nodes_readonly := False\<rparr>)"
  define n3 where "n3 = (if has_snapshot_executor e then call (InterruptDownloadingSnapshot t) n2 else n2)"
  have n3: "view n3 = (view n)\<lparr>ev_version := ver, ev_timers := S, ev_state := STATE_FOLLOWER\<rparr>"
    by (simp add: n3_def n2_def n1_def lv)
  have sd: "view (step_down e t w st n) = view (raise_term e t n3)"
    using True by (simp add: step_down_def Let_def n1_def n2_def n3_def)
  obtain m where m: "m \<in> {ev_meta (view n), (t, empty_peer)}"
    and eq: "view (raise_term e t n3) = (if t > ev_term (view n)
       then (view n)\<lparr>ev_version := ver, ev_timers := S, ev_state := STATE_FOLLOWER, ev_term := t,
              ev_voted := empty_peer, ev_meta := m\<rparr>
       else (view n)\<lparr>ev_version := ver, ev_timers := S, ev_state := STATE_FOLLOWER\<rparr>)"
    using view_raise_term [of n3 t e, unfolded n3] by (elim bexE) (rule that, simp_all)
  show ?thesis
    by (rule v_downI [OF _ S(1,2) _ m]) (use True S(3) sd eq in simp_all)
qed

end
