(* ===== verification/Raft_Node_Effects.thy ===== *)
theory Raft_Node_Effects
  imports Raft_Node_View
begin

text \<open>
  What the handlers of a node do to the view. Apart from starting an election, voting,
  counting a vote and taking over they only step down, take over a configuration of the
  log, stop the node, or change between leading and transferring the leadership; \<open>v_calm\<close>
  is a sequence of such changes.
\<close>

subsection \<open>Calm changes\<close>

inductive v_calm :: "eview \<Rightarrow> eview \<Rightarrow> bool" for v where
  Calm_same: "v_calm v v"
| Calm_conf: "v_calm v w \<Longrightarrow> v_calm v (w\<lparr>ev_conf := c\<rparr>)"
| Calm_down: "v_calm v w \<Longrightarrow> v_down t w w' \<Longrightarrow> v_calm v w'"
| Calm_stop: "v_calm v w \<Longrightarrow> \<not> is_active_state s \<Longrightarrow> v_calm v (w\<lparr>ev_state := s\<rparr>)"
| Calm_transfer: "v_calm v w \<Longrightarrow> ev_state w \<le> STATE_TRANSFERRING \<Longrightarrow> s \<le> STATE_TRANSFERRING \<Longrightarrow>
    v_calm v (w\<lparr>ev_state := s\<rparr>)"

lemma v_calm_trans: "v_calm v w \<Longrightarrow> v_calm w x \<Longrightarrow> v_calm v x"
  by (rotate_tac, induction rule: v_calm.induct) (auto intro: v_calm.intros)

lemma calm_step_down: "v_calm v (view n) \<Longrightarrow> v_calm v (view (step_down e t w st n))"
  by (rule Calm_down [OF _ view_step_down])

lemma view_append_to_log:
  "view m = view n \<Longrightarrow> \<exists>c. view (append_to_log ops d entries m) = (view n)\<lparr>ev_conf := c\<rparr>"
  by (auto simp: append_to_log_def split: prod.splits)

lemma calm_append_to_log: "v_calm v (view n) \<Longrightarrow> v_calm v (view (append_to_log ops d entries n))"
  using view_append_to_log [of n n ops d entries] by (auto intro: Calm_conf)

lemma view_apply_configuration:
  "view m = view n \<Longrightarrow> \<exists>c. view (unsafe_apply_configuration ops new old ls m) = (view n)\<lparr>ev_conf := c\<rparr>"
  unfolding unsafe_apply_configuration_def Let_def by (rule view_append_to_log) simp

lemma calm_apply_configuration:
  "v_calm v (view n) \<Longrightarrow> v_calm v (view (unsafe_apply_configuration ops new old ls n))"
  using view_apply_configuration [of n n ops new old ls] by (auto intro: Calm_conf)

lemma calm_check_step_down: "v_calm v (view n) \<Longrightarrow> v_calm v (view (check_step_down e t p n))"
  by (auto simp: check_step_down_def Let_def intro: calm_step_down)

lemma calm_next_stage: "v_calm v (view n) \<Longrightarrow> v_calm v (view (cc_next_stage e ops n))"
  by (auto simp: cc_next_stage_def Let_def intro!: calm_apply_configuration calm_step_down split: stage.splits)

lemma calm_cc_on_caughtup: "v_calm v (view n) \<Longrightarrow> v_calm v (view (cc_on_caughtup e ops ver p s n))"
  by (auto simp: cc_on_caughtup_def Let_def intro!: calm_next_stage)

lemma calm_start_catchup: "v_calm v (view n) \<Longrightarrow> v_calm v (view (start_catchup e ops ps n))"
  by (induction ps arbitrary: n) (auto simp: Let_def intro!: calm_cc_on_caughtup)

lemma calm_cc_start: "v_calm v (view n) \<Longrightarrow> v_calm v (view (cc_start e ops old new d n))"
  by (auto simp: cc_start_def Let_def intro!: calm_next_stage calm_start_catchup split: prod.splits)

lemmas calm_ops = calm_step_down calm_append_to_log calm_apply_configuration calm_check_step_down
  calm_next_stage calm_cc_on_caughtup calm_start_catchup calm_cc_start

subsection \<open>Calm handlers\<close>

lemma view_on_committed [simp]: "view (on_committed oc n) = view n"
  by (simp add: on_committed_def split: option.splits)

lemma view_run_done [simp]: "view (run_done d st n) = view n"
  by (simp add: run_done_def split: option.splits)

lemma view_commit_follower [simp]: "view (commit_follower i n) = view n"
  by (simp add: commit_follower_def split: prod.splits)

lemma view_leader_stable_run [simp]: "view (leader_stable_run st a k n) = view n"
  by (simp add: leader_stable_run_def split: prod.splits)

lemma view_follower_stable_run [simp]: "view (snd (follower_stable_run st r t n)) = view n"
  by (simp add: follower_stable_run_def)

lemma view_run_stable_closure [simp]: "view (snd (run_stable_closure k st n)) = view n"
  by (simp add: run_stable_closure_def Let_def case_prod_beta split: option.splits stable_done.splits)

lemma view_reject_tasks [simp]: "view (reject_tasks st ts n) = view n"
  by (simp add: reject_tasks_def)

lemma view_accept_tasks [simp]: "view (snd (accept_tasks ts es n)) = view n"
  by (induction ts es n rule: accept_tasks.induct) simp_all

lemma calm_apply: "v_calm v (view n) \<Longrightarrow> v_calm v (view (nd_apply ops ts n))"
  by (simp add: nd_apply_def Let_def case_prod_beta calm_append_to_log)

lemma calm_execute_applying_tasks:
  "v_calm v (view n) \<Longrightarrow> v_calm v (view (execute_applying_tasks ops k batch ts n))"
  by (induction ops k batch ts n rule: execute_applying_tasks.induct) (auto intro: calm_apply)

lemma view_cache_out_of_order [simp]: "view (snd (cache_out_of_order e i r n)) = view n"
  by (simp add: cache_out_of_order_def case_prod_beta)

lemma view_check_cache [simp]: "view (check_cache e k n) = view n"
  by (simp add: check_cache_def Let_def case_prod_beta)

lemma calm_append_matched: "v_calm v (view n) \<Longrightarrow> v_calm v (view (snd (append_matched e ops i r n)))"
  by (simp add: append_matched_def Let_def calm_append_to_log)

lemma calm_append_from_leader:
  "v_calm v (view n) \<Longrightarrow> v_calm v (view (snd (append_from_leader e ops i r fc n)))"
  by (auto simp: append_from_leader_def Let_def case_prod_beta intro!: calm_append_matched)

lemma calm_append_entries:
  "v_calm v (view n) \<Longrightarrow> v_calm v (view (snd (handle_append_entries_request e ops i r fc n)))"
  by (auto simp: handle_append_entries_request_def Let_def split: option.splits
      intro!: calm_append_from_leader calm_step_down calm_check_step_down)

lemma calm_append_entries_from_cache:
  "v_calm v (view n) \<Longrightarrow> v_calm v (view (snd (handle_append_entries_from_cache e ops rs n)))"
  by (induction rs arbitrary: n) (simp_all add: Let_def case_prod_beta calm_append_entries)

lemma calm_install_snapshot:
  "v_calm v (view n) \<Longrightarrow> v_calm v (view (snd (handle_install_snapshot_request e p t n)))"
  by (auto simp: handle_install_snapshot_request_def Let_def split: option.splits
      intro!: calm_step_down calm_check_step_down)

lemma calm_update_configuration:
  "v_calm v (view n) \<Longrightarrow> v_calm v (view (update_configuration_after_installing_snapshot n))"
  by (simp add: update_configuration_after_installing_snapshot_def Calm_conf)

lemma view_do_snapshot [simp]: "view (do_snapshot e d n) = view n"
  by (simp add: do_snapshot_def split: option.splits)

lemma view_snapshot_timeout [simp]: "view (handle_snapshot_timeout e n) = view n"
  by (simp add: handle_snapshot_timeout_def)

lemma view_cache_timedout [simp]: "view (cache_timedout e a b c n) = view n"
  by (simp add: cache_timedout_def Let_def case_prod_beta)

lemma view_leader_lease_start [simp]: "view (leader_lease_start e k n) = view n"
  by (simp add: leader_lease_start_def)

lemma calm_configuration_change_done:
  "v_calm v (view n) \<Longrightarrow> v_calm v (view (configuration_change_done_run e ops t ls le n))"
  by (auto simp: configuration_change_done_run_def on_configuration_change_done_def Let_def intro!: calm_next_stage)

lemma calm_on_caughtup: "v_calm v (view n) \<Longrightarrow> v_calm v (view (on_caughtup e ops p t ver st n))"
  by (auto simp: on_caughtup_def Let_def intro!: calm_cc_on_caughtup)

lemma calm_register_conf_change:
  "v_calm v (view n) \<Longrightarrow> v_calm v (view (unsafe_register_conf_change e ops old new d n))"
  by (auto simp: unsafe_register_conf_change_def intro!: calm_cc_start)

lemma calm_reset_peers: "v_calm v (view n) \<Longrightarrow> v_calm v (view (snd (reset_peers e c n)))"
  by (auto simp: reset_peers_def intro!: calm_step_down Calm_conf)

lemma calm_lease_status: "v_calm v (view n) \<Longrightarrow> v_calm v (view (snd (get_leader_lease_status e n)))"
  by (auto simp: get_leader_lease_status_def Let_def intro!: calm_step_down split: lease_internal_state.splits)

lemma calm_lease_valid: "v_calm v (view n) \<Longrightarrow> v_calm v (view (snd (is_leader_lease_valid e n)))"
  using calm_lease_status [of v n e] by (auto simp: is_leader_lease_valid_def split: prod.splits lease_state.splits)

lemma view_readonly_mode [simp]:
  "view (enter_readonly_mode n) = view n" "view (leave_readonly_mode n) = view n"
  "view (snd (change_readonly_config e t p ro n)) = view n"
  by (simp_all add: enter_readonly_mode_def leave_readonly_mode_def change_readonly_config_def)

lemma view_read_user_log: "view (snd (read_user_log ops la i n)) = view n"
proof (induction ops la i n rule: read_user_log.induct)
  case (1 ops la i n)
  show ?case
    by (subst read_user_log.simps) (use 1 in \<open>auto simp: Let_def split: prod.splits option.splits\<close>)
qed

lemma view_read_committed_user_log [simp]: "view (snd (read_committed_user_log ops la i n)) = view n"
  by (simp add: read_committed_user_log_def view_read_user_log)

subsection \<open>Calm handlers of votes and timers\<close>

lemma view_pre_vote_begin [simp]: "view (pre_vote_begin e tr n) = view n"
  by (simp add: pre_vote_begin_def)

lemma view_election_timeout [simp]: "view (handle_election_timeout e n) = view n"
  by (simp add: handle_election_timeout_def Let_def)

lemma calm_check_dead_nodes: "v_calm v (view n) \<Longrightarrow> v_calm v (view (check_dead_nodes e c n))"
  by (simp add: check_dead_nodes_def Let_def calm_step_down)

lemma calm_stepdown_timeout: "v_calm v (view n) \<Longrightarrow> v_calm v (view (handle_stepdown_timeout e n))"
  by (simp add: handle_stepdown_timeout_def Let_def calm_check_dead_nodes)

lemma view_unsafe_reset_election_timeout [simp]:
  "view (unsafe_reset_election_timeout_ms e a b n) = view n"
  by (simp add: unsafe_reset_election_timeout_ms_def Let_def)

lemma view_reset_election_timeout [simp]:
  "view (snd (reset_election_timeout_within e a n)) = view n"
  "view (snd (reset_election_timeout_ms e a n)) = view n"
  "view (reset_election_timeout_and_drift_ms e a b n) = view n"
  by (simp_all add: reset_election_timeout_within_def reset_election_timeout_ms_def
      reset_election_timeout_and_drift_ms_def Let_def)

lemma view_vote [simp]: "view (snd (nd_vote e t n)) = view n"
  by (simp add: nd_vote_def Let_def case_prod_beta)

lemma view_pre_vote_request_begin [simp]: "view (snd (handle_pre_vote_request_begin i r n)) = view n"
  by (simp add: handle_pre_vote_request_begin_def)

lemma calm_transfer_timeout: "v_calm v (view n) \<Longrightarrow> v_calm v (view (handle_transfer_timeout t p n))"
  by (auto simp: handle_transfer_timeout_def Let_def intro!: Calm_transfer)

lemma calm_transfer_leadership: "v_calm v (view n) \<Longrightarrow> v_calm v (view (snd (transfer_leadership_to e p n)))"
  by (auto simp: transfer_leadership_to_def Let_def split: option.splits
      intro!: calm_transfer_timeout Calm_transfer)

lemma calm_increase_term: "v_calm v (view n) \<Longrightarrow> v_calm v (view (snd (increase_term_to e t st n)))"
  by (simp add: increase_term_to_def calm_step_down)

lemma inactive: "\<not> is_active_state STATE_ERROR" "\<not> is_active_state STATE_SHUTTING" "\<not> is_active_state STATE_SHUTDOWN"
  by (simp_all add: is_active_state_iff)

lemma calm_on_error: "v_calm v (view n) \<Longrightarrow> v_calm v (view (nd_on_error e err n))"
  by (auto simp: nd_on_error_def Let_def inactive intro!: Calm_stop calm_step_down)

lemma calm_shutdown: "v_calm v (view n) \<Longrightarrow> v_calm v (view (nd_shutdown e d n))"
  by (auto simp: nd_shutdown_def Let_def case_prod_beta inactive split: option.splits intro!: Calm_stop calm_step_down)

lemma calm_after_shutdown: "v_calm v (view n) \<Longrightarrow> v_calm v (view (after_shutdown n))"
  by (simp add: after_shutdown_def Let_def Calm_stop inactive)

subsection \<open>Handlers that may start an election\<close>

lemma v_electI:
  assumes "ev_server v |\<in>| fst (ev_conf v) |\<union>| snd (ev_conf v)" "S \<subseteq> ev_timers v"
    "v' = v\<lparr>ev_state := STATE_CANDIDATE, ev_term := ev_term v + 1, ev_voted := ev_server v,
             ev_ballot := ballot_init (fst (ev_conf v)) (joint_of (ev_conf v)),
             ev_version := ev_version v + 1, ev_timers := S,
             ev_pending := ev_pending v @ [ev_term v + 1]\<rparr>"
  shows "v_elect v v'"
  unfolding v_elect_def by (simp only: assms(1) not_True_eq_False if_False) (rule exI [of _ S], intro conjI; fact assms)

lemma vc_init_sel [simp]: "current_term (vc_init e k b n) = current_term n" "server_id (vc_init e k b n) = server_id n"
  by (simp_all add: vc_init_def upd_ctx_def split: ctx_kind.splits)

lemma vc_set_disrupted_leader_sel [simp]:
  "current_term (vc_set_disrupted_leader k d n) = current_term n"
  by (simp add: vc_set_disrupted_leader_def upd_ctx_def split: ctx_kind.splits)

lemmas reset_leader_id_sel = view_eqD [OF view_reset_leader_id]

lemma elect_self_begin_effect: "v_elect (view n) (view (elect_self_begin e b n))"
proof (cases "ce_contains (nd_conf n) (server_id n)")
  case False
  then show ?thesis by (simp add: v_elect_def elect_self_begin_def ce_contains_def conf_contains_def)
next
  case True
  define m where "m = (let n = (if nd_state n = STATE_FOLLOWER then call (StopTimer ElectionTimer) n else n);
            n = reset_leader_id e empty_peer ERAFTTIMEDOUT n;
            n = n\<lparr>nd_state := STATE_CANDIDATE, current_term := current_term n + 1, voted_id := server_id n\<rparr>;
            n = call (StartTimer VoteTimer) n
        in vc_reset e PreVoteCtx n)"
  have m: "view m = (view n)\<lparr>ev_state := STATE_CANDIDATE, ev_term := current_term n + 1, ev_voted := server_id n\<rparr>"
    by (simp add: m_def Let_def reset_leader_id_sel)
  have c: "ce_conf (nd_conf m) = ce_conf (nd_conf n)" "ce_old_conf (nd_conf m) = ce_old_conf (nd_conf n)"
    using arg_cong [OF m, of ev_conf] by simp_all
  obtain S where S: "S \<subseteq> ev_timers (view m)"
    and i: "view (vc_init e VoteCtx False m) = (view m)\<lparr>ev_version := ev_version (view m) + 1, ev_timers := S,
       ev_ballot := ballot_init (ce_conf (nd_conf m)) (joint_of (ce_conf (nd_conf m), ce_old_conf (nd_conf m)))\<rparr>"
    using view_init_vote [of m e False] by (elim exE conjE) (rule that)
  have "view (elect_self_begin e b n) = view (pause (ElectSelfPaused (current_term n + 1)) (vc_init e VoteCtx False m))"
    using True by (simp add: elect_self_begin_def Let_def m_def reset_leader_id_sel)
  also have "\<dots> = (view m)\<lparr>ev_version := ev_version (view m) + 1, ev_timers := S,
       ev_ballot := ballot_init (ce_conf (nd_conf m)) (joint_of (ce_conf (nd_conf m), ce_old_conf (nd_conf m))),
       ev_pending := ev_pending (view m) @ [current_term n + 1]\<rparr>"
    unfolding view_pause i by simp
  finally have "view (elect_self_begin e b n) = (view n)\<lparr>ev_state := STATE_CANDIDATE, ev_term := ev_term (view n) + 1,
      ev_voted := ev_server (view n),
      ev_ballot := ballot_init (fst (ev_conf (view n))) (joint_of (ev_conf (view n))),
      ev_version := ev_version (view n) + 1, ev_timers := S, ev_pending := ev_pending (view n) @ [ev_term (view n) + 1]\<rparr>"
    unfolding m c by simp
  moreover have "S \<subseteq> ev_timers (view n)" using S unfolding m by simp
  moreover have "ev_server (view n) |\<in>| fst (ev_conf (view n)) |\<union>| snd (ev_conf (view n))"
    using True by (simp add: ce_contains_def conf_contains_def)
  ultimately show ?thesis by (intro v_electI)
qed

definition v_plain :: "eview \<Rightarrow> eview \<Rightarrow> bool" where
  "v_plain v v' \<longleftrightarrow> v_calm v v' \<or> (\<exists>w. v_calm v w \<and> v_elect w v')"

lemma plain_calm: "v_calm v v' \<Longrightarrow> v_plain v v'"
  by (simp add: v_plain_def)

lemma plain_elect: "v_calm v (view n) \<Longrightarrow> v_plain v (view (elect_self_begin e b n))"
  using elect_self_begin_effect [of n e b] by (auto simp: v_plain_def)

lemma plain_refl: "v_plain v v"
  by (simp add: v_plain_def Calm_same)

lemma plain_step_down: "v_calm v (view n) \<Longrightarrow> v_plain v (view (step_down e t w st n))"
  by (intro plain_calm calm_step_down)

lemmas plain_intros = plain_refl plain_step_down plain_elect Calm_same

lemma plain_vote_timeout: "v_plain (view n) (view (handle_vote_timeout e n))"
  by (simp add: handle_vote_timeout_def plain_intros)

lemma plain_grant_self: "view m = view n \<Longrightarrow> v_plain (view n) (view (grant_self e ops PreVoteCtx m))"
  by (simp add: grant_self_def Let_def plain_intros)

lemma plain_pre_vote_end: "v_plain (view n) (view (pre_vote_end e ops l t tr n))"
  by (simp add: pre_vote_end_def Let_def plain_refl plain_grant_self)

lemma view_grant_peer_pre_vote [simp]: "view (grant_peer e PreVoteCtx p n) = view n"
  by (simp add: grant_peer_def Let_def)

lemma view_grant_peers_pre_vote [simp]: "view (foldl (\<lambda>n p. grant_peer e PreVoteCtx p n) n ps) = view n"
  by (induction ps arbitrary: n) simp_all

lemma plain_pre_vote_response: "v_plain (view n) (view (handle_pre_vote_response e p t ver r n))"
  by (simp add: handle_pre_vote_response_def Let_def case_prod_beta plain_intros)

lemma plain_timeout_now: "v_plain (view n) (view (snd (handle_timeout_now_request e r n)))"
  by (simp add: handle_timeout_now_request_def Let_def plain_intros)

lemma plain_grant_self_timedout: "v_plain (view n) (view (handle_grant_self_timedout e ops PreVoteCtx ver n))"
  by (simp add: handle_grant_self_timedout_def plain_grant_self plain_refl)

subsection \<open>Taking over and counting votes\<close>

lemma v_leadI: "S \<subseteq> ev_timers v \<Longrightarrow>
    v' = v\<lparr>ev_state := STATE_LEADER, ev_version := ev_version v + 1, ev_timers := S, ev_conf := c\<rparr> \<Longrightarrow> v_lead v v'"
  unfolding v_lead_def by (rule exI [of _ S], rule exI [of _ c]) (rule conjI)

lemma become_leader_effect: "v_lead (view n) (view (become_leader e ops n))"
proof -
  obtain S where S: "S \<subseteq> ev_timers (view n)"
    and r: "view (vc_reset e VoteCtx (call (StopTimer VoteTimer) n)) =
      (view n)\<lparr>ev_version := ev_version (view n) + 1, ev_timers := S\<rparr>"
    using view_reset_vote [of "call (StopTimer VoteTimer) n" e] by (elim exE conjE) (rule that, simp_all)
  let ?m = "(vc_reset e VoteCtx (call (StopTimer VoteTimer) n))\<lparr>nd_state := STATE_LEADER\<rparr>"
  have "\<exists>c. view (become_leader e ops n) = (view ?m)\<lparr>ev_conf := c\<rparr>"
    unfolding become_leader_def cc_flush_def Let_def
    by (simp only: view_silent_call sent.simps) (rule view_apply_configuration, simp)
  then obtain c where c: "view (become_leader e ops n) =
      (view n)\<lparr>ev_version := ev_version (view n) + 1, ev_timers := S, ev_state := STATE_LEADER, ev_conf := c\<rparr>"
    unfolding view_upd r by (elim exE) (rule that)
  show ?thesis by (rule v_leadI [OF S, of _ c]) (simp add: c)
qed

definition own_requests :: "eview \<Rightarrow> (peer_id \<times> vote_request \<times> int \<times> int) set \<Rightarrow> bool" where
  "own_requests v X \<longleftrightarrow> (\<forall>(p, r, t, ver) \<in> X. p \<noteq> ev_server v \<and> rv_server_id r = Some (ev_server v)
     \<and> rv_term r = ev_term v \<and> t = ev_term v)"

lemma view_request_peers:
  "\<exists>X. own_requests (view n) X \<and> view (request_peers_to_vote e ps d n) = (view n)\<lparr>ev_out := ev_out (view n) \<union> X\<rparr>"
  unfolding request_peers_to_vote_def
  by (rule exI, rule conjI [OF _ view_calls]) (auto simp: own_requests_def)

definition v_counted :: "ballot \<Rightarrow> eview \<Rightarrow> eview \<Rightarrow> bool" where
  "v_counted b v v' \<longleftrightarrow>
     (if granted b then v_lead (v\<lparr>ev_ballot := b\<rparr>) v' else v' = v\<lparr>ev_ballot := b\<rparr>)"

text \<open>A node grants itself its vote, or waits until the lease it gave has run out.\<close>

definition v_grant_self :: "eview \<Rightarrow> eview \<Rightarrow> bool" where
  "v_grant_self v v' \<longleftrightarrow> v' = v \<or> v' = v\<lparr>ev_timers := insert (ev_version v) (ev_timers v)\<rparr>
     \<or> v_counted (grant_no_hint (ev_server v) (ev_ballot v)) v v'"

lemma view_vc_grant: "view (vc_grant VoteCtx p n) = (view n)\<lparr>ev_ballot := grant_no_hint p (ev_ballot (view n))\<rparr>"
  by (simp add: vc_grant_def upd_ctx_def view_def)

lemma view_start_vote_timer:
  "view (start_grant_self_timer e VoteCtx n) \<in> {view n, (view n)\<lparr>ev_timers := insert (ev_version (view n)) (ev_timers (view n))\<rparr>}"
  by (auto simp: start_grant_self_timer_def Let_def upd_ctx_def view_def get_ctx_def)

lemma vc_granted_view: "vc_granted VoteCtx n \<longleftrightarrow> granted (ev_ballot (view n))"
  by (simp add: vc_granted_def get_ctx_def)

lemma grant_self_effect: "v_grant_self (view n) (view (grant_self e ops VoteCtx n))"
proof (cases "fl_votable_time_from_now (enable_leader_lease e) (now_ms e) (nd_follower_lease n) = 0")
  case True
  have "v_counted (grant_no_hint (server_id n) (vc_ballot (vote_ctx n))) (view n) (view (grant_self e ops VoteCtx n))"
    using True become_leader_effect [of "vc_grant VoteCtx (server_id n) n" e ops]
    by (simp add: grant_self_def Let_def v_counted_def vc_granted_view view_vc_grant del: view_sel(7))
      (simp add: view_sel)
  then show ?thesis by (simp add: v_grant_self_def)
next
  case False
  then show ?thesis using view_start_vote_timer [of e n] by (auto simp: grant_self_def v_grant_self_def)
qed

lemma elect_self_end_effect:
  assumes "meta_store_ok e t (server_id n)"
  shows "view (elect_self_end e ops l t n) = view n \<or> (t = current_term n \<and>
    (\<exists>X. own_requests (view n) X \<and> v_grant_self
       ((view n)\<lparr>ev_out := ev_out (view n) \<union> X, ev_meta := (current_term n, server_id n)\<rparr>)
       (view (elect_self_end e ops l t n))))"
proof (cases "t = current_term n")
  case True
  define m where "m = vc_set_last_log_id VoteCtx l n"
  define r where "r = request_peers_to_vote e (ce_list_peers (nd_conf m)) (vc_disrupted_leader (vote_ctx m)) m"
  have m: "view m = view n" by (simp add: m_def)
  obtain X where X: "own_requests (view n) X" and r: "view r = (view n)\<lparr>ev_out := ev_out (view n) \<union> X\<rparr>"
    using view_request_peers [of m e "ce_list_peers (nd_conf m)" "vc_disrupted_leader (vote_ctx m)", folded r_def, unfolded m]
    by (elim exE conjE) (rule that)
  have tr: "current_term r = current_term n" "server_id r = server_id n"
    using arg_cong [OF r, of ev_term] arg_cong [OF r, of ev_server] by simp_all
  have "elect_self_end e ops l t n = grant_self e ops VoteCtx (r\<lparr>meta_storage := (current_term n, server_id n)\<rparr>)"
    using assms True tr by (simp add: elect_self_end_def Let_def set_term_and_votedfor_def m_def r_def)
  then show ?thesis
    using X True grant_self_effect [of "r\<lparr>meta_storage := (current_term n, server_id n)\<rparr>" e ops] r by auto
qed (simp add: elect_self_end_def)

text \<open>An answer to a request for a vote.\<close>

definition v_response :: "peer_id \<Rightarrow> bool \<Rightarrow> eview \<Rightarrow> eview \<Rightarrow> bool" where
  "v_response p granted_it v v' \<longleftrightarrow>
     (\<exists>X. own_requests v X \<and> v' = v\<lparr>ev_out := ev_out v \<union> X\<rparr>)
     \<or> granted_it \<and> (\<exists>b S X. b \<in> {grant_no_hint p (ev_ballot v), grant_no_hint (ev_server v) (grant_no_hint p (ev_ballot v))}
         \<and> S \<subseteq> ev_timers v \<and> own_requests v X
         \<and> v_counted b (v\<lparr>ev_timers := S, ev_out := ev_out v \<union> X\<rparr>) v')"

lemma view_retry:
  "\<exists>X. own_requests (view n) X \<and> view (retry_vote_on_reserved_peers e n) = (view n)\<lparr>ev_out := ev_out (view n) \<union> X\<rparr>"
proof (cases "fst (vc_pop_grantable_peers VoteCtx n) = {||}")
  case True
  then show ?thesis
    by (intro exI [of _ "{}"]) (simp add: retry_vote_on_reserved_peers_def case_prod_beta own_requests_def)
next
  case False
  then show ?thesis
    using view_request_peers [of "snd (vc_pop_grantable_peers VoteCtx n)" e "fst (vc_pop_grantable_peers VoteCtx n)"]
    by (simp add: retry_vote_on_reserved_peers_def case_prod_beta)
qed

lemma view_grant_peer:
  "\<exists>b \<in> {grant_no_hint p (ev_ballot (view n)), grant_no_hint (ev_server (view n)) (grant_no_hint p (ev_ballot (view n)))}.
     \<exists>S \<subseteq> ev_timers (view n). view (grant_peer e VoteCtx p n) = (view n)\<lparr>ev_ballot := b, ev_timers := S\<rparr>"
proof (cases "p = fl_last_leader (nd_follower_lease (vc_grant VoteCtx p n))")
  case False
  then have "view (grant_peer e VoteCtx p n) =
      (view n)\<lparr>ev_ballot := grant_no_hint p (ev_ballot (view n)), ev_timers := ev_timers (view n)\<rparr>"
    by (simp add: grant_peer_def Let_def view_vc_grant)
  then show ?thesis by blast
next
  case True
  have sv: "server_id (vc_grant VoteCtx p n) = server_id n"
    by (simp add: vc_grant_def upd_ctx_def)
  let ?m = "vc_grant VoteCtx (server_id n) (vc_grant VoteCtx p n)"
  have m: "view ?m = (view n)\<lparr>ev_ballot := grant_no_hint (ev_server (view n)) (grant_no_hint p (ev_ballot (view n)))\<rparr>"
    unfolding view_vc_grant by simp
  obtain S where S: "S \<subseteq> ev_timers (view ?m)" and st: "view (stop_grant_self_timer e VoteCtx ?m) = (view ?m)\<lparr>ev_timers := S\<rparr>"
    using view_stop_vote_timer [of ?m e] by (elim exE conjE) (rule that)
  have "view (grant_peer e VoteCtx p n) = (view n)\<lparr>ev_ballot := grant_no_hint (ev_server (view n)) (grant_no_hint p (ev_ballot (view n))), ev_timers := S\<rparr>"
    using True st unfolding m by (simp add: grant_peer_def Let_def sv)
  moreover have "S \<subseteq> ev_timers (view n)" using S unfolding m by simp
  ultimately show ?thesis by blast
qed

lemma request_vote_response_effect:
  "v_calm (view n) (view (handle_request_vote_response e ops p t ver r n))
   \<or> nd_state n = STATE_CANDIDATE \<and> t = current_term n
     \<and> v_response p (vr_granted r) (view n) (view (handle_request_vote_response e ops p t ver r n))"
proof (cases "ver \<noteq> vc_version (vote_ctx n) \<or> nd_state n \<noteq> STATE_CANDIDATE \<or> t \<noteq> current_term n
    \<or> vr_term r > current_term n \<or> \<not> vr_granted r \<and> \<not> vr_rejected_by_lease r")
  case True
  then show ?thesis by (auto simp: handle_request_vote_response_def intro: Calm_same calm_step_down)
next
  case False
  define m where "m = (if vr_disrupted r then vc_set_disrupted_leader VoteCtx (p, vr_previous_term r) n else n)"
  have m: "view m = view n" by (simp add: m_def)
  have "v_response p (vr_granted r) (view n) (view (handle_request_vote_response e ops p t ver r n))"
  proof (cases "vr_granted r")
    case g: False
    then have "handle_request_vote_response e ops p t ver r n = retry_vote_on_reserved_peers e (vc_reserve VoteCtx p m)"
      using False by (simp add: handle_request_vote_response_def Let_def m_def)
    then show ?thesis using view_retry [of "vc_reserve VoteCtx p m" e] by (simp add: v_response_def m)
  next
    case g: True
    obtain b S where b: "b \<in> {grant_no_hint p (ev_ballot (view n)), grant_no_hint (ev_server (view n)) (grant_no_hint p (ev_ballot (view n)))}"
      and S: "S \<subseteq> ev_timers (view n)"
      and gp: "view (grant_peer e VoteCtx p m) = (view n)\<lparr>ev_ballot := b, ev_timers := S\<rparr>"
      using view_grant_peer [of p m e] unfolding m by (elim bexE exE conjE) (rule that)
    let ?g = "grant_peer e VoteCtx p m"
    have gp': "view ?g = (view n)\<lparr>ev_timers := S, ev_ballot := b\<rparr>" by (simp add: gp)
    have eq: "handle_request_vote_response e ops p t ver r n =
        (if vc_granted VoteCtx ?g then become_leader e ops ?g else retry_vote_on_reserved_peers e ?g)"
      using False g by (simp add: handle_request_vote_response_def Let_def m_def)
    have gr: "vc_granted VoteCtx ?g \<longleftrightarrow> granted b" unfolding vc_granted_view gp by simp
    obtain X where X: "own_requests (view n) X" and rt: "view (retry_vote_on_reserved_peers e ?g) =
        (view n)\<lparr>ev_ballot := b, ev_timers := S, ev_out := ev_out (view n) \<union> X\<rparr>"
      using view_retry [of ?g e] unfolding gp by (elim exE conjE) (rule that, simp_all add: own_requests_def)
    have "v_counted b ((view n)\<lparr>ev_timers := S, ev_out := ev_out (view n) \<union> (if granted b then {} else X)\<rparr>)
        (view (handle_request_vote_response e ops p t ver r n))"
      using become_leader_effect [of ?g e ops] rt unfolding gp' eq gr by (simp add: v_counted_def)
    moreover have "own_requests (view n) (if granted b then {} else X)"
      using X by (simp add: own_requests_def)
    ultimately show ?thesis using g b S unfolding v_response_def by blast
  qed
  then show ?thesis using False by simp
qed

subsection \<open>Voting\<close>

lemma view_expire_for_disrupted [simp]: "view (expire_for_disrupted r n) = view n"
  by (simp add: expire_for_disrupted_def split: option.splits)

lemma request_vote_begin_effect:
  assumes "handle_request_vote_request_begin i r n = (out, n')"
  shows "view n' \<in> {view n} \<union> {(view n)\<lparr>ev_asked := insert (r, c) (ev_asked (view n))\<rparr> | c. rv_server_id r = Some c}"
    and "out = Some (st, Some resp) \<Longrightarrow> \<not> vr_granted resp"
  using assms by (auto simp: handle_request_vote_request_begin_def Let_def vote_reply_def split: if_splits option.splits)

text \<open>After an optional step down the node may vote for the candidate, if it has not voted yet.\<close>

definition v_vote :: "peer_id \<Rightarrow> eview \<Rightarrow> eview \<Rightarrow> bool" where
  "v_vote c v v' \<longleftrightarrow> (\<exists>w. v_calm v w \<and>
     (v' = w \<or> ev_voted w = empty_peer \<and> v' = w\<lparr>ev_voted := c, ev_meta := (ev_term w, c)\<rparr>))"

lemma peer_is_empty_iff: "peer_is_empty p \<longleftrightarrow> p = empty_peer"
  by (cases p) (simp add: peer_is_empty_def empty_peer_def)

lemma v_down_voted: "v_down t v v' \<Longrightarrow> ev_voted v = empty_peer \<Longrightarrow> ev_voted v' = empty_peer"
  by (auto simp: v_down_def split: if_splits)

lemma save_vote_effect:
  assumes "v_calm v (view n)" "voted_id n = empty_peer"
  shows "v_vote c v (view (save_vote e r c n))"
proof -
  let ?m = "step_down e (rv_term r) False EVOTEFORCANDIDATE n"
  have "ev_voted (view ?m) = empty_peer"
    using v_down_voted [OF view_step_down] assms(2) by simp
  then have "view (save_vote e r c n) \<in> {view ?m, (view ?m)\<lparr>ev_voted := c, ev_meta := (current_term ?m, c)\<rparr>}"
    by (auto simp: save_vote_def Let_def set_term_and_votedfor_def view_def)
  moreover have "v_calm v (view ?m)" by (rule calm_step_down) (rule assms)
  ultimately show ?thesis
    using \<open>ev_voted (view ?m) = empty_peer\<close> unfolding v_vote_def by (intro exI [of _ "view ?m"]) auto
qed

lemma v_vote_calm: "v_calm v w \<Longrightarrow> v_vote c v w"
  by (auto simp: v_vote_def)

lemma request_vote_end_effect:
  "v_vote c (view n) (view (snd (handle_request_vote_request_end e l r c pt n)))"
proof -
  have s: "v_vote c (view n) (view (if b \<and> peer_is_empty (voted_id m) then save_vote e r c m else m))"
    if "v_calm (view n) (view m)" for m b
    using that save_vote_effect [OF that] by (simp add: peer_is_empty_iff v_vote_calm)
  show ?thesis
    using s [OF Calm_same] s [OF calm_step_down [OF Calm_same]]
    by (simp add: handle_request_vote_request_end_def Let_def v_vote_calm Calm_same)
qed

lemma request_vote_end_granted:
  assumes "handle_request_vote_request_end e l r c pt n = (resp, n')" "vr_granted resp"
  shows "rv_term r = current_term n'" "voted_id n' = c"
  using assms by (auto simp: handle_request_vote_request_end_def Let_def vote_reply_def case_prod_beta split: if_splits)

subsection \<open>Start\<close>

lemma view_node_new:
  "view (node_new i meta lm) = \<lparr>ev_state = STATE_UNINITIALIZED, ev_term = 0, ev_voted = empty_peer, ev_meta = meta,
     ev_server = i, ev_conf = ({||}, {||}), ev_ballot = ballot_new, ev_version = 0, ev_pending = [],
     ev_timers = {}, ev_asked = {}, ev_out = {}\<rparr>"
  by (simp add: view_def node_new_def vote_ctx_new_def map_filter_simps)

text \<open>A node that has started as a follower.\<close>

definition v_started :: "peer_id \<Rightarrow> int \<times> peer_id \<Rightarrow> eview \<Rightarrow> bool" where
  "v_started i meta v \<longleftrightarrow> ev_server v = i \<and> ev_meta v = meta \<and> ev_pending v = [] \<and> ev_timers v = {}
     \<and> ev_asked v = {} \<and> ev_out v = {} \<and> ev_state v = STATE_FOLLOWER \<and> ev_term v = fst meta \<and> ev_voted v = snd meta"

lemma v_down_started: "v_started i meta v \<Longrightarrow> v_down (fst meta) v v' \<Longrightarrow> v_started i meta v'"
  by (auto simp: v_started_def v_down_def split: if_splits)

lemma init_follower_effect:
  assumes m: "ev_server (view n) = i" "ev_meta (view n) = meta" "ev_pending (view n) = []" "ev_timers (view n) = {}"
    "ev_asked (view n) = {}" "ev_out (view n) = {}"
  shows "v_started i meta (view (init_follower e io n))"
proof -
  define n1 where "n1 = n\<lparr>nd_conf := (nd_conf n)\<lparr>ce_id := LogId 0 0\<rparr>\<rparr>"
  define n2 where "n2 = (if last_log_index (nd_lm n1) > 0
               then n1\<lparr>nd_conf := snd (check_and_set_configuration (nd_conf n1) (nd_lm n1))\<rparr>
               else n1\<lparr>nd_conf := (nd_conf n1)\<lparr>ce_conf := io_initial_conf io\<rparr>\<rparr>)"
  define n3 where "n3 = init_meta n2"
  define n4 where "n4 = (if current_term n3 = 1 \<and> peer_is_empty (voted_id n3)
               then n3\<lparr>nd_follower_lease := fl_reset (nd_follower_lease n3)\<rparr> else n3)"
  define n5 where "n5 = n4\<lparr>nd_state := STATE_FOLLOWER\<rparr>"
  define n6 where "n6 = (if has_snapshot_executor e \<and> io_snapshot_interval_s io > 0
               then call (StartTimer SnapshotTimer) n5 else n5)"
  have "\<exists>c. view n2 = (view n)\<lparr>ev_conf := c\<rparr>"
    by (auto simp: n1_def n2_def)
  then obtain c where c: "view n2 = (view n)\<lparr>ev_conf := c\<rparr>" by (elim exE) (rule that)
  have "meta_storage n2 = meta" using arg_cong [OF c, of ev_meta] m by simp
  then have "view n3 = (view n)\<lparr>ev_conf := c, ev_term := fst meta, ev_voted := snd meta\<rparr>"
    by (simp add: n3_def init_meta_def c)
  then have "view n6 = (view n)\<lparr>ev_conf := c, ev_term := fst meta, ev_voted := snd meta, ev_state := STATE_FOLLOWER\<rparr>"
    by (simp add: n6_def n5_def n4_def)
  then have st: "v_started i meta (view n6)" using m by (simp add: v_started_def)
  then have t: "current_term n6 = fst meta" by (simp add: v_started_def)
  have "init_follower e io n = (if ce_conf (nd_conf n6) \<noteq> {||} then step_down e (current_term n6) False 0 n6 else n6)"
    unfolding init_follower_def
    by (subst Let_def, fold n1_def, subst Let_def, fold n2_def, subst Let_def, fold n3_def, subst Let_def, fold n4_def,
        subst Let_def, fold n5_def, subst Let_def, fold n6_def) simp
  then show ?thesis using st t v_down_started [OF st view_step_down] by simp
qed

lemma view_init_components:
  "fst (init_components e ops io n) \<Longrightarrow> view (snd (init_components e ops io n)) =
     (view n)\<lparr>ev_term := fst (meta_storage n), ev_voted := snd (meta_storage n)\<rparr>"
  by (simp add: init_components_def Let_def case_prod_beta init_meta_def split: if_splits)

lemma init_effect:
  assumes "nd_init e ops io (node_new i meta lm) = (0, n' :: ('s, 'c) node)"
  shows "\<exists>w. v_started i meta w \<and> (view n' = w \<or> v_elect w (view n'))"
proof -
  let ?n = "node_new i meta lm :: ('s, 'c) node"
  let ?m = "snd (init_components e ops io ?n)"
  have ok: "fst (init_components e ops io ?n)" and io: "io_add_to_manager_ok io"
    using assms by (auto simp: nd_init_def Let_def case_prod_beta split: if_splits)
  have "v_started i meta (view (init_follower e io ?m))"
    by (rule init_follower_effect; unfold view_init_components [OF ok]) (simp_all add: view_node_new del: view_sel)
  moreover have "n' = init_follower e io ?m \<or> n' = elect_self_begin e False (init_follower e io ?m)"
    using assms ok io by (auto simp: nd_init_def Let_def case_prod_beta)
  ultimately show ?thesis using elect_self_begin_effect by metis
qed

end
