(* ===== verification/Raft_Election_Invariant.thy ===== *)
theory Raft_Election_Invariant
  imports Raft_Node_Effects
begin

text \<open>
  What holds of the view of one node, given the votes that all nodes have stored so far,
  and that every change of \<open>Raft_Node_Effects\<close> keeps it.
\<close>

subsection \<open>Votes and quorums\<close>

type_synonym votes = "(peer_id \<times> int \<times> peer_id) set"

abbreviation members :: "configuration \<times> configuration \<Rightarrow> configuration" where
  "members C \<equiv> fst C |\<union>| snd C"

abbreviation quorum :: "configuration \<times> configuration \<Rightarrow> peer_id set \<Rightarrow> bool" where
  "quorum C V \<equiv> majority.joint_quorum (fst C) (joint_of C) V"

text \<open>
  A leader has a quorum of stored votes. A node that is alone in the configuration may take
  over in a term in which its vote is not stored.
\<close>

definition elected :: "configuration \<times> configuration \<Rightarrow> votes \<Rightarrow> int \<Rightarrow> peer_id \<Rightarrow> bool" where
  "elected C H T i \<longleftrightarrow> i |\<in>| members C
     \<and> (\<exists>V. quorum C V \<and> ((\<forall>v \<in> V. (v, T, i) \<in> H) \<or> V = {i}))"

lemma elected_mono: "elected C H T i \<Longrightarrow> H \<subseteq> H' \<Longrightarrow> elected C H' T i"
  unfolding elected_def by blast

lemma majority_single: "majority c {i} \<Longrightarrow> c = {|i|}"
proof -
  assume m: "majority c {i}"
  then have "fcard c < 2 * card ({i} \<inter> fset c)" by (simp add: majority_def)
  then have i: "i \<in> fset c" and "card (fset c) \<le> 1"
    by (cases "i |\<in>| c"; auto simp: fcard.rep_eq Int_insert_left)+
  then have "fset c = {i}"
    using card_le_Suc0_iff_eq [of "fset c"] by auto
  then show ?thesis by (simp add: fset_inject [symmetric])
qed

lemma quorum_single: "quorum C {i} \<Longrightarrow> members C = {|i|}"
  by (auto simp: majority.joint_quorum_def joint_of_def dest!: majority_single split: if_splits)

definition one_vote :: "votes \<Rightarrow> bool" where
  "one_vote H \<longleftrightarrow> (\<forall>v T c d. (v, T, c) \<in> H \<longrightarrow> (v, T, d) \<in> H \<longrightarrow> c \<noteq> empty_peer \<longrightarrow> d \<noteq> empty_peer \<longrightarrow> c = d)"

lemma elected_unique:
  assumes i: "elected C H T i" and j: "elected C H T j" and H: "one_vote H"
    and e: "empty_peer |\<notin>| members C"
  shows "i = j"
proof -
  obtain V where V: "quorum C V" "(\<forall>v \<in> V. (v, T, i) \<in> H) \<or> V = {i}" and im: "i |\<in>| members C"
    using i by (auto simp: elected_def)
  obtain W where W: "quorum C W" "(\<forall>v \<in> W. (v, T, j) \<in> H) \<or> W = {j}" and jm: "j |\<in>| members C"
    using j by (auto simp: elected_def)
  show ?thesis
  proof (cases "V = {i} \<or> W = {j}")
    case True
    then have "members C = {|i|} \<or> members C = {|j|}" using V(1) W(1) quorum_single by blast
    then show ?thesis using im jm by auto
  next
    case False
    obtain v where "v \<in> V" "v \<in> W"
      using majority.joint_quorum_meet [OF V(1) W(1)] by blast
    then have "(v, T, i) \<in> H" "(v, T, j) \<in> H" using V(2) W(2) False by auto
    moreover have "i \<noteq> empty_peer" "j \<noteq> empty_peer" using im jm e by auto
    ultimately show ?thesis using H by (auto simp: one_vote_def)
  qed
qed

subsection \<open>The invariant of a node\<close>

text \<open>
  \<open>stored_ok\<close> ties the vote in memory to the stored one: a node never stores two votes in
  one term. \<open>ballot_ok\<close> says whose votes the ballot of the node has counted.
\<close>

definition stored_ok :: "votes \<Rightarrow> peer_id \<Rightarrow> eview \<Rightarrow> bool" where
  "stored_ok H i v \<longleftrightarrow> ev_server v = i \<and> fst (ev_meta v) \<le> ev_term v
     \<and> (fst (ev_meta v) = ev_term v \<longrightarrow> snd (ev_meta v) \<noteq> empty_peer \<longrightarrow> ev_voted v = snd (ev_meta v))
     \<and> (ev_voted v \<noteq> empty_peer \<longrightarrow> ev_voted v \<noteq> i \<longrightarrow> ev_meta v = (ev_term v, ev_voted v))
     \<and> (\<forall>T c. (i, T, c) \<in> H \<longrightarrow> c \<noteq> empty_peer \<longrightarrow> T < fst (ev_meta v) \<or> (T, c) = ev_meta v)"

definition pending_ok :: "votes \<Rightarrow> peer_id \<Rightarrow> eview \<Rightarrow> bool" where
  "pending_ok H i v \<longleftrightarrow> distinct (ev_pending v)
     \<and> (\<forall>t \<in> set (ev_pending v). t \<le> ev_term v \<and> (i, t, i) \<notin> H \<and> ev_meta v \<noteq> (t, i))
     \<and> (ev_term v \<in> set (ev_pending v) \<longrightarrow> ev_voted v = i \<and> ev_version v \<notin> ev_timers v
          \<and> ev_state v \<noteq> STATE_LEADER \<and> ev_state v \<noteq> STATE_TRANSFERRING)
     \<and> (\<forall>w \<in> ev_timers v. w \<le> ev_version v)"

definition counting :: "eview \<Rightarrow> bool" where
  "counting v \<longleftrightarrow> ev_state v = STATE_CANDIDATE \<or> ev_term v \<in> set (ev_pending v)
     \<or> is_active_state (ev_state v) \<and> ev_version v \<in> ev_timers v"

definition counted :: "votes \<Rightarrow> peer_id \<Rightarrow> eview \<Rightarrow> peer_id set \<Rightarrow> bool" where
  "counted H i v V \<longleftrightarrow> (ev_state v = STATE_CANDIDATE \<longrightarrow> (\<forall>p \<in> V. (p, ev_term v, i) \<in> H))
     \<and> (ev_term v \<in> set (ev_pending v) \<longrightarrow> V = {})
     \<and> (ev_state v \<noteq> STATE_CANDIDATE \<longrightarrow> V \<subseteq> {i})"

definition ballot_ok :: "configuration \<times> configuration \<Rightarrow> votes \<Rightarrow> peer_id \<Rightarrow> eview \<Rightarrow> bool" where
  "ballot_ok C H i v \<longleftrightarrow>
     (counting v \<longrightarrow> (\<exists>V. ballot_inv (fst C) (joint_of C) V (ev_ballot v) \<and> counted H i v V))
     \<and> (ev_state v = STATE_CANDIDATE \<longrightarrow> ev_version v \<in> ev_timers v \<longrightarrow> (i, ev_term v, i) \<in> H)
     \<and> (ev_state v = STATE_CANDIDATE \<or> ev_pending v \<noteq> [] \<or> ev_timers v \<noteq> {} \<longrightarrow> i |\<in>| members C)
     \<and> (ev_state v \<le> STATE_TRANSFERRING \<longrightarrow> elected C H (ev_term v) i)"

definition node_ok :: "configuration \<times> configuration \<Rightarrow> votes \<Rightarrow> peer_id \<Rightarrow> eview \<Rightarrow> bool" where
  "node_ok C H i v \<longleftrightarrow> stored_ok H i v \<and> pending_ok H i v \<and> ballot_ok C H i v"

lemmas node_ok_defs = node_ok_def stored_ok_def pending_ok_def ballot_ok_def counting_def counted_def

lemma node_ok_other [simp]:
  "node_ok C H i (v\<lparr>ev_conf := c\<rparr>) = node_ok C H i v"
  "node_ok C H i (v\<lparr>ev_out := X\<rparr>) = node_ok C H i v"
  "node_ok C H i (v\<lparr>ev_asked := Y\<rparr>) = node_ok C H i v"
  by (simp_all add: node_ok_defs)

lemma stored_ok_other [simp]:
  "stored_ok H i (v\<lparr>ev_state := s\<rparr>) = stored_ok H i v"
  "stored_ok H i (v\<lparr>ev_version := ver\<rparr>) = stored_ok H i v"
  "stored_ok H i (v\<lparr>ev_timers := S\<rparr>) = stored_ok H i v"
  "stored_ok H i (v\<lparr>ev_ballot := b\<rparr>) = stored_ok H i v"
  "stored_ok H i (v\<lparr>ev_pending := p\<rparr>) = stored_ok H i v"
  "stored_ok H i (v\<lparr>ev_out := X\<rparr>) = stored_ok H i v"
  "stored_ok H i (v\<lparr>ev_conf := c\<rparr>) = stored_ok H i v"
  by (simp_all add: stored_ok_def)

lemma ballot_ok_keep:
  assumes "ballot_ok C H i v" and "ev_ballot v' = ev_ballot v"
    and "counting v' \<Longrightarrow> counting v"
    and "\<And>V. counting v' \<Longrightarrow> counted H i v V \<Longrightarrow> counted H i v' V"
    and "ev_state v' = STATE_CANDIDATE \<Longrightarrow> ev_version v' \<in> ev_timers v' \<Longrightarrow> (i, ev_term v', i) \<in> H"
    and "ev_state v' = STATE_CANDIDATE \<or> ev_pending v' \<noteq> [] \<or> ev_timers v' \<noteq> {} \<Longrightarrow>
      ev_state v = STATE_CANDIDATE \<or> ev_pending v \<noteq> [] \<or> ev_timers v \<noteq> {}"
    and "ev_state v' \<le> STATE_TRANSFERRING \<Longrightarrow> elected C H (ev_term v') i"
  shows "ballot_ok C H i v'"
proof -
  have "\<exists>V. ballot_inv (fst C) (joint_of C) V (ev_ballot v') \<and> counted H i v' V" if c: "counting v'"
  proof -
    obtain V where "ballot_inv (fst C) (joint_of C) V (ev_ballot v)" "counted H i v V"
      using assms(1) assms(3) [OF c] unfolding ballot_ok_def by blast
    then show ?thesis using assms(2) assms(4) [OF c] by auto
  qed
  moreover have "i |\<in>| members C" if "ev_state v' = STATE_CANDIDATE \<or> ev_pending v' \<noteq> [] \<or> ev_timers v' \<noteq> {}"
    using assms(1) assms(6) [OF that] unfolding ballot_ok_def by blast
  ultimately show ?thesis using assms(5,7) unfolding ballot_ok_def by blast
qed

lemma pending_ok_state:
  "pending_ok H i v \<Longrightarrow> s \<noteq> STATE_LEADER \<and> s \<noteq> STATE_TRANSFERRING \<or> ev_term v \<notin> set (ev_pending v) \<Longrightarrow>
     pending_ok H i (v\<lparr>ev_state := s\<rparr>)"
  unfolding pending_ok_def by (elim conjE, intro conjI) auto

lemma node_ok_parts:
  "stored_ok H i v \<Longrightarrow> pending_ok H i v \<Longrightarrow> ballot_ok C H i v \<Longrightarrow> node_ok C H i v"
  "node_ok C H i v \<Longrightarrow> stored_ok H i v" "node_ok C H i v \<Longrightarrow> pending_ok H i v"
  "node_ok C H i v \<Longrightarrow> ballot_ok C H i v"
  by (simp_all add: node_ok_def)

lemma inactive_state: "\<not> is_active_state s \<Longrightarrow> s \<noteq> STATE_CANDIDATE \<and> s \<noteq> STATE_LEADER \<and> s \<noteq> STATE_TRANSFERRING"
  by (auto simp: is_active_state_iff)

lemma node_ok_stop:
  assumes ok: "node_ok C H i v" and s: "\<not> is_active_state s"
  shows "node_ok C H i (v\<lparr>ev_state := s\<rparr>)"
proof (rule node_ok_parts)
  show "ballot_ok C H i (v\<lparr>ev_state := s\<rparr>)"
    by (rule ballot_ok_keep [OF node_ok_parts(4) [OF ok]])
      (use s inactive_state [OF s] in \<open>auto simp: counting_def counted_def\<close>)
  show "pending_ok H i (v\<lparr>ev_state := s\<rparr>)"
    using inactive_state [OF s] by (intro pending_ok_state [OF node_ok_parts(3) [OF ok]]) simp
qed (use node_ok_parts(2) [OF ok] in simp)

lemma node_ok_transfer:
  assumes ok: "node_ok C H i v" and a: "ev_state v \<le> STATE_TRANSFERRING" and s: "s \<le> STATE_TRANSFERRING"
  shows "node_ok C H i (v\<lparr>ev_state := s\<rparr>)"
proof (rule node_ok_parts)
  have np: "ev_term v \<notin> set (ev_pending v)"
    using node_ok_parts(3) [OF ok] a unfolding pending_ok_def by auto
  have act: "is_active_state (ev_state v)" "ev_state v \<noteq> STATE_CANDIDATE" "s \<noteq> STATE_CANDIDATE"
    using a s by (auto simp: is_active_state_iff)
  have el: "elected C H (ev_term v) i"
    using node_ok_parts(4) [OF ok] a unfolding ballot_ok_def by blast
  show "ballot_ok C H i (v\<lparr>ev_state := s\<rparr>)"
    by (rule ballot_ok_keep [OF node_ok_parts(4) [OF ok]])
      (use act np el in \<open>auto simp: counting_def counted_def\<close>)
  show "pending_ok H i (v\<lparr>ev_state := s\<rparr>)"
    using np by (intro pending_ok_state [OF node_ok_parts(3) [OF ok]]) simp
qed (use node_ok_parts(2) [OF ok] in simp)

lemma v_down_active:
  assumes "v_down t v v'" "is_active_state (ev_state v)"
  obtains ver S m where "S \<subseteq> ev_timers v" "ev_version v \<le> ver" "ev_state v = STATE_CANDIDATE \<longrightarrow> ev_version v < ver"
    "m \<in> {ev_meta v, (t, empty_peer)}"
    "v' = (if t > ev_term v
           then v\<lparr>ev_version := ver, ev_timers := S, ev_state := STATE_FOLLOWER, ev_term := t,
                  ev_voted := empty_peer, ev_meta := m\<rparr>
           else v\<lparr>ev_version := ver, ev_timers := S, ev_state := STATE_FOLLOWER\<rparr>)"
proof -
  have nn: "\<not> \<not> is_active_state (ev_state v)" using assms(2) by simp
  show thesis
    using assms(1) [unfolded v_down_def, unfolded if_not_P [OF nn]] by (elim exE, elim conjE) (rule that; assumption)
qed

text \<open>The two halves of stepping down.\<close>

lemma stored_term:
  assumes "stored_ok H i v" "(i, T, c) \<in> H" "c \<noteq> empty_peer"
  shows "T \<le> fst (ev_meta v)" "T \<le> ev_term v"
proof -
  have "T < fst (ev_meta v) \<or> (T, c) = ev_meta v" "fst (ev_meta v) \<le> ev_term v"
    using assms unfolding stored_ok_def by blast+
  then show "T \<le> fst (ev_meta v)" "T \<le> ev_term v" by (cases "ev_meta v"; auto)+
qed

lemma node_ok_raise:
  assumes ok: "node_ok C H i v" and t: "t > ev_term v" and m: "m \<in> {ev_meta v, (t, empty_peer)}"
    and s: "ev_state v = STATE_FOLLOWER"
  shows "node_ok C H i (v\<lparr>ev_term := t, ev_voted := empty_peer, ev_meta := m\<rparr>)" (is "node_ok C H i ?v")
proof (rule node_ok_parts)
  note st = node_ok_parts(2) [OF ok]
  have pe: "\<forall>u \<in> set (ev_pending v). u \<le> ev_term v"
    using node_ok_parts(3) [OF ok] unfolding pending_ok_def by blast
  then have np: "t \<notin> set (ev_pending v)" using t by auto
  have fm: "fst (ev_meta v) \<le> ev_term v" using st unfolding stored_ok_def by blast
  show "stored_ok H i ?v"
  proof (cases "m = (t, empty_peer)")
    case True
    have "T < t" if "(i, T, c) \<in> H" "c \<noteq> empty_peer" for T c
      using stored_term(2) [OF st that] t by simp
    then show ?thesis using True st unfolding stored_ok_def by auto
  next
    case False
    then have "m = ev_meta v" using m by simp
    then show ?thesis using st t fm unfolding stored_ok_def by auto
  qed
  show "pending_ok H i ?v"
    using node_ok_parts(3) [OF ok] t m pe np unfolding pending_ok_def by auto
  show "ballot_ok C H i ?v"
    by (rule ballot_ok_keep [OF node_ok_parts(4) [OF ok]]) (use s np in \<open>auto simp: counting_def counted_def\<close>)
qed

lemma node_ok_follow:
  assumes ok: "node_ok C H i v" and a: "is_active_state (ev_state v)"
    and S: "S \<subseteq> ev_timers v" "ev_version v \<le> ver" "ev_state v = STATE_CANDIDATE \<longrightarrow> ev_version v < ver"
  shows "node_ok C H i (v\<lparr>ev_version := ver, ev_timers := S, ev_state := STATE_FOLLOWER\<rparr>)" (is "node_ok C H i ?v")
proof (rule node_ok_parts)
  have le: "w \<le> ev_version v" if "w \<in> ev_timers v" for w
    using node_ok_parts(3) [OF ok] that unfolding pending_ok_def by blast
  have ver: "ver = ev_version v \<and> ev_version v \<in> ev_timers v \<and> ev_state v \<noteq> STATE_CANDIDATE" if "ver \<in> S"
    using S le [of ver] that by auto
  have "w \<le> ver" if "w \<in> S" for w using le [of w] S(1,2) that by auto
  then show "pending_ok H i ?v"
    using node_ok_parts(3) [OF ok] ver unfolding pending_ok_def by (elim conjE, intro conjI) auto
  show "ballot_ok C H i ?v"
    by (rule ballot_ok_keep [OF node_ok_parts(4) [OF ok]])
      (use a S(1) ver in \<open>auto simp: counting_def counted_def\<close>)
qed (use node_ok_parts(2) [OF ok] in simp)

lemma node_ok_down:
  assumes ok: "node_ok C H i v" and d: "v_down t v v'"
  shows "node_ok C H i v'"
proof (cases "is_active_state (ev_state v)")
  case False
  then show ?thesis using ok d by (simp add: v_down_def)
next
  case True
  show ?thesis
  proof (rule v_down_active [OF d True])
    fix ver S m
    assume S: "S \<subseteq> ev_timers v" "ev_version v \<le> ver" "ev_state v = STATE_CANDIDATE \<longrightarrow> ev_version v < ver"
      and m: "m \<in> {ev_meta v, (t, empty_peer)}"
      and v': "v' = (if t > ev_term v
           then v\<lparr>ev_version := ver, ev_timers := S, ev_state := STATE_FOLLOWER, ev_term := t,
                  ev_voted := empty_peer, ev_meta := m\<rparr>
           else v\<lparr>ev_version := ver, ev_timers := S, ev_state := STATE_FOLLOWER\<rparr>)"
    show ?thesis
      using node_ok_follow [OF ok True S] node_ok_raise [OF node_ok_follow [OF ok True S], of t m] m
      unfolding v' by simp
  qed
qed

lemma node_ok_calm: "v_calm v v' \<Longrightarrow> node_ok C H i v \<Longrightarrow> node_ok C H i v'"
  by (induction rule: v_calm.induct) (simp_all add: node_ok_down node_ok_stop node_ok_transfer del: state_le_simps)

lemma v_elect_member:
  assumes "v_elect v v'" "ev_server v |\<in>| members (ev_conf v)"
  obtains S where "S \<subseteq> ev_timers v"
    "v' = v\<lparr>ev_state := STATE_CANDIDATE, ev_term := ev_term v + 1, ev_voted := ev_server v,
             ev_ballot := ballot_init (fst (ev_conf v)) (joint_of (ev_conf v)),
             ev_version := ev_version v + 1, ev_timers := S,
             ev_pending := ev_pending v @ [ev_term v + 1]\<rparr>"
proof -
  have nn: "\<not> ev_server v |\<notin>| fst (ev_conf v) |\<union>| snd (ev_conf v)" using assms(2) by simp
  show thesis
    using assms(1) [unfolded v_elect_def, unfolded if_not_P [OF nn]] by (elim exE, elim conjE) (rule that; assumption)
qed

lemma v_elect_conf: "v_elect v v' \<Longrightarrow> ev_conf v' = ev_conf v"
  by (auto simp: v_elect_def split: if_splits)

lemma node_ok_elect:
  assumes ok: "node_ok C H i v" and el: "v_elect v v'" and c: "ev_conf v' \<in> {C, ({||}, {||})}"
    and e: "empty_peer |\<notin>| members C"
  shows "node_ok C H i v'"
proof (cases "ev_server v |\<in>| members (ev_conf v)")
  case False
  then show ?thesis using ok el by (simp add: v_elect_def)
next
  case True
  show ?thesis
  proof (rule v_elect_member [OF el True])
    fix S
    assume S: "S \<subseteq> ev_timers v" and v': "v' = v\<lparr>ev_state := STATE_CANDIDATE, ev_term := ev_term v + 1, ev_voted := ev_server v,
             ev_ballot := ballot_init (fst (ev_conf v)) (joint_of (ev_conf v)),
             ev_version := ev_version v + 1, ev_timers := S, ev_pending := ev_pending v @ [ev_term v + 1]\<rparr>"
    have conf: "ev_conf v = C" using c True v_elect_conf [OF el] by auto
    have sv: "ev_server v = i" using ok by (simp add: node_ok_def stored_ok_def)
    have nt: "ev_version v + 1 \<notin> S" using ok S by (force simp: node_ok_def pending_ok_def)
    have "stored_ok H i v'"
      using ok unfolding v' by (simp add: node_ok_def stored_ok_def)
    moreover have "pending_ok H i v'"
    proof -
      have i: "i \<noteq> empty_peer" using True conf sv e by auto
      have m: "fst (ev_meta v) < ev_term v + 1" using ok by (simp add: node_ok_def stored_ok_def)
      have "(i, ev_term v + 1, i) \<notin> H" using stored_term(2) [OF node_ok_parts(2) [OF ok] _ i] by fastforce
      moreover have "\<forall>u \<in> set (ev_pending v). u \<le> ev_term v" "\<forall>w \<in> S. w \<le> ev_version v"
        using ok S by (auto simp: node_ok_def pending_ok_def)
      ultimately show ?thesis
        using ok m nt unfolding v' by (auto simp: node_ok_def pending_ok_def sv dest: bspec)
    qed
    moreover have "ballot_ok C H i v'"
      using True nt unfolding v' by (simp add: ballot_ok_def counted_def conf sv ballot_inv_init exI [of _ "{}"])
    ultimately show ?thesis by (simp add: node_ok_def)
  qed
qed

lemma node_ok_plain:
  assumes ok: "node_ok C H i v" and p: "v_plain v v'"
    and c: "ev_conf v' \<in> {C, ({||}, {||})}" "empty_peer |\<notin>| members C"
  shows "node_ok C H i v'"
  using p unfolding v_plain_def
proof (elim disjE exE conjE)
  assume "v_calm v v'"
  then show ?thesis using ok by (rule node_ok_calm)
next
  fix w
  assume "v_calm v w" "v_elect w v'"
  then show ?thesis using node_ok_elect [OF node_ok_calm [OF _ ok]] c by blast
qed

subsection \<open>More votes\<close>

lemma counted_mono: "counted H i v V \<Longrightarrow> H \<subseteq> H' \<Longrightarrow> counted H' i v V"
  unfolding counted_def by blast

lemma node_ok_mono:
  assumes ok: "node_ok C H i v" and H: "H \<subseteq> H'"
    and new: "\<And>T c. (i, T, c) \<in> H' \<Longrightarrow> (i, T, c) \<notin> H \<Longrightarrow> (T, c) = ev_meta v"
  shows "node_ok C H' i v"
proof (rule node_ok_parts)
  show "stored_ok H' i v"
    using node_ok_parts(2) [OF ok] new unfolding stored_ok_def by blast
  show "pending_ok H' i v"
    using node_ok_parts(3) [OF ok] new unfolding pending_ok_def by metis
  have "\<exists>V. ballot_inv (fst C) (joint_of C) V (ev_ballot v) \<and> counted H' i v V" if "counting v"
    using node_ok_parts(4) [OF ok] that counted_mono [OF _ H] unfolding ballot_ok_def by blast
  then show "ballot_ok C H' i v"
    using node_ok_parts(4) [OF ok] H elected_mono [OF _ H] unfolding ballot_ok_def by blast
qed

lemma node_ok_store: "node_ok C H i v \<Longrightarrow> node_ok C (insert (i, ev_meta v) H) i v"
  by (erule node_ok_mono) auto

lemma node_ok_store_other: "node_ok C H i v \<Longrightarrow> j \<noteq> i \<Longrightarrow> node_ok C (insert (j, m) H) i v"
  by (erule node_ok_mono) auto

lemma one_vote_store:
  assumes "one_vote H" "stored_ok H i v"
  shows "one_vote (insert (i, ev_meta v) H)"
proof -
  obtain a b where m: "ev_meta v = (a, b)" by (cases "ev_meta v")
  have "c = b" if "(i, a, c) \<in> H" "c \<noteq> empty_peer" for c
  proof -
    have "a < fst (ev_meta v) \<or> (a, c) = ev_meta v"
      using assms(2) that unfolding stored_ok_def by blast
    then show ?thesis by (simp add: m)
  qed
  then show ?thesis using assms(1) unfolding one_vote_def m by blast
qed

subsection \<open>Voting and starting\<close>

lemma node_ok_vote:
  assumes ok: "node_ok C H i v" and vt: "v_vote c v v'" and c: "c \<noteq> empty_peer" "c \<noteq> i"
    and em: "empty_peer |\<notin>| members C"
  shows "node_ok C H i v'"
proof -
  obtain w where w: "v_calm v w"
    and v': "v' = w \<or> ev_voted w = empty_peer \<and> v' = w\<lparr>ev_voted := c, ev_meta := (ev_term w, c)\<rparr>"
    using vt unfolding v_vote_def by (elim exE conjE) (rule that)
  have wok: "node_ok C H i w" using w ok by (rule node_ok_calm)
  have "node_ok C H i (w\<lparr>ev_voted := c, ev_meta := (ev_term w, c)\<rparr>)" (is "node_ok C H i ?w") if e: "ev_voted w = empty_peer"
  proof (rule node_ok_parts)
    note st = node_ok_parts(2) [OF wok]
    have "T < ev_term w" if T: "(i, T, d) \<in> H" "d \<noteq> empty_peer" for T d
    proof -
      have "T < fst (ev_meta w) \<or> (T, d) = ev_meta w" "fst (ev_meta w) \<le> ev_term w"
        "fst (ev_meta w) = ev_term w \<longrightarrow> snd (ev_meta w) \<noteq> empty_peer \<longrightarrow> ev_voted w = snd (ev_meta w)"
        using st T unfolding stored_ok_def by blast+
      then show ?thesis using e T(2) by (cases "ev_meta w") auto
    qed
    then show "stored_ok H i ?w" using st c unfolding stored_ok_def by auto
    have "ev_pending w \<noteq> [] \<longrightarrow> i |\<in>| members C"
      using node_ok_parts(4) [OF wok] unfolding ballot_ok_def by blast
    then have "ev_term w \<notin> set (ev_pending w)"
      using node_ok_parts(3) [OF wok] e em unfolding pending_ok_def by force
    then show "pending_ok H i ?w"
      using node_ok_parts(3) [OF wok] c e unfolding pending_ok_def by auto
    show "ballot_ok C H i ?w"
      by (rule ballot_ok_keep [OF node_ok_parts(4) [OF wok]])
        (use node_ok_parts(4) [OF wok] in \<open>auto simp: counting_def counted_def ballot_ok_def\<close>)
  qed
  then show ?thesis using v' wok by blast
qed

lemma node_ok_started:
  assumes ok: "node_ok C H i v" and m: "(i, ev_meta v) \<in> H" and st: "v_started i (ev_meta v) w"
  shows "node_ok C H i w"
proof (rule node_ok_parts)
  note w = st [unfolded v_started_def]
  show "stored_ok H i w"
    using node_ok_parts(2) [OF ok] w unfolding stored_ok_def by auto
  show "pending_ok H i w" using w unfolding pending_ok_def by simp
  show "ballot_ok C H i w" using w unfolding ballot_ok_def counting_def by simp
qed

lemma node_ok_new: "node_ok C H i (view (node_new i (0, empty_peer) lm))" if "\<And>T c. (i, T, c) \<in> H \<Longrightarrow> c = empty_peer"
  using that unfolding view_node_new node_ok_defs by (simp add: is_active_state_iff)

subsection \<open>Counting votes\<close>

text \<open>
  The ballot gets votes that are stored, or, once the node is no candidate any more, only its
  own one.
\<close>

lemma node_ok_timers:
  assumes ok: "node_ok C H i v" and S: "S \<subseteq> ev_timers v"
  shows "node_ok C H i (v\<lparr>ev_timers := S\<rparr>)"
proof (rule node_ok_parts)
  show "pending_ok H i (v\<lparr>ev_timers := S\<rparr>)"
    using node_ok_parts(3) [OF ok] S unfolding pending_ok_def by auto
  have bk: "ev_state v = STATE_CANDIDATE \<Longrightarrow> ev_version v \<in> ev_timers v \<Longrightarrow> (i, ev_term v, i) \<in> H"
    "ev_state v \<le> STATE_TRANSFERRING \<Longrightarrow> elected C H (ev_term v) i"
    using node_ok_parts(4) [OF ok] unfolding ballot_ok_def by blast+
  show "ballot_ok C H i (v\<lparr>ev_timers := S\<rparr>)"
    by (rule ballot_ok_keep [OF node_ok_parts(4) [OF ok]])
      (use bk S in \<open>auto simp: counting_def counted_def\<close>)
qed (use node_ok_parts(2) [OF ok] in simp)

lemma node_ok_lead:
  assumes ok: "node_ok C H i v" and np: "ev_term v \<notin> set (ev_pending v)"
    and el: "elected C H (ev_term v) i" and ld: "v_lead v v'"
  shows "node_ok C H i v'"
proof -
  obtain S c where S: "S \<subseteq> ev_timers v"
    and v': "v' = v\<lparr>ev_state := STATE_LEADER, ev_version := ev_version v + 1, ev_timers := S, ev_conf := c\<rparr>"
    using ld unfolding v_lead_def by (elim exE, elim conjE) (rule that; assumption)
  have le: "\<forall>w \<in> S. w \<le> ev_version v" using node_ok_parts(3) [OF ok] S unfolding pending_ok_def by auto
  then have nt: "ev_version v + 1 \<notin> S" by auto
  show ?thesis
  proof (rule node_ok_parts)
    show "stored_ok H i v'" using node_ok_parts(2) [OF ok] unfolding v' by simp
    show "pending_ok H i v'"
      using node_ok_parts(3) [OF ok] np nt le unfolding v' pending_ok_def by auto
    show "ballot_ok C H i v'"
      using el np nt unfolding v' ballot_ok_def counting_def elected_def by simp
  qed
qed

lemma node_ok_ballot:
  assumes ok: "node_ok C H i v" and np: "ev_term v \<notin> set (ev_pending v)"
    and b: "ballot_inv (fst C) (joint_of C) V b" "counted H i v V"
  shows "node_ok C H i (v\<lparr>ev_ballot := b\<rparr>)"
proof (rule node_ok_parts)
  show "pending_ok H i (v\<lparr>ev_ballot := b\<rparr>)"
    using node_ok_parts(3) [OF ok] unfolding pending_ok_def by simp
  have "counted H i (v\<lparr>ev_ballot := b\<rparr>) V" using b(2) unfolding counted_def by simp
  then show "ballot_ok C H i (v\<lparr>ev_ballot := b\<rparr>)"
    using node_ok_parts(4) [OF ok] b(1) unfolding ballot_ok_def by auto
qed (use node_ok_parts(2) [OF ok] in simp)

lemma node_ok_counted:
  assumes ok: "node_ok C H i v" and np: "ev_term v \<notin> set (ev_pending v)" and i: "i |\<in>| members C"
    and b: "ballot_inv (fst C) (joint_of C) V b" "counted H i v V" and cn: "v_counted b v v'"
  shows "node_ok C H i v'"
proof (cases "granted b")
  case False
  then show ?thesis using cn node_ok_ballot [OF ok np b] by (simp add: v_counted_def)
next
  case True
  have q: "quorum C V" using ballot_inv_granted [OF b(1)] True by simp
  have "elected C H (ev_term v) i"
  proof (cases "ev_state v = STATE_CANDIDATE")
    case True
    then show ?thesis using q i b(2) unfolding elected_def counted_def by blast
  next
    case False
    then have "V \<subseteq> {i}" using b(2) unfolding counted_def by blast
    moreover have "V \<noteq> {}" using majority.joint_quorum_meet [OF q q] by auto
    ultimately have "V = {i}" by auto
    then show ?thesis using q i unfolding elected_def by blast
  qed
  then show ?thesis
    using cn True np node_ok_lead [OF node_ok_ballot [OF ok np b]] by (simp add: v_counted_def)
qed

lemma ballot_inv_grant_no_hint: "ballot_inv c oc V b \<Longrightarrow> ballot_inv c oc (insert p V) (grant_no_hint p b)"
  by (simp add: grant_no_hint_def ballot_inv_grant)

lemma node_ok_grant_self:
  assumes ok: "node_ok C H i v" and np: "ev_term v \<notin> set (ev_pending v)" and i: "i |\<in>| members C"
    and b: "ballot_inv (fst C) (joint_of C) V (ev_ballot v)" "counted H i v V"
    and own: "ev_state v = STATE_CANDIDATE \<Longrightarrow> (i, ev_term v, i) \<in> H" and g: "v_grant_self v v'"
  shows "node_ok C H i v'"
proof -
  have sv: "ev_server v = i" using node_ok_parts(2) [OF ok] unfolding stored_ok_def by blast
  have ct: "counted H i v (insert i V)" using b(2) own np unfolding counted_def by auto
  have el: "ev_state v \<le> STATE_TRANSFERRING \<Longrightarrow> elected C H (ev_term v) i"
    using node_ok_parts(4) [OF ok] unfolding ballot_ok_def by blast
  have tm: "node_ok C H i (v\<lparr>ev_timers := insert (ev_version v) (ev_timers v)\<rparr>)" (is "node_ok C H i ?v")
  proof (rule node_ok_parts)
    show "stored_ok H i ?v" using node_ok_parts(2) [OF ok] by simp
    show "pending_ok H i ?v"
      using node_ok_parts(3) [OF ok] np unfolding pending_ok_def by auto
    have "counted H i ?v V" using b(2) unfolding counted_def by simp
    then show "ballot_ok C H i ?v" using b(1) own i el unfolding ballot_ok_def by auto
  qed
  show ?thesis
    using g unfolding v_grant_self_def
  proof (elim disjE)
    assume "v_counted (grant_no_hint (ev_server v) (ev_ballot v)) v v'"
    then show ?thesis
      using node_ok_counted [OF ok np i ballot_inv_grant_no_hint [OF b(1)] ct] sv by simp
  qed (use ok tm in simp_all)
qed

text \<open>A candidate that goes on with its election stores its vote for itself.\<close>

lemma node_ok_elect_end:
  assumes ok: "node_ok C H i v" and t: "ev_term v \<in> set (ev_pending v)"
    and g: "v_grant_self (v\<lparr>ev_pending := remove1 (ev_term v) (ev_pending v), ev_out := X, ev_meta := (ev_term v, i)\<rparr>) v'"
  shows "node_ok C (insert (i, ev_term v, i) H) i v'"
proof -
  let ?H = "insert (i, ev_term v, i) H"
  let ?v = "v\<lparr>ev_pending := remove1 (ev_term v) (ev_pending v), ev_out := X, ev_meta := (ev_term v, i)\<rparr>"
  note st = node_ok_parts(2) [OF ok] and pn = node_ok_parts(3) [OF ok] and bl = node_ok_parts(4) [OF ok]
  have vt: "ev_voted v = i" "ev_version v \<notin> ev_timers v" "distinct (ev_pending v)"
    using pn t unfolding pending_ok_def by blast+
  then have np: "ev_term v \<notin> set (remove1 (ev_term v) (ev_pending v))" by simp
  have i: "i |\<in>| members C" using bl t unfolding ballot_ok_def by force
  obtain V where V: "ballot_inv (fst C) (joint_of C) V (ev_ballot v)" "counted H i v V"
    using bl t unfolding ballot_ok_def counting_def by blast
  then have "V = {}" using t unfolding counted_def by blast
  then have ct: "counted ?H i ?v V" unfolding counted_def by simp
  have "node_ok C ?H i ?v"
  proof (rule node_ok_parts)
    have old: "T < ev_term v \<or> (T, c) = (ev_term v, i)" if "(i, T, c) \<in> H" "c \<noteq> empty_peer" for T c
    proof -
      have "T < fst (ev_meta v) \<or> (T, c) = ev_meta v" "fst (ev_meta v) \<le> ev_term v"
        "fst (ev_meta v) = ev_term v \<longrightarrow> snd (ev_meta v) \<noteq> empty_peer \<longrightarrow> ev_voted v = snd (ev_meta v)"
        using st that unfolding stored_ok_def by blast+
      then show ?thesis using vt(1) that(2) by (cases "ev_meta v") auto
    qed
    show "stored_ok ?H i ?v" using st vt(1) old unfolding stored_ok_def by auto
    show "pending_ok ?H i ?v" using pn np unfolding pending_ok_def by (auto dest: in_set_remove1 [THEN iffD1, rotated])
    have "ev_state v \<le> STATE_TRANSFERRING \<longrightarrow> elected C ?H (ev_term v) i"
      using bl elected_mono [of C H "ev_term v" i ?H] unfolding ballot_ok_def by blast
    then show "ballot_ok C ?H i ?v"
      using V(1) ct i vt(2) unfolding ballot_ok_def counting_def by auto
  qed
  then show ?thesis
    by (rule node_ok_grant_self [OF _ _ i _ ct _ g]) (use np V(1) in simp_all)
qed

lemma node_ok_response:
  assumes ok: "node_ok C H i v" and s: "ev_state v = STATE_CANDIDATE"
    and own: "(i, ev_term v, i) \<in> H" and gr: "gd \<Longrightarrow> (p, ev_term v, i) \<in> H"
    and r: "v_response p gd v v'"
  shows "node_ok C H i v'"
proof -
  have sv: "ev_server v = i" using node_ok_parts(2) [OF ok] unfolding stored_ok_def by blast
  have np: "ev_term v \<notin> set (ev_pending v)" using node_ok_parts(3) [OF ok] own unfolding pending_ok_def by blast
  have i: "i |\<in>| members C" using node_ok_parts(4) [OF ok] s unfolding ballot_ok_def by blast
  obtain V where V: "ballot_inv (fst C) (joint_of C) V (ev_ballot v)" "counted H i v V"
    using node_ok_parts(4) [OF ok] s unfolding ballot_ok_def counting_def by blast
  show ?thesis
    using r unfolding v_response_def
  proof (elim disjE exE conjE)
    fix X assume "v' = v\<lparr>ev_out := ev_out v \<union> X\<rparr>"
    then show ?thesis using ok by simp
  next
    fix b S X
    assume gd: gd and b: "b \<in> {grant_no_hint p (ev_ballot v), grant_no_hint (ev_server v) (grant_no_hint p (ev_ballot v))}"
      and S: "S \<subseteq> ev_timers v" and c: "v_counted b (v\<lparr>ev_timers := S, ev_out := ev_out v \<union> X\<rparr>) v'"
    let ?v = "v\<lparr>ev_timers := S, ev_out := ev_out v \<union> X\<rparr>"
    have "\<exists>W \<in> {insert p V, insert i (insert p V)}. ballot_inv (fst C) (joint_of C) W b"
      using b ballot_inv_grant_no_hint [OF V(1)] ballot_inv_grant_no_hint [OF ballot_inv_grant_no_hint [OF V(1)]] sv by auto
    then obtain W where W: "W \<in> {insert p V, insert i (insert p V)}" "ballot_inv (fst C) (joint_of C) W b" by blast
    have "counted H i ?v W" using V(2) W(1) np s own gr [OF gd] unfolding counted_def by auto
    then show ?thesis
      using node_ok_counted [OF _ _ i W(2) _ c] node_ok_timers [OF ok S] np by simp
  qed
qed

text \<open>The timer of the vote fires.\<close>

lemma node_ok_timer:
  assumes ok: "node_ok C H i v" and t: "ev_version v \<in> ev_timers v" and a: "is_active_state (ev_state v)"
    and S: "S \<subseteq> ev_timers v" and g: "v_grant_self (v\<lparr>ev_timers := S\<rparr>) v'"
  shows "node_ok C H i v'"
proof -
  have np: "ev_term v \<notin> set (ev_pending v)" using node_ok_parts(3) [OF ok] t unfolding pending_ok_def by blast
  have bk: "ev_state v = STATE_CANDIDATE \<Longrightarrow> (i, ev_term v, i) \<in> H" "i |\<in>| members C"
    using node_ok_parts(4) [OF ok] t unfolding ballot_ok_def by blast+
  obtain V where V: "ballot_inv (fst C) (joint_of C) V (ev_ballot v)" "counted H i v V"
    using node_ok_parts(4) [OF ok] t a unfolding ballot_ok_def counting_def by blast
  have ct: "counted H i (v\<lparr>ev_timers := S\<rparr>) V" using V(2) unfolding counted_def by simp
  show ?thesis
    by (rule node_ok_grant_self [OF node_ok_timers [OF ok S] _ bk(2) _ ct _ g]) (use np V(1) bk(1) in simp_all)
qed

end
