(* ===== verification/Raft_Election.thy ===== *)
theory Raft_Election
  imports Raft_Election_Invariant
begin

text \<open>
  A group of nodes that elect leaders. Every handler of every node may run at any time, with
  any clock, flags and answers of components that are not modelled; messages may be lost,
  reordered and delivered many times, and a node may stop and start again with the term and
  the vote it has stored. Two things are assumed: the configuration of the group does not
  change, and a candidate succeeds in storing its vote for itself.
\<close>

subsection \<open>Steps of one node\<close>

definition resume :: "paused \<Rightarrow> ('s, 'c) node \<Rightarrow> ('s, 'c) node" where
  "resume p n = n\<lparr>nd_paused := remove1 p (nd_paused n)\<rparr>"

definition fire :: "ctx_kind \<Rightarrow> int \<Rightarrow> ('s, 'c) node \<Rightarrow> ('s, 'c) node" where
  "fire k ver n = n\<lparr>grant_timers := remove1 (k, ver) (grant_timers n)\<rparr>"

text \<open>Everything a node does on its own or for others, apart from asking for votes, voting
  and counting. The log manager works on in the background.\<close>

inductive plain_op :: "'s log_storage_ops \<Rightarrow> ('s, 'c) node \<Rightarrow> ('s, 'c) node \<Rightarrow> bool" for ops n where
  Log: "plain_op ops n (n\<lparr>nd_lm := lm\<rparr>)"
| Election_timeout: "plain_op ops n (handle_election_timeout e n)"
| Vote_timeout: "plain_op ops n (handle_vote_timeout e n)"
| Stepdown_timeout: "plain_op ops n (handle_stepdown_timeout e n)"
| Snapshot_timeout: "plain_op ops n (handle_snapshot_timeout e n)"
| Cache_timeout: "plain_op ops n (cache_timedout e tv cv ms n)"
| Transfer_timeout: "plain_op ops n (handle_transfer_timeout t p n)"
| Pre_vote_timer: "(PreVoteCtx, ver) \<in> set (grant_timers n) \<Longrightarrow>
    plain_op ops n (handle_grant_self_timedout e ops PreVoteCtx ver (fire PreVoteCtx ver n))"
| Pre_vote: "PreVotePaused t tr \<in> set (nd_paused n) \<Longrightarrow>
    plain_op ops n (pre_vote_end e ops l t tr (resume (PreVotePaused t tr) n))"
| Pre_vote_request: "plain_op ops n (snd (handle_pre_vote_request_begin k r n))"
| Pre_vote_reply: "PreVoteRequestPaused k r \<in> set (nd_paused n) \<Longrightarrow>
    plain_op ops n (resume (PreVoteRequestPaused k r) n)"
| Pre_vote_response: "plain_op ops n (handle_pre_vote_response e p t ver resp n)"
| Timeout_now: "plain_op ops n (snd (handle_timeout_now_request e tn n))"
| Transfer: "plain_op ops n (snd (transfer_leadership_to e p n))"
| Vote: "plain_op ops n (snd (nd_vote e ms n))"
| Reset_timeout: "plain_op ops n (snd (reset_election_timeout_ms e ms n))"
| Reset_timeouts: "plain_op ops n (reset_election_timeout_and_drift_ms e ms ms' n)"
| Increase_term: "plain_op ops n (snd (increase_term_to e t st n))"
| Error: "plain_op ops n (nd_on_error e st n)"
| Shutdown: "plain_op ops n (nd_shutdown e d n)"
| After_shutdown: "plain_op ops n (after_shutdown n)"
| Apply: "plain_op ops n (execute_applying_tasks ops k [] ts n)"
| Append: "plain_op ops n (snd (handle_append_entries_request e ops k ar False n))"
| Append_cached: "plain_op ops n (snd (handle_append_entries_from_cache e ops rs n))"
| Stable: "plain_op ops n (snd (run_stable_closure k st n))"
| Install: "plain_op ops n (snd (handle_install_snapshot_request e q t n))"
| Installed: "plain_op ops n (update_configuration_after_installing_snapshot n)"
| Snapshot: "plain_op ops n (do_snapshot e d n)"
| Conf_done: "plain_op ops n (configuration_change_done_run e ops t ls le n)"
| Caughtup: "plain_op ops n (on_caughtup e ops p t ver st n)"
| Add_peer: "plain_op ops n (nd_add_peer e ops p d n)"
| Remove_peer: "plain_op ops n (nd_remove_peer e ops p d n)"
| Change_peers: "plain_op ops n (nd_change_peers e ops c d n)"
| Reset_peers: "plain_op ops n (snd (reset_peers e c n))"
| Lease: "plain_op ops n (snd (get_leader_lease_status e n))"
| Lease_valid: "plain_op ops n (snd (is_leader_lease_valid e n))"
| Enter_readonly: "plain_op ops n (enter_readonly_mode n)"
| Leave_readonly: "plain_op ops n (leave_readonly_mode n)"
| Readonly_config: "plain_op ops n (snd (change_readonly_config e t p ro n))"
| Read: "plain_op ops n (snd (read_committed_user_log ops la k n))"

lemma view_fire_pre_vote [simp]: "view (fire PreVoteCtx ver n) = view n"
  by (simp add: fire_def)

lemma map_filter_remove1:
  assumes p: "f p = Some y" and inj: "\<And>x. f x = Some y \<Longrightarrow> x = p"
  shows "List.map_filter f (remove1 p xs) = remove1 y (List.map_filter f xs)"
proof (induction xs)
  case (Cons a xs)
  show ?case
  proof (cases "a = p")
    case False
    then have "f a \<noteq> Some y" using inj by blast
    then show ?thesis using False Cons by (cases "f a") (simp_all add: map_filter_simps)
  qed (simp add: map_filter_simps p)
qed (simp add: map_filter_simps)

lemma map_filter_remove1_None: "f p = None \<Longrightarrow> List.map_filter f (remove1 p xs) = List.map_filter f xs"
  by (induction xs) (auto simp: map_filter_simps split: option.splits)

lemma pending_elect_Some: "pending_elect p = Some t \<longleftrightarrow> p = ElectSelfPaused t"
  by (cases p) auto

lemma view_resume:
  "\<exists>A \<subseteq> ev_asked (view n). view (resume p n) = (view n)\<lparr>ev_asked := A, ev_pending :=
     (case pending_elect p of None \<Rightarrow> ev_pending (view n) | Some t \<Rightarrow> remove1 t (ev_pending (view n)))\<rparr>"
proof -
  let ?A = "\<Union>q \<in> set (remove1 p (nd_paused n)). pending_request q"
  have "?A \<subseteq> ev_asked (view n)" by (auto simp: view_def dest: set_rev_mp [OF _ set_remove1_subset])
  moreover have "view (resume p n) = (view n)\<lparr>ev_asked := ?A, ev_pending :=
     (case pending_elect p of None \<Rightarrow> ev_pending (view n) | Some t \<Rightarrow> remove1 t (ev_pending (view n)))\<rparr>"
    using map_filter_remove1 [of pending_elect p] map_filter_remove1_None [of pending_elect p]
    by (cases "pending_elect p") (simp_all add: view_def resume_def pending_elect_Some)
  ultimately show ?thesis by blast
qed

lemma asked_remove1: "pending_request p = {} \<Longrightarrow> (\<Union>q \<in> set (remove1 p xs). pending_request q) = (\<Union>q \<in> set xs. pending_request q)"
  by (induction xs) auto

lemma view_resume_silent: "pending_elect p = None \<Longrightarrow> pending_request p = {} \<Longrightarrow> view (resume p n) = view n"
  by (simp add: view_def resume_def asked_remove1 map_filter_remove1_None)

lemmas calm_self = calm_stepdown_timeout calm_transfer_timeout calm_transfer_leadership calm_increase_term calm_on_error
  calm_shutdown calm_after_shutdown calm_execute_applying_tasks calm_append_entries calm_append_entries_from_cache
  calm_install_snapshot calm_update_configuration calm_configuration_change_done calm_on_caughtup
  calm_register_conf_change calm_reset_peers calm_lease_status calm_lease_valid

lemma plain_op_effect:
  assumes "plain_op ops n n'"
  shows "v_plain (view n) (view n')"
  using assms
proof cases
  case (Pre_vote t tr e l)
  then show ?thesis
    using plain_pre_vote_end [of "resume (PreVotePaused t tr) n" e ops l t tr] by (simp add: view_resume_silent)
next
  case (Pre_vote_timer ver e)
  then show ?thesis using plain_grant_self_timedout [of "fire PreVoteCtx ver n" e ops ver] by simp
next
  case (Pre_vote_reply k r)
  then show ?thesis by (simp add: view_resume_silent plain_refl)
qed (simp_all add: plain_refl plain_calm calm_self Calm_same plain_vote_timeout plain_pre_vote_response
      plain_timeout_now nd_add_peer_def nd_remove_peer_def nd_change_peers_def)

subsection \<open>The group\<close>

text \<open>
  \<open>cl_requests\<close> are the requests for votes on their way, with sender and receiver, the term
  and the version of the ballot the sender will know the answer by; \<open>cl_replies\<close> the answers.
  \<open>cl_stored\<close> and \<open>cl_leaders\<close> record which votes were ever stored and who was ever leader.
\<close>

record ('s, 'c) cluster =
  cl_node :: "peer_id \<Rightarrow> ('s, 'c) node"
  cl_requests :: "(peer_id \<times> peer_id \<times> vote_request \<times> int \<times> int) set"
  cl_replies :: "(peer_id \<times> vote_request \<times> vote_response) set"
  cl_stored :: votes
  cl_leaders :: "(int \<times> peer_id) set"

definition settle ::
  "peer_id \<Rightarrow> ('s, 'c) node \<Rightarrow> (vote_request \<times> vote_response) set \<Rightarrow> ('s, 'c) cluster \<Rightarrow> ('s, 'c) cluster" where
  "settle i n R c =
     \<lparr>cl_node = (cl_node c)(i := n\<lparr>nd_calls := []\<rparr>),
      cl_requests = cl_requests c \<union> Pair i ` ev_out (view n),
      cl_replies = cl_replies c \<union> Pair i ` R,
      cl_stored = insert (i, meta_storage n) (cl_stored c),
      cl_leaders = cl_leaders c \<union> (if nd_state n \<le> STATE_TRANSFERRING then {(current_term n, i)} else {})\<rparr>"

definition conf_ok :: "configuration \<times> configuration \<Rightarrow> ('s, 'c) node \<Rightarrow> bool" where
  "conf_ok C n \<longleftrightarrow> (ce_conf (nd_conf n), ce_old_conf (nd_conf n)) \<in> {C, ({||}, {||})}"

text \<open>
  A step of the group with the fixed configuration \<open>C\<close>. If \<open>faulty\<close> holds, a candidate may fail
  to store its vote for itself.
\<close>

inductive cstep ::
  "bool \<Rightarrow> 's log_storage_ops \<Rightarrow> configuration \<times> configuration \<Rightarrow> ('s, 'c) cluster \<Rightarrow> ('s, 'c) cluster \<Rightarrow> bool"
  for faulty ops C c where
  Plain: "plain_op ops (cl_node c i) n' \<Longrightarrow> conf_ok C n' \<Longrightarrow> cstep faulty ops C c (settle i n' {} c)"
| Elect: "ElectSelfPaused t \<in> set (nd_paused (cl_node c i)) \<Longrightarrow> meta_store_ok e t i \<or> faulty \<Longrightarrow>
    cstep faulty ops C c (settle i (elect_self_end e ops l t (resume (ElectSelfPaused t) (cl_node c i))) {} c)"
| Ask: "(j, i, r, t, ver) \<in> cl_requests c \<Longrightarrow>
    handle_request_vote_request_begin k r (cl_node c i) = (out, n') \<Longrightarrow>
    cstep faulty ops C c (settle i n' {(r, resp) | st resp. out = Some (st, Some resp)} c)"
| Answer: "RequestVotePaused k r d pt \<in> set (nd_paused (cl_node c i)) \<Longrightarrow>
    handle_request_vote_request_end e l r d pt (resume (RequestVotePaused k r d pt) (cl_node c i)) = (resp, n') \<Longrightarrow>
    cstep faulty ops C c (settle i n' {(r, resp)} c)"
| Count: "(i, p, r, t, ver) \<in> cl_requests c \<Longrightarrow> (p, r, resp) \<in> cl_replies c \<Longrightarrow>
    cstep faulty ops C c (settle i (handle_request_vote_response e ops p t ver resp (cl_node c i)) {} c)"
| Fire: "(VoteCtx, ver) \<in> set (grant_timers (cl_node c i)) \<Longrightarrow>
    cstep faulty ops C c (settle i (handle_grant_self_timedout e ops VoteCtx ver (fire VoteCtx ver (cl_node c i))) {} c)"
| Restart: "nd_init e ops io (node_new i (meta_storage (cl_node c i)) lm) = (0, n') \<Longrightarrow> conf_ok C n' \<Longrightarrow>
    cstep faulty ops C c (settle i n' {} c)"

definition cluster_new :: "(peer_id \<Rightarrow> 's log_manager) \<Rightarrow> ('s, 'c) cluster" where
  "cluster_new lm =
     \<lparr>cl_node = (\<lambda>i. node_new i (0, empty_peer) (lm i)), cl_requests = {}, cl_replies = {},
      cl_stored = {(i, 0, empty_peer) | i. True}, cl_leaders = {}\<rparr>"

inductive reachable ::
  "bool \<Rightarrow> 's log_storage_ops \<Rightarrow> configuration \<times> configuration \<Rightarrow> (peer_id \<Rightarrow> 's log_manager) \<Rightarrow> ('s, 'c) cluster \<Rightarrow> bool"
  for faulty ops C lm where
  New: "reachable faulty ops C lm (cluster_new lm)"
| Step: "reachable faulty ops C lm c \<Longrightarrow> cstep faulty ops C c c' \<Longrightarrow> reachable faulty ops C lm c'"

subsection \<open>The invariant of the group\<close>

definition request_ok ::
  "configuration \<times> configuration \<Rightarrow> votes \<Rightarrow> peer_id \<Rightarrow> peer_id \<times> vote_request \<times> int \<times> int \<Rightarrow> bool" where
  "request_ok C H i q \<longleftrightarrow> (case q of (p, r, t, ver) \<Rightarrow>
     p \<noteq> i \<and> i |\<in>| members C \<and> rv_server_id r = Some i \<and> rv_term r = t \<and> (i, t, i) \<in> H)"

definition reply_ok :: "votes \<Rightarrow> peer_id \<Rightarrow> vote_request \<times> vote_response \<Rightarrow> bool" where
  "reply_ok H p q \<longleftrightarrow> (case q of (r, resp) \<Rightarrow>
     vr_granted resp \<longrightarrow> (\<exists>d. rv_server_id r = Some d \<and> (p, rv_term r, d) \<in> H))"

definition asked_ok :: "peer_id \<Rightarrow> vote_request \<times> peer_id \<Rightarrow> bool" where
  "asked_ok i q \<longleftrightarrow> (case q of (r, d) \<Rightarrow> rv_server_id r = Some d \<and> d \<noteq> i \<and> d \<noteq> empty_peer)"

definition cluster_ok :: "configuration \<times> configuration \<Rightarrow> ('s, 'c) cluster \<Rightarrow> bool" where
  "cluster_ok C c \<longleftrightarrow>
     (\<forall>i. node_ok C (cl_stored c) i (view (cl_node c i)))
   \<and> (\<forall>i. (i, meta_storage (cl_node c i)) \<in> cl_stored c \<and> ev_out (view (cl_node c i)) = {})
   \<and> one_vote (cl_stored c)
   \<and> (\<forall>i q. (i, q) \<in> cl_requests c \<longrightarrow> request_ok C (cl_stored c) i q)
   \<and> (\<forall>i q. (i, q) \<in> cl_replies c \<longrightarrow> reply_ok (cl_stored c) i q)
   \<and> (\<forall>i. \<forall>q \<in> ev_asked (view (cl_node c i)). asked_ok i q)
   \<and> (\<forall>T i. (T, i) \<in> cl_leaders c \<longrightarrow> elected C (cl_stored c) T i)"

lemma request_ok_mono: "request_ok C H i q \<Longrightarrow> request_ok C (insert x H) i q"
  by (auto simp: request_ok_def)

lemma reply_ok_mono: "reply_ok H i q \<Longrightarrow> reply_ok (insert x H) i q"
  by (auto simp: reply_ok_def)

lemma stored_ok_anti: "stored_ok (insert x H) i v \<Longrightarrow> stored_ok H i v"
  unfolding stored_ok_def by blast

lemma view_no_calls: "view (n\<lparr>nd_calls := []\<rparr>) = (view n)\<lparr>ev_out := {}\<rparr>"
  by (simp add: view_def)

lemma settle_ok:
  assumes c: "cluster_ok C c" and H: "H = insert (i, meta_storage n) (cl_stored c)"
    and ok: "node_ok C H i (view n)"
    and out: "\<And>q. q \<in> ev_out (view n) \<Longrightarrow> request_ok C H i q"
    and asked: "\<And>q. q \<in> ev_asked (view n) \<Longrightarrow> asked_ok i q"
    and R: "\<And>q. q \<in> R \<Longrightarrow> reply_ok H i q"
  shows "cluster_ok C (settle i n R c)"
proof -
  let ?c = "settle i n R c"
  have st: "cl_stored ?c = H" by (simp add: settle_def H)
  have nd: "cl_node ?c j = (if j = i then n\<lparr>nd_calls := []\<rparr> else cl_node c j)" for j by (simp add: settle_def)
  have "node_ok C H j (view (cl_node ?c j))" for j
    using c ok node_ok_store_other [of C "cl_stored c" j _ i "meta_storage n"]
    unfolding nd cluster_ok_def H by (simp add: view_no_calls)
  moreover have "(j, meta_storage (cl_node ?c j)) \<in> H \<and> ev_out (view (cl_node ?c j)) = {}" for j
    using c unfolding nd cluster_ok_def H by (simp add: view_no_calls)
  moreover have "one_vote H"
  proof -
    have "stored_ok (cl_stored c) i (view n)"
      using stored_ok_anti [OF node_ok_parts(2) [OF ok [unfolded H]]] .
    then show ?thesis using c one_vote_store [of "cl_stored c" i "view n"] unfolding cluster_ok_def H by simp
  qed
  moreover have "request_ok C H j q" if "(j, q) \<in> cl_requests ?c" for j q
  proof -
    have "(j, q) \<in> cl_requests c \<or> j = i \<and> q \<in> ev_out (view n)" using that unfolding settle_def by auto
    moreover have "(j, q) \<in> cl_requests c \<Longrightarrow> request_ok C (cl_stored c) j q" using c unfolding cluster_ok_def by blast
    ultimately show ?thesis using out request_ok_mono unfolding H by blast
  qed
  moreover have "reply_ok H j q" if "(j, q) \<in> cl_replies ?c" for j q
  proof -
    have "(j, q) \<in> cl_replies c \<or> j = i \<and> q \<in> R" using that unfolding settle_def by auto
    moreover have "(j, q) \<in> cl_replies c \<Longrightarrow> reply_ok (cl_stored c) j q" using c unfolding cluster_ok_def by blast
    ultimately show ?thesis using R reply_ok_mono unfolding H by blast
  qed
  moreover have "\<forall>q \<in> ev_asked (view (cl_node ?c j)). asked_ok j q" for j
    using c asked unfolding nd cluster_ok_def by (simp add: view_no_calls)
  moreover have "elected C H T j" if "(T, j) \<in> cl_leaders ?c" for T j
  proof (cases "(T, j) \<in> cl_leaders c")
    case True
    then have "elected C (cl_stored c) T j" using c unfolding cluster_ok_def by blast
    then show ?thesis by (rule elected_mono) (auto simp: H)
  next
    case False
    then have "nd_state n \<le> STATE_TRANSFERRING" "T = current_term n" "j = i"
      using that unfolding settle_def by (auto split: if_splits)
    then show ?thesis using node_ok_parts(4) [OF ok] unfolding ballot_ok_def by simp
  qed
  ultimately show ?thesis unfolding cluster_ok_def st by blast
qed

subsection \<open>Every step keeps the invariant\<close>

text \<open>What the changes of \<open>Raft_Node_Effects\<close> do to messages.\<close>

definition same_mail :: "eview \<Rightarrow> eview \<Rightarrow> bool" where
  "same_mail v v' \<longleftrightarrow> ev_out v' = ev_out v \<and> ev_asked v' = ev_asked v"

lemma same_mail_down: "v_down t v v' \<Longrightarrow> same_mail v v'"
  by (auto simp: v_down_def same_mail_def split: if_splits)

lemma same_mail_calm: "v_calm v v' \<Longrightarrow> same_mail v v'"
  by (induction rule: v_calm.induct) (use same_mail_down in \<open>auto simp: same_mail_def\<close>)

lemma same_mail_elect: "v_elect v v' \<Longrightarrow> same_mail v v'"
  by (auto simp: v_elect_def same_mail_def split: if_splits)

lemma same_mail_plain: "v_plain v v' \<Longrightarrow> same_mail v v'"
  unfolding v_plain_def using same_mail_calm same_mail_elect by (auto simp: same_mail_def)

lemma same_mail_lead: "v_lead v v' \<Longrightarrow> same_mail v v' \<and> ev_meta v' = ev_meta v"
  by (auto simp: v_lead_def same_mail_def)

lemma same_mail_counted: "v_counted b v v' \<Longrightarrow> same_mail v v' \<and> ev_meta v' = ev_meta v"
  using same_mail_lead [of "v\<lparr>ev_ballot := b\<rparr>" v'] by (auto simp: v_counted_def same_mail_def split: if_splits)

lemma same_mail_grant_self: "v_grant_self v v' \<Longrightarrow> same_mail v v' \<and> ev_meta v' = ev_meta v"
  unfolding v_grant_self_def using same_mail_counted by (auto simp: same_mail_def)

lemma mail_response:
  assumes "v_response p g v v'"
  shows "\<exists>X. own_requests v X \<and> ev_out v' = ev_out v \<union> X \<and> ev_asked v' = ev_asked v"
  using assms unfolding v_response_def
proof (elim disjE exE conjE)
  fix X assume "own_requests v X" "v' = v\<lparr>ev_out := ev_out v \<union> X\<rparr>"
  then show ?thesis by (intro exI [of _ X]) simp
next
  fix b S X assume "own_requests v X" "v_counted b (v\<lparr>ev_timers := S, ev_out := ev_out v \<union> X\<rparr>) v'"
  then show ?thesis using same_mail_counted by (intro exI [of _ X]) (force simp: same_mail_def)
qed

lemma same_mail_vote: "v_vote d v v' \<Longrightarrow> same_mail v v'"
  unfolding v_vote_def using same_mail_calm by (auto simp: same_mail_def)

lemma cluster_okD:
  assumes "cluster_ok C c"
  shows "node_ok C (cl_stored c) i (view (cl_node c i))" "(i, meta_storage (cl_node c i)) \<in> cl_stored c"
    "ev_out (view (cl_node c i)) = {}" "(i, q) \<in> cl_requests c \<Longrightarrow> request_ok C (cl_stored c) i q"
    "(i, q') \<in> cl_replies c \<Longrightarrow> reply_ok (cl_stored c) i q'"
    "q'' \<in> ev_asked (view (cl_node c i)) \<Longrightarrow> asked_ok i q''"
  using assms unfolding cluster_ok_def by blast+

lemma settle_quiet:
  assumes c: "cluster_ok C c" and ok: "node_ok C (cl_stored c) i (view n)"
    and out: "ev_out (view n) = {}" and asked: "\<And>q. q \<in> ev_asked (view n) \<Longrightarrow> asked_ok i q"
    and R: "\<And>q. q \<in> R \<Longrightarrow> reply_ok (insert (i, meta_storage n) (cl_stored c)) i q"
  shows "cluster_ok C (settle i n R c)"
  using node_ok_store [OF ok] out asked R by (intro settle_ok [OF c refl]) simp_all

lemma same_mail_quiet:
  assumes "cluster_ok C c" "same_mail (view (cl_node c i)) (view n)"
  shows "ev_out (view n) = {}" "q \<in> ev_asked (view n) \<Longrightarrow> asked_ok i q"
  using assms(2) cluster_okD(3,6) [OF assms(1)] unfolding same_mail_def by auto

lemma step_plain:
  assumes c: "cluster_ok C c" and e: "empty_peer |\<notin>| members C" and p: "plain_op ops (cl_node c i) n" and cf: "conf_ok C n"
  shows "cluster_ok C (settle i n {} c)"
proof -
  note v = plain_op_effect [OF p]
  show ?thesis
    using node_ok_plain [OF cluster_okD(1) [OF c] v _ e] cf same_mail_quiet [OF c same_mail_plain [OF v]]
    by (intro settle_quiet [OF c]) (simp_all add: conf_ok_def)
qed

lemma step_restart:
  assumes c: "cluster_ok C c" and e: "empty_peer |\<notin>| members C" and cf: "conf_ok C n"
    and n: "nd_init e' ops io (node_new i (meta_storage (cl_node c i)) lm) = (0, n)"
  shows "cluster_ok C (settle i n {} c)"
proof -
  obtain w where w: "v_started i (meta_storage (cl_node c i)) w" and v: "view n = w \<or> v_elect w (view n)"
    using init_effect [OF n] by blast
  have wok: "node_ok C (cl_stored c) i w"
    using node_ok_started [OF cluster_okD(1) [OF c]] cluster_okD(2) [OF c] w by simp
  have "node_ok C (cl_stored c) i (view n)"
    using v
  proof (elim disjE)
    assume "v_elect w (view n)"
    then show ?thesis using node_ok_elect [OF wok _ _ e] cf by (simp add: conf_ok_def)
  qed (use wok in simp)
  moreover have "same_mail w (view n)" using v same_mail_elect by (auto simp: same_mail_def)
  then have "ev_out (view n) = {}" "ev_asked (view n) = {}"
    using w unfolding same_mail_def v_started_def by simp_all
  ultimately show ?thesis by (intro settle_quiet [OF c]) simp_all
qed

lemma own_requests_ok:
  assumes "own_requests v X" "q \<in> X" "ev_server v = i" "(i, ev_term v, i) \<in> H" "i |\<in>| members C"
  shows "request_ok C H i q"
  using assms unfolding own_requests_def request_ok_def by auto

lemma node_ok_forget:
  assumes ok: "node_ok C H i v"
  shows "node_ok C H i (v\<lparr>ev_pending := remove1 t (ev_pending v)\<rparr>)" (is "node_ok C H i ?v")
proof (rule node_ok_parts)
  have sub: "u \<in> set (ev_pending v)" if "u \<in> set (remove1 t (ev_pending v))" for u
    using that by (meson notin_set_remove1)
  have ne: "remove1 t (ev_pending v) \<noteq> [] \<Longrightarrow> ev_pending v \<noteq> []" by auto
  show "pending_ok H i ?v"
    using node_ok_parts(3) [OF ok] sub unfolding pending_ok_def by (simp add: distinct_remove1)
  have bk: "ev_state v = STATE_CANDIDATE \<Longrightarrow> ev_version v \<in> ev_timers v \<Longrightarrow> (i, ev_term v, i) \<in> H"
    "ev_state v \<le> STATE_TRANSFERRING \<Longrightarrow> elected C H (ev_term v) i"
    using node_ok_parts(4) [OF ok] unfolding ballot_ok_def by blast+
  show "ballot_ok C H i ?v"
    by (rule ballot_ok_keep [OF node_ok_parts(4) [OF ok]])
      (use bk sub ne in \<open>auto simp: counting_def counted_def\<close>)
qed (use node_ok_parts(2) [OF ok] in simp)

lemma step_elect:
  assumes c: "cluster_ok C c" and p: "ElectSelfPaused t \<in> set (nd_paused (cl_node c i))" and s: "meta_store_ok e t i"
  shows "cluster_ok C (settle i (elect_self_end e ops l t (resume (ElectSelfPaused t) (cl_node c i))) {} c)"
proof -
  let ?v = "view (cl_node c i)" and ?m = "resume (ElectSelfPaused t) (cl_node c i)"
  let ?n = "elect_self_end e ops l t ?m"
  note ok = cluster_okD(1) [OF c, of i]
  have sv: "ev_server ?v = i" using node_ok_parts(2) [OF ok] unfolding stored_ok_def by blast
  have tp: "t \<in> set (ev_pending ?v)" using p by (force simp: view_def map_filter_def)
  have i: "i |\<in>| members C" using node_ok_parts(4) [OF ok] tp unfolding ballot_ok_def by force
  obtain A where A: "A \<subseteq> ev_asked ?v" and m: "view ?m = ?v\<lparr>ev_asked := A, ev_pending := remove1 t (ev_pending ?v)\<rparr>"
    using view_resume [of "cl_node c i" "ElectSelfPaused t"] by (simp only: pending_elect.simps option.case) (elim exE conjE, rule that)
  have ms: "server_id ?m = i" "current_term ?m = ev_term ?v"
    using arg_cong [OF m, of ev_server] arg_cong [OF m, of ev_term] sv by simp_all
  consider (same) "view ?n = view ?m"
    | (go) X where "t = ev_term ?v" "own_requests (view ?m) X"
        "v_grant_self ((view ?m)\<lparr>ev_out := ev_out (view ?m) \<union> X, ev_meta := (ev_term ?v, i)\<rparr>) (view ?n)"
    using elect_self_end_effect [of e t ?m ops l] s unfolding ms by blast
  then show ?thesis
  proof cases
    case same
    have nk: "node_ok C (cl_stored c) i (view ?n)" using node_ok_forget [of C "cl_stored c" i "?v\<lparr>ev_asked := A\<rparr>" t] ok unfolding same m by simp
    show ?thesis
      by (rule settle_quiet [OF c nk]) (use A cluster_okD(3,6) [OF c] in \<open>auto simp: same m\<close>)
  next
    case go
    let ?H = "insert (i, ev_term ?v, i) (cl_stored c)"
    have g: "v_grant_self ((?v\<lparr>ev_asked := A\<rparr>)\<lparr>ev_pending := remove1 (ev_term (?v\<lparr>ev_asked := A\<rparr>)) (ev_pending (?v\<lparr>ev_asked := A\<rparr>)),
        ev_out := X, ev_meta := (ev_term (?v\<lparr>ev_asked := A\<rparr>), i)\<rparr>) (view ?n)"
      using go(3) cluster_okD(3) [OF c, of i] unfolding m by (simp add: go(1))
    have nk: "node_ok C ?H i (view ?n)"
      using node_ok_elect_end [OF _ _ g] ok tp go(1) by simp
    have mail: "ev_meta (view ?n) = (ev_term ?v, i)" "ev_out (view ?n) = X" "ev_asked (view ?n) = A"
      using same_mail_grant_self [OF g] unfolding same_mail_def by simp_all
    have X: "request_ok C ?H i q" if "q \<in> X" for q
      by (rule own_requests_ok [OF go(2) that]) (use i sv in \<open>simp_all add: m\<close>)
    show ?thesis
      by (rule settle_ok [OF c, of ?H]) (use nk mail X A cluster_okD(6) [OF c, of _ i] in auto)
  qed
qed

lemma step_ask:
  assumes c: "cluster_ok C c" and e: "empty_peer |\<notin>| members C" and q: "(j, i, r, t, ver) \<in> cl_requests c"
    and h: "handle_request_vote_request_begin k r (cl_node c i) = (out, n)"
  shows "cluster_ok C (settle i n {(r, resp) | st resp. out = Some (st, Some resp)} c)"
proof -
  let ?v = "view (cl_node c i)"
  have rq: "i \<noteq> j" "j \<noteq> empty_peer" "rv_server_id r = Some j"
    using cluster_okD(4) [OF c q] e unfolding request_ok_def by auto
  have "view n \<in> {?v, ?v\<lparr>ev_asked := insert (r, j) (ev_asked ?v)\<rparr>}"
    using request_vote_begin_effect(1) [OF h] rq(3) by auto
  then have "view n = ?v\<lparr>ev_asked := ev_asked (view n)\<rparr> \<and> ev_asked (view n) \<subseteq> insert (r, j) (ev_asked ?v)" by auto
  then obtain A where A: "view n = ?v\<lparr>ev_asked := A\<rparr>" "A \<subseteq> insert (r, j) (ev_asked ?v)" by (elim conjE) (rule that)
  have "asked_ok i q" if "q \<in> A" for q
    using that A(2) cluster_okD(6) [OF c] rq unfolding asked_ok_def by auto
  moreover have "reply_ok H i (r, resp)" if "out = Some (st, Some resp)" for H st resp
    using request_vote_begin_effect(2) [OF h that] unfolding reply_ok_def by simp
  ultimately show ?thesis
    using cluster_okD(1,3) [OF c] by (intro settle_quiet [OF c]) (auto simp: A(1))
qed

lemma step_answer:
  assumes c: "cluster_ok C c" and e: "empty_peer |\<notin>| members C"
    and p: "RequestVotePaused k r d pt \<in> set (nd_paused (cl_node c i))"
    and h: "handle_request_vote_request_end e' l r d pt (resume (RequestVotePaused k r d pt) (cl_node c i)) = (resp, n)"
  shows "cluster_ok C (settle i n {(r, resp)} c)"
proof -
  let ?v = "view (cl_node c i)" and ?m = "resume (RequestVotePaused k r d pt) (cl_node c i)"
  have "(r, d) \<in> ev_asked ?v" using p by (force simp: view_def)
  then have d: "rv_server_id r = Some d" "d \<noteq> i" "d \<noteq> empty_peer"
    using cluster_okD(6) [OF c] unfolding asked_ok_def by auto
  obtain A where A: "A \<subseteq> ev_asked ?v" and m: "view ?m = ?v\<lparr>ev_asked := A, ev_pending := ev_pending ?v\<rparr>"
    using view_resume [of "cl_node c i" "RequestVotePaused k r d pt"]
    by (simp only: pending_elect.simps option.case) (elim exE conjE, rule that)
  have vt: "v_vote d (view ?m) (view n)" using request_vote_end_effect [of d ?m e' l r pt] h by simp
  have nk: "node_ok C (cl_stored c) i (view n)"
    using node_ok_vote [OF _ vt d(3,2) e] cluster_okD(1) [OF c, of i] unfolding m by simp
  have mail: "ev_out (view n) = {}" "ev_asked (view n) = A"
    using same_mail_vote [OF vt] cluster_okD(3) [OF c, of i] unfolding m same_mail_def by simp_all
  have "reply_ok (insert (i, meta_storage n) (cl_stored c)) i (r, resp)"
  proof -
    have "ev_voted (view n) \<noteq> empty_peer \<longrightarrow> ev_voted (view n) \<noteq> i \<longrightarrow> ev_meta (view n) = (ev_term (view n), ev_voted (view n))"
      using node_ok_parts(2) [OF nk] unfolding stored_ok_def by blast
    then have "meta_storage n = (rv_term r, d)" if "vr_granted resp"
      using request_vote_end_granted [OF h that] d(2,3) by simp
    then show ?thesis using d(1) unfolding reply_ok_def by auto
  qed
  then show ?thesis
    by (intro settle_quiet [OF c nk]) (use mail A cluster_okD(6) [OF c, of _ i] in auto)
qed

lemma step_count:
  assumes c: "cluster_ok C c" and q: "(i, p, r, t, ver) \<in> cl_requests c" and a: "(p, r, resp) \<in> cl_replies c"
  shows "cluster_ok C (settle i (handle_request_vote_response e ops p t ver resp (cl_node c i)) {} c)"
proof -
  let ?v = "view (cl_node c i)" and ?n = "handle_request_vote_response e ops p t ver resp (cl_node c i)"
  have rq: "rv_server_id r = Some i" "rv_term r = t" "(i, t, i) \<in> cl_stored c" "i |\<in>| members C"
    using cluster_okD(4) [OF c q] unfolding request_ok_def by auto
  have gr: "vr_granted resp \<Longrightarrow> (p, t, i) \<in> cl_stored c"
    using cluster_okD(5) [OF c a] rq unfolding reply_ok_def by auto
  note ok = cluster_okD(1) [OF c, of i]
  have sv: "ev_server ?v = i" using node_ok_parts(2) [OF ok] unfolding stored_ok_def by blast
  show ?thesis
    using request_vote_response_effect [of "cl_node c i" e ops p t ver resp]
  proof (elim disjE conjE)
    assume v: "v_calm ?v (view ?n)"
    show ?thesis
      by (rule settle_quiet [OF c node_ok_calm [OF v ok]]) (use same_mail_quiet [OF c same_mail_calm [OF v]] in simp_all)
  next
    assume s: "nd_state (cl_node c i) = STATE_CANDIDATE" and t: "t = current_term (cl_node c i)"
      and v: "v_response p (vr_granted resp) ?v (view ?n)"
    have nk: "node_ok C (cl_stored c) i (view ?n)"
      by (rule node_ok_response [OF ok _ _ _ v]) (use s t rq gr in simp_all)
    obtain X where X: "own_requests ?v X" "ev_out (view ?n) = X" "ev_asked (view ?n) = ev_asked ?v"
      using mail_response [OF v] cluster_okD(3) [OF c, of i] by auto
    have "request_ok C (insert (i, meta_storage ?n) (cl_stored c)) i q" if "q \<in> X" for q
      by (rule own_requests_ok [OF X(1) that sv]) (use rq t in simp_all)
    then show ?thesis
      using node_ok_store [OF nk] X cluster_okD(6) [OF c, of _ i] by (intro settle_ok [OF c refl]) simp_all
  qed
qed

lemma view_fire: "\<exists>S \<subseteq> ev_timers (view n). view (fire VoteCtx ver n) = (view n)\<lparr>ev_timers := S\<rparr>"
proof -
  let ?S = "{w. (VoteCtx, w) \<in> set (remove1 (VoteCtx, ver) (grant_timers n))}"
  have "view (fire VoteCtx ver n) = (view n)\<lparr>ev_timers := ?S\<rparr>" by (simp add: view_def fire_def)
  moreover have "?S \<subseteq> ev_timers (view n)"
    by (auto simp: view_def dest: set_rev_mp [OF _ set_remove1_subset])
  ultimately show ?thesis by blast
qed

lemma step_fire:
  assumes c: "cluster_ok C c" and p: "(VoteCtx, ver) \<in> set (grant_timers (cl_node c i))"
  shows "cluster_ok C (settle i (handle_grant_self_timedout e ops VoteCtx ver (fire VoteCtx ver (cl_node c i))) {} c)"
proof -
  let ?v = "view (cl_node c i)" and ?m = "fire VoteCtx ver (cl_node c i)"
  let ?n = "handle_grant_self_timedout e ops VoteCtx ver ?m"
  note ok = cluster_okD(1) [OF c, of i]
  have tm: "ver \<in> ev_timers ?v" using p by (simp add: view_def)
  obtain S where S: "S \<subseteq> ev_timers ?v" and m: "view ?m = ?v\<lparr>ev_timers := S\<rparr>"
    using view_fire [of "cl_node c i" ver] by (elim exE conjE) (rule that)
  have f: "nd_state ?m = ev_state ?v" "vc_version (vote_ctx ?m) = ev_version ?v" by (simp_all add: fire_def)
  have "node_ok C (cl_stored c) i (view ?n) \<and> same_mail ?v (view ?n)"
  proof (cases "is_active_state (ev_state ?v) \<and> ev_version ?v = ver")
    case False
    then have "view ?n = view ?m" using f by (auto simp: handle_grant_self_timedout_def get_ctx_def)
    then show ?thesis using node_ok_timers [OF ok S] by (simp add: m same_mail_def)
  next
    case True
    then have "view ?n = view (grant_self e ops VoteCtx ?m)"
      using f by (simp add: handle_grant_self_timedout_def get_ctx_def)
    then have g: "v_grant_self (?v\<lparr>ev_timers := S\<rparr>) (view ?n)"
      using grant_self_effect [of ?m e ops] unfolding m by simp
    have "node_ok C (cl_stored c) i (view ?n)"
      by (rule node_ok_timer [OF ok _ _ S g]) (use True tm in simp_all)
    then show ?thesis using same_mail_grant_self [OF g] by (simp add: same_mail_def)
  qed
  then show ?thesis by (intro settle_quiet [OF c]) (auto dest: same_mail_quiet [OF c])
qed

lemma step_ok:
  assumes "cluster_ok C c" "empty_peer |\<notin>| members C" "cstep False ops C c c'"
  shows "cluster_ok C c'"
  using assms(3)
  by cases (use assms(1,2) in \<open>simp_all add: step_plain step_elect step_ask step_answer step_count step_fire step_restart\<close>)

lemma new_ok: "cluster_ok C (cluster_new lm)"
proof -
  have "node_ok C {(i, 0, empty_peer) | i. True} i (view (node_new i (0, empty_peer) (lm i)))" for i
    by (rule node_ok_new) simp
  then show ?thesis
    unfolding cluster_ok_def by (simp add: cluster_new_def view_node_new one_vote_def) (simp add: node_new_def)
qed

lemma reachable_ok: "reachable False ops C lm c \<Longrightarrow> empty_peer |\<notin>| members C \<Longrightarrow> cluster_ok C c"
  by (induction rule: reachable.induct) (use new_ok step_ok in blast)+

lemma settle_leaders:
  assumes "\<And>j. nd_state (cl_node c j) \<le> STATE_TRANSFERRING \<Longrightarrow> (current_term (cl_node c j), j) \<in> cl_leaders c"
  shows "nd_state (cl_node (settle i n R c) j) \<le> STATE_TRANSFERRING \<Longrightarrow>
    (current_term (cl_node (settle i n R c) j), j) \<in> cl_leaders (settle i n R c)"
  using assms by (auto simp: settle_def split: if_splits)

lemma step_settles: "cstep faulty ops C c c' \<Longrightarrow> \<exists>i n R. c' = settle i n R c"
  by (cases rule: cstep.cases) auto

lemma leaders_recorded:
  "reachable faulty ops C lm c \<Longrightarrow> nd_state (cl_node c i) \<le> STATE_TRANSFERRING \<Longrightarrow>
     (current_term (cl_node c i), i) \<in> cl_leaders c"
proof (induction arbitrary: i rule: reachable.induct)
  case New
  then show ?case by (simp add: cluster_new_def node_new_def)
next
  case (Step c c')
  obtain j n R where "c' = settle j n R c" using step_settles [OF Step.hyps(2)] by blast
  then show ?case using settle_leaders [of c, OF Step.IH] Step.prems by blast
qed

end
