(* ===== verification/Raft_Election_Runs.thy ===== *)
theory Raft_Election_Runs
  imports Raft_Election Raft_Memory_Log
begin

text \<open>
  Elections of a group of three nodes, computed step by step, and the properties of
  elections.
\<close>

subsection \<open>A group of three\<close>

definition ex_a :: peer_id where "ex_a = PeerId 1 80 0"
definition ex_b :: peer_id where "ex_b = PeerId 2 80 0"
definition ex_c :: peer_id where "ex_c = PeerId 3 80 0"

definition ex_group :: "configuration \<times> configuration" where
  "ex_group = ({|ex_a, ex_b, ex_c|}, {||})"

definition ex_options :: "memory_log init_options" where
  "ex_options =
     \<lparr>io_election_timeout_ms = 1000, io_max_clock_drift_ms = 1000, io_initial_conf = fst ex_group,
      io_server_exists = True, io_queue_ok = True, io_meta_ok = True, io_fsm_ok = True,
      io_load_snapshot = (\<lambda>lm. (0, lm)), io_snapshot_interval_s = 0, io_add_to_manager_ok = True\<rparr>"

definition ex_lm :: "memory_log log_manager" where
  "ex_lm = lm_new mem_new
     \<lparr>configurations = [], cm_snapshot = \<lparr>ce_id = LogId 0 0, ce_conf = {||}, ce_old_conf = {||}\<rparr>\<rparr>"

text \<open>A node after its calls were delivered.\<close>

definition quiet :: "('s, 'c) node \<Rightarrow> ('s, 'c) node" where
  "quiet n = n\<lparr>nd_calls := []\<rparr>"

definition ex_start :: "peer_id \<Rightarrow> (memory_log, unit) node" where
  "ex_start i = snd (nd_init calm_env memory_log_ops ex_options (node_new i (0, empty_peer) ex_lm))"

text \<open>Node \<open>a\<close> is told to take over, asks for votes, gets the one of \<open>b\<close> and leads.\<close>

definition ex_now :: timeout_now_request where
  "ex_now = \<lparr>tn_term = 0, tn_old_leader_stepped_down = False\<rparr>"

definition ex_ask :: vote_request where
  "ex_ask = \<lparr>rv_server_id = Some ex_a, rv_term = 1, rv_last_log_term = 0, rv_last_log_index = 0,
             rv_disrupted_leader = None\<rparr>"

definition ex_a1 :: "(memory_log, unit) node" where
  "ex_a1 = snd (handle_timeout_now_request calm_env ex_now (quiet (ex_start ex_a)))"

definition ex_a2 :: "(memory_log, unit) node" where
  "ex_a2 = elect_self_end calm_env memory_log_ops (LogId 0 0) 1 (resume (ElectSelfPaused 1) (quiet ex_a1))"

definition ex_b1 :: "(memory_log, unit) node" where
  "ex_b1 = snd (handle_request_vote_request_begin 0 ex_ask (quiet (ex_start ex_b)))"

definition ex_b2 :: "vote_response \<times> (memory_log, unit) node" where
  "ex_b2 = handle_request_vote_request_end calm_env (LogId 0 0) ex_ask ex_a 0
     (resume (RequestVotePaused 0 ex_ask ex_a 0) (quiet ex_b1))"

definition ex_a3 :: "(memory_log, unit) node" where
  "ex_a3 = handle_request_vote_response calm_env memory_log_ops ex_b 1 1 (fst ex_b2) (quiet ex_a2)"

lemma ex_init: "fst (nd_init calm_env memory_log_ops ex_options (node_new ex_a (0, empty_peer) ex_lm :: (memory_log, unit) node)) = 0"
  "fst (nd_init calm_env memory_log_ops ex_options (node_new ex_b (0, empty_peer) ex_lm :: (memory_log, unit) node)) = 0"
  by code_simp+

lemma ex_confs: "conf_ok ex_group (ex_start ex_a)" "conf_ok ex_group (ex_start ex_b)" "conf_ok ex_group ex_a1"
  by code_simp+

lemma ex_paused: "ElectSelfPaused 1 \<in> set (nd_paused ex_a1)"
  by code_simp

lemma ex_sent: "SendRequestVote ex_b ex_ask 1 1 \<in> set (nd_calls ex_a2)"
  by code_simp

lemma ex_asked: "fst (handle_request_vote_request_begin 0 ex_ask (quiet (ex_start ex_b))) = None"
   "RequestVotePaused 0 ex_ask ex_a 0 \<in> set (nd_paused ex_b1)"
  by code_simp+

lemma ex_granted: "vr_granted (fst ex_b2)" by code_simp

lemma ex_leads: "nd_state ex_a3 = STATE_LEADER" "current_term ex_a3 = 1"
  by code_simp+

text \<open>The steps of the group.\<close>

lemma cl_settle:
  "cl_node (settle i n R c) j = (if j = i then quiet n else cl_node c j)"
  "cl_requests (settle i n R c) = cl_requests c \<union> Pair i ` ev_out (view n)"
  "cl_replies (settle i n R c) = cl_replies c \<union> Pair i ` R"
  "cl_leaders (settle i n R c) = cl_leaders c \<union> (if nd_state n \<le> STATE_TRANSFERRING then {(current_term n, i)} else {})"
  by (simp_all add: settle_def quiet_def)

lemma sent_request: "SendRequestVote p r t v \<in> set (nd_calls n) \<Longrightarrow> (p, r, t, v) \<in> ev_out (view n)"
  by (force simp: view_def)

definition ex_g1 :: "(memory_log, unit) cluster" where
  "ex_g1 = settle ex_b (ex_start ex_b) {} (settle ex_a (ex_start ex_a) {} (cluster_new (\<lambda>_. ex_lm)))"

definition ex_g2 :: "(memory_log, unit) cluster" where
  "ex_g2 = settle ex_a ex_a2 {} (settle ex_a ex_a1 {} ex_g1)"

definition ex_g3 :: "(memory_log, unit) cluster" where
  "ex_g3 = settle ex_a ex_a3 {} (settle ex_b (snd ex_b2) {(ex_ask, fst ex_b2)} (settle ex_b ex_b1 {} ex_g2))"

lemma ex_differ: "ex_a \<noteq> ex_b" "ex_b \<noteq> ex_a" by (simp_all add: ex_a_def ex_b_def)

lemma ex_g1_reachable: "reachable False memory_log_ops ex_group (\<lambda>_. ex_lm) ex_g1"
  unfolding ex_g1_def
proof (intro reachable.Step [OF reachable.Step [OF reachable.New]])
  have new: "meta_storage (cl_node (cluster_new (\<lambda>_. ex_lm)) i) = (0, empty_peer)" for i
    by (simp add: cluster_new_def node_new_def)
  have ini: "nd_init calm_env memory_log_ops ex_options (node_new i (0, empty_peer) ex_lm) = (0, ex_start i)"
    if "fst (nd_init calm_env memory_log_ops ex_options (node_new i (0, empty_peer) ex_lm :: (memory_log, unit) node)) = 0" for i
    using that unfolding ex_start_def by (metis prod.collapse)
  show "cstep False memory_log_ops ex_group (cluster_new (\<lambda>_. ex_lm)) (settle ex_a (ex_start ex_a) {} (cluster_new (\<lambda>_. ex_lm)))"
    by (rule cstep.Restart [where e = calm_env and io = ex_options and lm = ex_lm])
      (simp_all add: new ini ex_init ex_confs)
  show "cstep False memory_log_ops ex_group (settle ex_a (ex_start ex_a) {} (cluster_new (\<lambda>_. ex_lm)))
      (settle ex_b (ex_start ex_b) {} (settle ex_a (ex_start ex_a) {} (cluster_new (\<lambda>_. ex_lm))))"
    by (rule cstep.Restart [where e = calm_env and io = ex_options and lm = ex_lm])
      (simp_all add: cl_settle ex_differ new ini ex_init ex_confs)
qed

lemma ex_g1_nodes: "cl_node ex_g1 ex_a = quiet (ex_start ex_a)" "cl_node ex_g1 ex_b = quiet (ex_start ex_b)"
  by (simp_all add: ex_g1_def cl_settle ex_differ)

lemma quiet_paused [simp]: "nd_paused (quiet n) = nd_paused n"
  by (simp add: quiet_def)

lemma calm_store [simp]: "meta_store_ok calm_env t p"
  by (simp add: calm_env_def)

lemma ex_g2_reachable: "reachable False memory_log_ops ex_group (\<lambda>_. ex_lm) ex_g2"
  unfolding ex_g2_def
proof (intro reachable.Step [OF reachable.Step [OF ex_g1_reachable]])
  show "cstep False memory_log_ops ex_group ex_g1 (settle ex_a ex_a1 {} ex_g1)"
    using plain_op.Timeout_now [of memory_log_ops "quiet (ex_start ex_a)" calm_env ex_now]
    by (intro cstep.Plain) (simp_all add: ex_g1_nodes ex_a1_def [symmetric] ex_confs)
  show "cstep False memory_log_ops ex_group (settle ex_a ex_a1 {} ex_g1) (settle ex_a ex_a2 {} (settle ex_a ex_a1 {} ex_g1))"
    using cstep.Elect [of 1 "settle ex_a ex_a1 {} ex_g1" ex_a calm_env False memory_log_ops ex_group "LogId 0 0"] ex_paused
    by (simp add: cl_settle ex_a2_def [symmetric])
qed

lemma ex_g2_nodes: "cl_node ex_g2 ex_a = quiet ex_a2" "cl_node ex_g2 ex_b = quiet (ex_start ex_b)"
  "(ex_a, ex_b, ex_ask, 1, 1) \<in> cl_requests ex_g2"
  by (simp_all add: ex_g2_def cl_settle ex_differ ex_g1_nodes sent_request [OF ex_sent])

lemma ex_g3_reachable: "reachable False memory_log_ops ex_group (\<lambda>_. ex_lm) ex_g3"
  unfolding ex_g3_def
proof (intro reachable.Step [OF reachable.Step [OF reachable.Step [OF ex_g2_reachable]]])
  have "handle_request_vote_request_begin 0 ex_ask (quiet (ex_start ex_b)) = (None, ex_b1)"
    using ex_asked(1) unfolding ex_b1_def by (metis prod.collapse)
  then show "cstep False memory_log_ops ex_group ex_g2 (settle ex_b ex_b1 {} ex_g2)"
    using cstep.Ask [OF ex_g2_nodes(3), of 0 None ex_b1 False memory_log_ops ex_group] by (simp add: ex_g2_nodes)
  show "cstep False memory_log_ops ex_group (settle ex_b ex_b1 {} ex_g2)
      (settle ex_b (snd ex_b2) {(ex_ask, fst ex_b2)} (settle ex_b ex_b1 {} ex_g2))"
    by (rule cstep.Answer [where k = 0 and d = ex_a and pt = 0 and e = calm_env and l = "LogId 0 0"])
      (simp_all add: cl_settle ex_asked ex_b2_def [symmetric])
  show "cstep False memory_log_ops ex_group (settle ex_b (snd ex_b2) {(ex_ask, fst ex_b2)} (settle ex_b ex_b1 {} ex_g2))
      (settle ex_a ex_a3 {} (settle ex_b (snd ex_b2) {(ex_ask, fst ex_b2)} (settle ex_b ex_b1 {} ex_g2)))"
    using cstep.Count [of ex_a ex_b ex_ask 1 1 "settle ex_b (snd ex_b2) {(ex_ask, fst ex_b2)} (settle ex_b ex_b1 {} ex_g2)"
        "fst ex_b2" False memory_log_ops ex_group calm_env]
    by (simp add: cl_settle ex_g2_nodes ex_differ ex_a3_def [symmetric])
qed

lemma ex_g3_leader: "(1, ex_a) \<in> cl_leaders ex_g3"
  by (simp add: ex_g3_def cl_settle ex_leads)

lemma ex_group_nonempty: "empty_peer |\<notin>| members ex_group"
  by code_simp

subsection \<open>Properties of elections\<close>

text \<open>
  C1: Election safety. In a group of nodes with a fixed configuration, whatever handlers run in
  whatever order, with messages lost, repeated and reordered and with nodes that stop and
  start again, there is at most one leader in every term, provided that candidates manage to
  store their own votes; and every node that leads is recorded as leader of its term.
\<close>

theorem election_safety:
  assumes "empty_peer |\<notin>| members C" and "reachable False ops C lm c"
  shows "(\<forall>T i j. (T, i) \<in> cl_leaders c \<and> (T, j) \<in> cl_leaders c \<longrightarrow> i = j)
    \<and> (\<forall>i. nd_state (cl_node c i) = STATE_LEADER \<longrightarrow> (current_term (cl_node c i), i) \<in> cl_leaders c)"
proof -
  note ok = reachable_ok [OF assms(2,1)]
  have "i = j" if "(T, i) \<in> cl_leaders c" "(T, j) \<in> cl_leaders c" for T i j
    using that ok elected_unique [OF _ _ _ assms(1)] unfolding cluster_ok_def by blast
  then show ?thesis using leaders_recorded [OF assms(2)] by auto
qed

theorem election_safety_witness:
  "{i. (1, i) \<in> cl_leaders ex_g3} = {ex_a}"
  using election_safety [OF ex_group_nonempty ex_g3_reachable] ex_g3_leader by blast



end
