(* ===== verification/Raft_Fsm_Caller.thy ===== *)
theory Raft_Fsm_Caller
  imports Raft_Log_Manager Raft_Ballot_Box
begin

text \<open>
  The caller of the user's state machine, \<^verbatim>\<open>raft/braft/fsm_caller.{h,cpp}\<close>: a queue of tasks
  that hands committed entries to the state machine, one after the other, and tells it about
  snapshots, leaders and errors. \<^verbatim>\<open>Iterator\<close> is the class of \<^verbatim>\<open>raft/braft/raft.cpp\<close> that a
  state machine sees.

  The state machine is code of the user and a parameter. Its \<^verbatim>\<open>on_apply\<close> runs a loop over
  the iterator; the parameter says for every entry it sees how its state changes and
  whether it calls \<^verbatim>\<open>next\<close>, returns, or gives up with \<^verbatim>\<open>set_error_and_rollback\<close>.
\<close>

abbreviation (input) ESTALE :: int where "ESTALE \<equiv> 116"
abbreviation (input) ESTATEMACHINE :: int where "ESTATEMACHINE \<equiv> 10002"

subsection \<open>State\<close>

datatype error_type = ERROR_TYPE_LOG | ERROR_TYPE_STABLE | ERROR_TYPE_SNAPSHOT | ERROR_TYPE_STATE_MACHINE

type_synonym fsm_error = "error_type \<times> int"

datatype apply_verdict = GoOn | Return | Rollback nat

record ('m, 'c) state_machine =
  sm_on_apply :: "int \<Rightarrow> log_entry \<Rightarrow> 'c option \<Rightarrow> 'm \<Rightarrow> apply_verdict \<times> 'm"
  sm_on_configuration_committed :: "configuration \<Rightarrow> int \<Rightarrow> 'm \<Rightarrow> 'm"
  sm_on_snapshot_save :: "'m \<Rightarrow> 'm"
  sm_on_snapshot_load :: "snapshot_meta \<Rightarrow> 'm \<Rightarrow> int \<times> 'm"
  sm_on_leader_start :: "int \<Rightarrow> 'm \<Rightarrow> 'm"
  sm_on_leader_stop :: "int \<Rightarrow> 'm \<Rightarrow> 'm"
  sm_on_start_following :: "peer_id \<Rightarrow> int \<Rightarrow> int \<Rightarrow> 'm \<Rightarrow> 'm"
  sm_on_stop_following :: "peer_id \<Rightarrow> int \<Rightarrow> int \<Rightarrow> 'm \<Rightarrow> 'm"
  sm_on_error :: "fsm_error \<Rightarrow> 'm \<Rightarrow> 'm"
  sm_on_shutdown :: "'m \<Rightarrow> 'm"

datatype task_type =
  IDLE | COMMITTED | SNAPSHOT_SAVE | SNAPSHOT_LOAD | LEADER_STOP | LEADER_START
| START_FOLLOWING | STOP_FOLLOWING | TASK_ERROR

text \<open>
  \<^verbatim>\<open>struct ApplyTask\<close>. A closure of the snapshot executor is given by what it answers: whether
  \<^verbatim>\<open>start\<close> makes a writer, and whether it makes a reader, with the result of \<^verbatim>\<open>load_meta\<close>.
\<close>

datatype apply_task =
  CommittedTask int
| SnapshotSaveTask bool
| SnapshotLoadTask "(int \<times> snapshot_meta) option"
| LeaderStopTask int
| LeaderStartTask int int
| StartFollowingTask peer_id int int
| StopFollowingTask peer_id int int
| ErrorTask fsm_error

text \<open>What the caller does to others: an entry seen by the state machine, a closure that is
  run with a status, and calls of the node, the snapshot executor and the log manager.\<close>

datatype 'c fsm_output =
  Applied int log_entry "'c option"
| ConfCommitted configuration int
| RanClosure 'c int
| NodeOnError fsm_error
| LeaderLeaseStart int
| SaveStarted snapshot_meta
| SaveDone int
| LoadDone int
| AfterShutdown
| FromLogManager lm_event

record ('s, 'c, 'm) fsm_caller =
  fc_log_manager :: "'s log_manager"
  fc_fsm :: 'm
  fc_closure_queue :: "'c closure_queue"
  last_applied_index :: int
  last_applied_term :: int
  fc_after_shutdown :: bool
  fc_node :: bool
  cur_task :: task_type
  fc_applying_index :: int
  fc_error :: "fsm_error option"
  fc_out :: "'c fsm_output list"

definition fsm_caller_new :: "'s log_manager \<Rightarrow> 'm \<Rightarrow> 'c closure_queue \<Rightarrow> log_id \<Rightarrow> bool \<Rightarrow> bool \<Rightarrow> ('s, 'c, 'm) fsm_caller" where
  "fsm_caller_new lm m q bootstrap_id after_shutdown node =
     \<lparr>fc_log_manager = lm, fc_fsm = m, fc_closure_queue = q, last_applied_index = index bootstrap_id,
      last_applied_term = log_term bootstrap_id, fc_after_shutdown = after_shutdown, fc_node = node,
      cur_task = IDLE, fc_applying_index = 0, fc_error = None, fc_out = []\<rparr>"

definition emit :: "'c fsm_output list \<Rightarrow> ('s, 'c, 'm) fsm_caller \<Rightarrow> ('s, 'c, 'm) fsm_caller" where
  "emit os fc = fc\<lparr>fc_out := fc_out fc @ os\<rparr>"

definition tell_fsm :: "('m \<Rightarrow> 'm) \<Rightarrow> ('s, 'c, 'm) fsm_caller \<Rightarrow> ('s, 'c, 'm) fsm_caller" where
  "tell_fsm f fc = fc\<lparr>fc_fsm := f (fc_fsm fc)\<rparr>"

subsection \<open>The iterator\<close>

record 'c iterator =
  it_closure :: "'c option list"
  it_first_closure_index :: int
  cur_index :: int
  it_committed_index :: int
  cur_entry :: "log_entry option"
  it_error :: "fsm_error option"

definition it_next ::
  "'s log_storage_ops \<Rightarrow> 'c iterator \<Rightarrow> ('s, 'c, 'm) fsm_caller \<Rightarrow> 'c iterator \<times> ('s, 'c, 'm) fsm_caller" where
  "it_next ops it fc =
     (let it = it\<lparr>cur_entry := None\<rparr>
      in if cur_index it \<le> it_committed_index it
         then let it = it\<lparr>cur_index := cur_index it + 1\<rparr>
              in if cur_index it \<le> it_committed_index it
                 then let (entry, lm, evs) = lm_get_entry ops (cur_index it) (fc_log_manager fc);
                          it = it\<lparr>cur_entry := entry,
                                  it_error := (if entry = None then Some (ERROR_TYPE_LOG, -1) else it_error it)\<rparr>
                      in (it, emit (map FromLogManager evs)
                                (fc\<lparr>fc_log_manager := lm, fc_applying_index := cur_index it\<rparr>))
                 else (it, fc)
         else (it, fc))"

definition is_good :: "'c iterator \<Rightarrow> bool" where
  "is_good it \<longleftrightarrow> cur_index it \<le> it_committed_index it \<and> it_error it = None"

text \<open>The access to the vector of closures is not checked.\<close>

definition it_done :: "'c iterator \<Rightarrow> 'c option" where
  "it_done it =
     (if cur_index it < it_first_closure_index it then None
      else let k = nat (cur_index it - it_first_closure_index it)
           in if k < length (it_closure it) then it_closure it ! k else None)"

definition set_error_and_rollback :: "nat \<Rightarrow> 'c iterator \<Rightarrow> 'c iterator" where
  "set_error_and_rollback ntail it =
     (if ntail = 0 then it
      else it\<lparr>cur_index := (case cur_entry it of
                 Some e \<Rightarrow> if le_type e \<noteq> ENTRY_TYPE_DATA then cur_index it - int ntail
                           else cur_index it - (int ntail - 1)
               | None \<Rightarrow> cur_index it - int ntail),
              cur_entry := None, it_error := Some (ERROR_TYPE_STATE_MACHINE, ESTATEMACHINE)\<rparr>)"

definition rest_closures :: "'c iterator \<Rightarrow> 'c option list" where
  "rest_closures it =
     take (nat (it_committed_index it + 1 - max (cur_index it) (it_first_closure_index it)))
       (drop (nat (max (cur_index it) (it_first_closure_index it) - it_first_closure_index it)) (it_closure it))"

definition run_the_rest_closure_with_error ::
  "'c iterator \<Rightarrow> ('s, 'c, 'm) fsm_caller \<Rightarrow> ('s, 'c, 'm) fsm_caller" where
  "run_the_rest_closure_with_error it fc =
     emit (List.map_filter (map_option (\<lambda>c. RanClosure c (case it_error it of None \<Rightarrow> 0 | Some (_, st) \<Rightarrow> st)))
             (rest_closures it)) fc"

text \<open>\<^verbatim>\<open>class Iterator\<close> of the user.\<close>

definition it_valid :: "'c iterator \<Rightarrow> bool" where
  "it_valid it \<longleftrightarrow> is_good it \<and>
     (case cur_entry it of None \<Rightarrow> False | Some e \<Rightarrow> le_type e = ENTRY_TYPE_DATA)"

definition iterator_next ::
  "'s log_storage_ops \<Rightarrow> 'c iterator \<times> ('s, 'c, 'm) fsm_caller \<Rightarrow> 'c iterator \<times> ('s, 'c, 'm) fsm_caller" where
  "iterator_next ops s = (if it_valid (fst s) then it_next ops (fst s) (snd s) else s)"

lemma it_next_sel [simp]:
  "it_committed_index (fst (it_next ops it fc)) = it_committed_index it"
  "it_closure (fst (it_next ops it fc)) = it_closure it"
  "it_first_closure_index (fst (it_next ops it fc)) = it_first_closure_index it"
  "cur_index it \<le> it_committed_index it \<Longrightarrow> cur_index (fst (it_next ops it fc)) = cur_index it + 1"
  by (simp_all add: it_next_def Let_def case_prod_beta)

text \<open>The state machine sees an entry.\<close>

definition apply_entry ::
  "('m, 'c) state_machine \<Rightarrow> 'c iterator \<times> ('s, 'c, 'm) fsm_caller \<Rightarrow> apply_verdict \<times> 'c iterator \<times> ('s, 'c, 'm) fsm_caller" where
  "apply_entry sm s =
     (let it = fst s; fc = snd s; e = the (cur_entry it);
          (verdict, m) = sm_on_apply sm (cur_index it) e (it_done it) (fc_fsm fc)
      in (verdict, it, emit [Applied (cur_index it) e (it_done it)] (fc\<lparr>fc_fsm := m\<rparr>)))"

lemma apply_entry_it [simp]: "fst (snd (apply_entry sm s)) = fst s"
  by (simp add: apply_entry_def Let_def case_prod_beta)

text \<open>The loop of the user over the iterator.\<close>

function run_on_apply ::
  "('m, 'c) state_machine \<Rightarrow> 's log_storage_ops \<Rightarrow> 'c iterator \<times> ('s, 'c, 'm) fsm_caller
     \<Rightarrow> 'c iterator \<times> ('s, 'c, 'm) fsm_caller" where
  "run_on_apply sm ops s =
     (if \<not> it_valid (fst s) then s
      else case fst (apply_entry sm s) of
             GoOn \<Rightarrow> run_on_apply sm ops (iterator_next ops (snd (apply_entry sm s)))
           | Return \<Rightarrow> snd (apply_entry sm s)
           | Rollback ntail \<Rightarrow> (set_error_and_rollback ntail (fst s), snd (snd (apply_entry sm s))))"
  by pat_completeness auto

termination
  by (relation "measure (\<lambda>(sm, ops, s). nat (it_committed_index (fst s) + 1 - cur_index (fst s)))")
    (auto simp: iterator_next_def it_valid_def is_good_def)

declare run_on_apply.simps [simp del]

lemma rollback_sel [simp]:
  "it_committed_index (set_error_and_rollback k it) = it_committed_index it"
  "it_closure (set_error_and_rollback k it) = it_closure it"
  "it_first_closure_index (set_error_and_rollback k it) = it_first_closure_index it"
  by (simp_all add: set_error_and_rollback_def)

lemma iterator_next_sel [simp]:
  "it_committed_index (fst (iterator_next ops s)) = it_committed_index (fst s)"
  "it_closure (fst (iterator_next ops s)) = it_closure (fst s)"
  "it_first_closure_index (fst (iterator_next ops s)) = it_first_closure_index (fst s)"
  by (simp_all add: iterator_next_def)

lemma on_apply_sel [simp]:
  "it_committed_index (fst (run_on_apply sm ops s)) = it_committed_index (fst s) \<and>
   it_closure (fst (run_on_apply sm ops s)) = it_closure (fst s) \<and>
   it_first_closure_index (fst (run_on_apply sm ops s)) = it_first_closure_index (fst s)"
  by (induction sm ops s rule: run_on_apply.induct)
    (subst (1 2 3) run_on_apply.simps, auto split: apply_verdict.splits)

text \<open>After a call of \<^verbatim>\<open>on_apply\<close> the caller moves on, in case the user did not.\<close>

definition apply_and_move ::
  "('m, 'c) state_machine \<Rightarrow> 's log_storage_ops \<Rightarrow> 'c iterator \<times> ('s, 'c, 'm) fsm_caller
     \<Rightarrow> 'c iterator \<times> ('s, 'c, 'm) fsm_caller" where
  "apply_and_move sm ops s = iterator_next ops (run_on_apply sm ops s)"

lemma apply_and_move_sel [simp]:
  "it_committed_index (fst (apply_and_move sm ops s)) = it_committed_index (fst s)"
  by (simp add: apply_and_move_def)

lemma move_progress:
  "it_valid (fst s) \<Longrightarrow> it_error (fst (apply_and_move sm ops s)) = None \<Longrightarrow>
     cur_index (fst (apply_and_move sm ops s)) > cur_index (fst s)"
proof (induction sm ops s rule: run_on_apply.induct)
  case (1 sm ops s)
  have le: "cur_index (fst s) \<le> it_committed_index (fst s)" using 1(2) by (simp add: it_valid_def is_good_def)
  show ?case
  proof (cases "fst (apply_entry sm s)")
    case GoOn
    let ?s = "iterator_next ops (snd (apply_entry sm s))"
    have cur: "cur_index (fst ?s) = cur_index (fst s) + 1"
      using 1(2) le by (simp add: iterator_next_def)
    have eq: "apply_and_move sm ops s = apply_and_move sm ops ?s"
      using 1(2) GoOn by (simp add: apply_and_move_def run_on_apply.simps [of sm ops s])
    show ?thesis
    proof (cases "it_valid (fst ?s)")
      case True
      then show ?thesis using 1(1) [OF _ GoOn True] 1(2,3) cur unfolding eq by simp
    next
      case False
      then have "apply_and_move sm ops ?s = ?s"
        by (simp add: apply_and_move_def run_on_apply.simps [of sm ops ?s] iterator_next_def [of ops ?s])
      then show ?thesis using cur unfolding eq by simp
    qed
  next
    case Return
    then have "apply_and_move sm ops s = it_next ops (fst s) (snd (snd (apply_entry sm s)))"
      using 1(2) by (simp add: apply_and_move_def run_on_apply.simps [of sm ops s] iterator_next_def)
    then show ?thesis using le by simp
  next
    case (Rollback k)
    then have oa: "run_on_apply sm ops s = (set_error_and_rollback k (fst s), snd (snd (apply_entry sm s)))"
      using 1(2) by (simp add: run_on_apply.simps [of sm ops s])
    show ?thesis
    proof (cases "k = 0")
      case True
      then show ?thesis using 1(2) le oa
        by (simp add: apply_and_move_def iterator_next_def set_error_and_rollback_def)
    next
      case False
      then show ?thesis using 1(3) oa
        by (simp add: apply_and_move_def iterator_next_def set_error_and_rollback_def it_valid_def is_good_def)
    qed
  qed
qed

subsection \<open>Tasks\<close>

text \<open>\<^verbatim>\<open>_error.status().ok()\<close>: an error may be reported with status 0.\<close>

definition error_ok :: "('s, 'c, 'm) fsm_caller \<Rightarrow> bool" where
  "error_ok fc = (case fc_error fc of None \<Rightarrow> True | Some (_, st) \<Rightarrow> st = 0)"

definition set_error :: "('m, 'c) state_machine \<Rightarrow> fsm_error \<Rightarrow> ('s, 'c, 'm) fsm_caller \<Rightarrow> ('s, 'c, 'm) fsm_caller" where
  "set_error sm e fc =
     (if fc_error fc \<noteq> None then fc
      else let fc = tell_fsm (sm_on_error sm e) (fc\<lparr>fc_error := Some e\<rparr>)
           in if fc_node fc then emit [NodeOnError e] fc else fc)"

text \<open>An entry that is not for the state machine: only its closure is run, and a configuration
  is announced unless it is a joint one.\<close>

definition skip_entry ::
  "('m, 'c) state_machine \<Rightarrow> log_entry \<Rightarrow> 'c iterator \<Rightarrow> ('s, 'c, 'm) fsm_caller \<Rightarrow> ('s, 'c, 'm) fsm_caller" where
  "skip_entry sm e it fc =
     (let fc = (if le_type e = ENTRY_TYPE_CONFIGURATION \<and> le_old_peers e = None
                then let c = conf_of_vector (the (le_peers e))
                     in emit [ConfCommitted c (index (le_id e))]
                          (tell_fsm (sm_on_configuration_committed sm c (index (le_id e))) fc)
                else fc)
      in case it_done it of None \<Rightarrow> fc | Some c \<Rightarrow> emit [RanClosure c 0] fc)"

function committed_loop ::
  "('m, 'c) state_machine \<Rightarrow> 's log_storage_ops \<Rightarrow> 'c iterator \<times> ('s, 'c, 'm) fsm_caller
     \<Rightarrow> 'c iterator \<times> ('s, 'c, 'm) fsm_caller" where
  "committed_loop sm ops s =
     (if \<not> is_good (fst s) then s
      else case cur_entry (fst s) of
             None \<Rightarrow> s
           | Some e \<Rightarrow>
               if le_type e \<noteq> ENTRY_TYPE_DATA
               then committed_loop sm ops (it_next ops (fst s) (skip_entry sm e (fst s) (snd s)))
               else committed_loop sm ops (apply_and_move sm ops s))"
  by pat_completeness auto

termination
proof (relation "measure (\<lambda>(sm, ops, s). if it_error (fst s) = None
    then nat (it_committed_index (fst s) + 1 - cur_index (fst s)) else 0)", goal_cases)
  case (2 sm ops s e)
  then show ?case by (auto simp: is_good_def)
next
  case (3 sm ops s e)
  then have "it_valid (fst s)" by (simp add: it_valid_def)
  from move_progress [OF this, of sm ops] 3 show ?case by (auto simp: is_good_def)
qed simp

declare committed_loop.simps [simp del]

definition do_committed ::
  "('m, 'c) state_machine \<Rightarrow> 's log_storage_ops \<Rightarrow> int \<Rightarrow> ('s, 'c, 'm) fsm_caller \<Rightarrow> ('s, 'c, 'm) fsm_caller" where
  "do_committed sm ops committed_index fc =
     (if \<not> error_ok fc then fc
      else if last_applied_index fc \<ge> committed_index then fc
      else
        case cq_pop_closure_until committed_index (fc_closure_queue fc) of
          (_, closure, first_closure_index, q) \<Rightarrow>
            (let fc = fc\<lparr>fc_closure_queue := q\<rparr>;
                 it = \<lparr>it_closure = closure,
                       it_first_closure_index = (case first_closure_index of None \<Rightarrow> 0 | Some i \<Rightarrow> i),
                       cur_index = last_applied_index fc, it_committed_index = committed_index,
                       cur_entry = None, it_error = None\<rparr>;
                 (it, fc) = committed_loop sm ops (it_next ops it fc);
                 fc = (case it_error it of None \<Rightarrow> fc
                       | Some e \<Rightarrow> run_the_rest_closure_with_error it (set_error sm e fc));
                 last_index = cur_index it - 1;
                 last_term = lm_get_term ops last_index (fc_log_manager fc)
             in fc\<lparr>last_applied_index := committed_index, last_applied_term := last_term,
                   fc_log_manager := set_applied_id (LogId last_index last_term) (fc_log_manager fc)\<rparr>))"

text \<open>\<open>Some st\<close> is the status the task ends with because the caller is in error.\<close>

definition pass_by_status :: "('s, 'c, 'm) fsm_caller \<Rightarrow> int option" where
  "pass_by_status fc = (if \<not> error_ok fc then Some EINVAL else None)"

definition snapshot_meta_of :: "('s, 'c, 'm) fsm_caller \<Rightarrow> snapshot_meta" where
  "snapshot_meta_of fc =
     (let conf_entry = lm_get_configuration (last_applied_index fc) (fc_log_manager fc)
      in \<lparr>last_included_index = last_applied_index fc, last_included_term = last_applied_term fc,
          sm_peers = conf_list_peers (ce_conf conf_entry), sm_old_peers = conf_list_peers (ce_old_conf conf_entry)\<rparr>)"

definition do_snapshot_save ::
  "('m, 'c) state_machine \<Rightarrow> bool \<Rightarrow> ('s, 'c, 'm) fsm_caller \<Rightarrow> ('s, 'c, 'm) fsm_caller" where
  "do_snapshot_save sm writer fc =
     (let fc = emit [SaveStarted (snapshot_meta_of fc)] fc
      in if \<not> writer then emit [SaveDone EINVAL] fc else tell_fsm (sm_on_snapshot_save sm) fc)"

definition do_snapshot_load ::
  "('m, 'c) state_machine \<Rightarrow> (int \<times> snapshot_meta) option \<Rightarrow> ('s, 'c, 'm) fsm_caller \<Rightarrow> ('s, 'c, 'm) fsm_caller" where
  "do_snapshot_load sm reader fc =
     (case reader of
        None \<Rightarrow> emit [LoadDone EINVAL] fc
      | Some (ret, meta) \<Rightarrow>
          if ret \<noteq> 0
          then let fc = emit [LoadDone ret] fc
               in if ret = EIO then set_error sm (ERROR_TYPE_SNAPSHOT, ret) fc else fc
          else if LogId (last_applied_index fc) (last_applied_term fc)
                    > LogId (last_included_index meta) (last_included_term meta)
          then emit [LoadDone ESTALE] fc
          else
            let (ret, m) = sm_on_snapshot_load sm meta (fc_fsm fc);
                fc = fc\<lparr>fc_fsm := m\<rparr>
            in if ret \<noteq> 0 then set_error sm (ERROR_TYPE_STATE_MACHINE, ret) (emit [LoadDone ret] fc)
               else
                 let c = conf_of_vector (sm_peers meta);
                     fc = (if sm_old_peers meta = []
                           then emit [ConfCommitted c (last_included_index meta)]
                                  (tell_fsm (sm_on_configuration_committed sm c (last_included_index meta)) fc)
                           else fc)
                 in emit [LoadDone 0] (fc\<lparr>last_applied_index := last_included_index meta,
                                        last_applied_term := last_included_term meta\<rparr>))"

definition do_shutdown :: "('m, 'c) state_machine \<Rightarrow> ('s, 'c, 'm) fsm_caller \<Rightarrow> ('s, 'c, 'm) fsm_caller" where
  "do_shutdown sm fc =
     (let fc = tell_fsm (sm_on_shutdown sm) (fc\<lparr>fc_node := False\<rparr>)
      in if fc_after_shutdown fc then emit [AfterShutdown] (fc\<lparr>fc_after_shutdown := False\<rparr>) else fc)"

text \<open>A task that is no commit.\<close>

definition run_task ::
  "('m, 'c) state_machine \<Rightarrow> apply_task \<Rightarrow> ('s, 'c, 'm) fsm_caller \<Rightarrow> ('s, 'c, 'm) fsm_caller" where
  "run_task sm t fc =
     (case t of
        CommittedTask _ \<Rightarrow> fc
      | SnapshotSaveTask writer \<Rightarrow>
          (let fc = fc\<lparr>cur_task := SNAPSHOT_SAVE\<rparr>
           in case pass_by_status fc of None \<Rightarrow> do_snapshot_save sm writer fc | Some st \<Rightarrow> emit [SaveDone st] fc)
      | SnapshotLoadTask reader \<Rightarrow>
          (let fc = fc\<lparr>cur_task := SNAPSHOT_LOAD\<rparr>
           in case pass_by_status fc of None \<Rightarrow> do_snapshot_load sm reader fc | Some st \<Rightarrow> emit [LoadDone st] fc)
      | LeaderStopTask st \<Rightarrow> tell_fsm (sm_on_leader_stop sm st) (fc\<lparr>cur_task := LEADER_STOP\<rparr>)
      | LeaderStartTask t epoch \<Rightarrow> tell_fsm (sm_on_leader_start sm t) (emit [LeaderLeaseStart epoch] fc)
      | StartFollowingTask p t st \<Rightarrow>
          tell_fsm (sm_on_start_following sm p t st) (fc\<lparr>cur_task := START_FOLLOWING\<rparr>)
      | StopFollowingTask p t st \<Rightarrow>
          tell_fsm (sm_on_stop_following sm p t st) (fc\<lparr>cur_task := STOP_FOLLOWING\<rparr>)
      | ErrorTask e \<Rightarrow> set_error sm e (fc\<lparr>cur_task := TASK_ERROR\<rparr>))"

definition flush_committed ::
  "('m, 'c) state_machine \<Rightarrow> 's log_storage_ops \<Rightarrow> int \<Rightarrow> ('s, 'c, 'm) fsm_caller \<Rightarrow> ('s, 'c, 'm) fsm_caller" where
  "flush_committed sm ops max_committed_index fc =
     (if max_committed_index \<ge> 0
      then do_committed sm ops max_committed_index (fc\<lparr>cur_task := COMMITTED\<rparr>) else fc)"

text \<open>The tasks of one round. Commits are collected until another task comes or a batch is
  full; the commit that finds the batch full is not collected any more.\<close>

fun run_tasks ::
  "('m, 'c) state_machine \<Rightarrow> 's log_storage_ops \<Rightarrow> nat \<Rightarrow> int \<Rightarrow> nat \<Rightarrow> apply_task list
     \<Rightarrow> ('s, 'c, 'm) fsm_caller \<Rightarrow> ('s, 'c, 'm) fsm_caller" where
  "run_tasks sm ops batch_size max_committed_index counter [] fc =
     (flush_committed sm ops max_committed_index fc)\<lparr>cur_task := IDLE\<rparr>"
| "run_tasks sm ops batch_size max_committed_index counter (t # ts) fc =
     (case t of
        CommittedTask i \<Rightarrow>
          if counter < batch_size
          then if i > max_committed_index
               then run_tasks sm ops batch_size i (counter + 1) ts fc
               else run_tasks sm ops batch_size max_committed_index counter ts fc
          else if max_committed_index \<ge> 0
          then run_tasks sm ops batch_size (-1) 0 ts (flush_committed sm ops max_committed_index fc)
          else run_tasks sm ops batch_size max_committed_index counter ts fc
      | _ \<Rightarrow>
          (let fc' = run_task sm t (flush_committed sm ops max_committed_index fc)
           in if max_committed_index \<ge> 0 then run_tasks sm ops batch_size (-1) 0 ts fc'
              else run_tasks sm ops batch_size max_committed_index counter ts fc'))"

definition fsm_run ::
  "('m, 'c) state_machine \<Rightarrow> 's log_storage_ops \<Rightarrow> nat \<Rightarrow> apply_task list option
     \<Rightarrow> ('s, 'c, 'm) fsm_caller \<Rightarrow> ('s, 'c, 'm) fsm_caller" where
  "fsm_run sm ops batch_size tasks fc =
     (case tasks of None \<Rightarrow> do_shutdown sm fc | Some ts \<Rightarrow> run_tasks sm ops batch_size (-1) 0 ts fc)"

definition applying_index :: "('s, 'c, 'm) fsm_caller \<Rightarrow> int" where
  "applying_index fc = (if cur_task fc \<noteq> COMMITTED then 0 else fc_applying_index fc)"

subsection \<open>What the state machine sees\<close>

text \<open>
  The reference: entry \<open>i\<close> of the log is seen with its own closure, one entry after the other.
\<close>

definition closure_at :: "'c closure_queue \<Rightarrow> int \<Rightarrow> 'c option" where
  "closure_at q i =
     (if cq_first_index q \<le> i \<and> i < cq_first_index q + int (length (cq_queue q))
      then cq_queue q ! nat (i - cq_first_index q) else None)"

definition announced :: "log_entry \<Rightarrow> (configuration \<times> int) option" where
  "announced e = (if le_type e = ENTRY_TYPE_CONFIGURATION \<and> le_old_peers e = None
     then Some (conf_of_vector (the (le_peers e)), le_index e) else None)"

definition entry_effect :: "('m, 'c) state_machine \<Rightarrow> int \<Rightarrow> log_entry \<Rightarrow> 'c option \<Rightarrow> 'm \<Rightarrow> 'm" where
  "entry_effect sm i e c m =
     (if le_type e = ENTRY_TYPE_DATA then snd (sm_on_apply sm i e c m)
      else case announced e of None \<Rightarrow> m | Some (conf, k) \<Rightarrow> sm_on_configuration_committed sm conf k m)"

definition entry_outputs :: "int \<Rightarrow> log_entry \<Rightarrow> 'c option \<Rightarrow> 'c fsm_output list" where
  "entry_outputs i e c =
     (if le_type e = ENTRY_TYPE_DATA then [Applied i e c]
      else (case announced e of None \<Rightarrow> [] | Some (conf, k) \<Rightarrow> [ConfCommitted conf k]) @
           (case c of None \<Rightarrow> [] | Some c \<Rightarrow> [RanClosure c 0]))"

definition apply_log ::
  "('m, 'c) state_machine \<Rightarrow> (int \<Rightarrow> log_entry) \<Rightarrow> (int \<Rightarrow> 'c option) \<Rightarrow> int \<Rightarrow> int \<Rightarrow> 'm \<Rightarrow> 'm" where
  "apply_log sm ent clo lo hi m = fold (\<lambda>i. entry_effect sm i (ent i) (clo i)) [lo + 1..hi] m"

definition log_outputs ::
  "(int \<Rightarrow> log_entry) \<Rightarrow> (int \<Rightarrow> 'c option) \<Rightarrow> int \<Rightarrow> int \<Rightarrow> 'c fsm_output list" where
  "log_outputs ent clo lo hi = concat (map (\<lambda>i. entry_outputs i (ent i) (clo i)) [lo + 1..hi])"

lemma log_next:
  assumes "lo < i"
  shows "apply_log sm ent clo lo i m = entry_effect sm i (ent i) (clo i) (apply_log sm ent clo lo (i - 1) m)"
    and "log_outputs ent clo lo i = log_outputs ent clo lo (i - 1) @ entry_outputs i (ent i) (clo i)"
  using assms by (simp_all add: apply_log_def log_outputs_def upto_rec2)

lemma log_empty [simp]:
  "hi \<le> lo \<Longrightarrow> apply_log sm ent clo lo hi m = m"
  "hi \<le> lo \<Longrightarrow> log_outputs ent clo lo hi = []"
  by (simp_all add: apply_log_def log_outputs_def)

lemma log_split:
  assumes "lo \<le> mid" "mid \<le> hi"
  shows "apply_log sm ent clo lo hi m = apply_log sm ent clo mid hi (apply_log sm ent clo lo mid m)"
    and "log_outputs ent clo lo hi = log_outputs ent clo lo mid @ log_outputs ent clo mid hi"
proof -
  have "[lo + 1..hi] = [lo + 1..mid] @ [mid + 1..hi]"
    using assms upto_split2 [of "lo + 1" mid hi] by (cases "lo = mid") simp_all
  then show "apply_log sm ent clo lo hi m = apply_log sm ent clo mid hi (apply_log sm ent clo lo mid m)"
    and "log_outputs ent clo lo hi = log_outputs ent clo lo mid @ log_outputs ent clo mid hi"
    by (simp_all add: apply_log_def log_outputs_def)
qed

lemma log_cong:
  assumes "\<And>i. lo < i \<Longrightarrow> i \<le> hi \<Longrightarrow> clo i = clo' i"
  shows "apply_log sm ent clo lo hi m = apply_log sm ent clo' lo hi m"
    and "log_outputs ent clo lo hi = log_outputs ent clo' lo hi"
  using assms by (auto simp: apply_log_def log_outputs_def intro!: fold_cong arg_cong [where f = concat])

text \<open>The state machine gives up no entry.\<close>

definition no_rollback :: "('m, 'c) state_machine \<Rightarrow> bool" where
  "no_rollback sm \<longleftrightarrow> (\<forall>i e c m k. fst (sm_on_apply sm i e c m) = Rollback k \<longrightarrow> k = 0)"

definition done_at :: "'c iterator \<Rightarrow> int \<Rightarrow> 'c option" where
  "done_at it j = it_done (it\<lparr>cur_index := j\<rparr>)"

lemma done_at_eq:
  "done_at it j = (if j < it_first_closure_index it then None
     else let k = nat (j - it_first_closure_index it)
          in if k < length (it_closure it) then it_closure it ! k else None)"
  by (simp add: done_at_def it_done_def Let_def)

lemma it_done_at: "it_done it = done_at it (cur_index it)"
  by (simp add: done_at_def)

definition readable :: "'s log_storage_ops \<Rightarrow> 's log_manager \<Rightarrow> (int \<Rightarrow> log_entry) \<Rightarrow> int \<Rightarrow> int \<Rightarrow> bool" where
  "readable ops lm ent lo hi \<longleftrightarrow> (\<forall>i. lo < i \<and> i \<le> hi \<longrightarrow> lm_get_entry ops i lm = (Some (ent i), lm, []))"

text \<open>The iterator stands before entry \<open>i\<close>, and everything from \<open>lo + 1\<close> up to it is done.\<close>

definition at_index ::
  "('m, 'c) state_machine \<Rightarrow> (int \<Rightarrow> log_entry) \<Rightarrow> (int \<Rightarrow> 'c option) \<Rightarrow> ('s, 'c, 'm) fsm_caller \<Rightarrow> int \<Rightarrow> int \<Rightarrow>
     int \<Rightarrow> 'c iterator \<times> ('s, 'c, 'm) fsm_caller \<Rightarrow> bool" where
  "at_index sm ent clo fc lo hi i s \<longleftrightarrow>
     lo < i \<and> i \<le> hi + 1 \<and> cur_index (fst s) = i \<and> it_committed_index (fst s) = hi \<and> it_error (fst s) = None \<and>
     cur_entry (fst s) = (if i \<le> hi then Some (ent i) else None) \<and>
     (\<forall>j. lo < j \<and> j \<le> hi \<longrightarrow> done_at (fst s) j = clo j) \<and>
     (\<exists>k. snd s = fc\<lparr>fc_fsm := apply_log sm ent clo lo (i - 1) (fc_fsm fc),
                    fc_out := fc_out fc @ log_outputs ent clo lo (i - 1), fc_applying_index := k\<rparr>)"

lemma next_at:
  assumes "readable ops (fc_log_manager fc) ent lo hi"
    and "at_index sm ent clo fc lo hi i s" and "i \<le> hi"
    and "fc' = (snd s)\<lparr>fc_fsm := entry_effect sm i (ent i) (clo i) (fc_fsm (snd s)),
                       fc_out := fc_out (snd s) @ entry_outputs i (ent i) (clo i)\<rparr>"
  shows "at_index sm ent clo fc lo hi (i + 1) (it_next ops (fst s) fc')"
proof -
  obtain k where i: "lo < i" "i \<le> hi + 1" "cur_index (fst s) = i" "it_committed_index (fst s) = hi"
      "it_error (fst s) = None" "\<forall>j. lo < j \<and> j \<le> hi \<longrightarrow> done_at (fst s) j = clo j"
    and s: "snd s = fc\<lparr>fc_fsm := apply_log sm ent clo lo (i - 1) (fc_fsm fc),
                    fc_out := fc_out fc @ log_outputs ent clo lo (i - 1), fc_applying_index := k\<rparr>"
    using assms(2) unfolding at_index_def by blast
  have fc': "fc' = fc\<lparr>fc_fsm := apply_log sm ent clo lo i (fc_fsm fc),
                    fc_out := fc_out fc @ log_outputs ent clo lo i, fc_applying_index := k\<rparr>"
    unfolding assms(4) s using i(1) by (simp add: log_next)
  have rd: "lm_get_entry ops (i + 1) (fc_log_manager fc) = (Some (ent (i + 1)), fc_log_manager fc, [])" if "i + 1 \<le> hi"
    using assms(1) i(1) that unfolding readable_def by simp
  have dn: "done_at (fst (it_next ops (fst s) fc')) j = done_at (fst s) j" for j
    by (simp add: done_at_eq Let_def)
  have cur: "cur_index (fst (it_next ops (fst s) fc')) = i + 1" using i(3,4) assms(3) by simp
  show ?thesis
  proof (cases "i + 1 \<le> hi")
    case True
    have "it_next ops (fst s) fc' = ((fst s)\<lparr>cur_index := i + 1, cur_entry := Some (ent (i + 1)), it_error := None\<rparr>,
        fc'\<lparr>fc_applying_index := i + 1\<rparr>)"
      using True i(3-5) rd by (simp add: it_next_def Let_def fc' emit_def)
    then show ?thesis using i True dn unfolding at_index_def by (force simp: fc')
  next
    case False
    have "it_next ops (fst s) fc' = ((fst s)\<lparr>cur_entry := None, cur_index := i + 1\<rparr>, fc')"
      using False i(3-5) assms(3) by (simp add: it_next_def Let_def)
    then show ?thesis using i False assms(3) dn unfolding at_index_def by (auto simp: fc')
  qed
qed

lemma apply_entry_at:
  assumes "at_index sm ent clo fc lo hi i s" and "i \<le> hi" and "le_type (ent i) = ENTRY_TYPE_DATA"
  shows "snd (snd (apply_entry sm s)) = (snd s)\<lparr>fc_fsm := entry_effect sm i (ent i) (clo i) (fc_fsm (snd s)),
                       fc_out := fc_out (snd s) @ entry_outputs i (ent i) (clo i)\<rparr>"
    and "fst (apply_entry sm s) = fst (sm_on_apply sm i (ent i) (clo i) (fc_fsm (snd s)))"
    and "it_valid (fst s)"
  using assms unfolding at_index_def
  by (auto simp: apply_entry_def Let_def case_prod_beta it_done_at entry_effect_def entry_outputs_def emit_def
      it_valid_def is_good_def)

lemma apply_and_move_at:
  assumes "readable ops (fc_log_manager fc) ent lo hi" and "no_rollback sm"
  shows "at_index sm ent clo fc lo hi i s \<Longrightarrow> i \<le> hi \<Longrightarrow> le_type (ent i) = ENTRY_TYPE_DATA \<Longrightarrow>
    \<exists>j. i < j \<and> at_index sm ent clo fc lo hi j (apply_and_move sm ops s)"
proof (induction "nat (hi + 1 - i)" arbitrary: i s rule: less_induct)
  case less
  note at = less(2) and le = less(3) and data = less(4)
  note v = apply_entry_at [OF at le data]
  let ?s = "it_next ops (fst s) (snd (snd (apply_entry sm s)))"
  have nx: "at_index sm ent clo fc lo hi (i + 1) ?s" by (rule next_at [OF assms(1) at le v(1)])
  show ?case
  proof (cases "fst (apply_entry sm s)")
    case GoOn
    have eq: "apply_and_move sm ops s = apply_and_move sm ops ?s"
      using v(3) GoOn by (simp add: apply_and_move_def run_on_apply.simps [of sm ops s] iterator_next_def)
    show ?thesis
    proof (cases "it_valid (fst ?s)")
      case True
      then have "i + 1 \<le> hi" "le_type (ent (i + 1)) = ENTRY_TYPE_DATA"
        using nx by (auto simp: it_valid_def is_good_def at_index_def split: if_splits)
      from less(1) [OF _ nx this] this(1) show ?thesis unfolding eq by force
    next
      case False
      then have "apply_and_move sm ops ?s = ?s"
        by (simp add: apply_and_move_def run_on_apply.simps [of sm ops ?s] iterator_next_def [of ops ?s])
      then show ?thesis using nx unfolding eq by (metis zless_add1_eq)
    qed
  next
    case Return
    then have "apply_and_move sm ops s = ?s"
      using v(3) by (simp add: apply_and_move_def run_on_apply.simps [of sm ops s] iterator_next_def)
    then show ?thesis using nx by (metis zless_add1_eq)
  next
    case (Rollback k)
    then have "k = 0" using assms(2) v(2) unfolding no_rollback_def by metis
    then have "apply_and_move sm ops s = ?s"
      using v(3) Rollback
      by (simp add: apply_and_move_def run_on_apply.simps [of sm ops s] iterator_next_def set_error_and_rollback_def)
    then show ?thesis using nx by (metis zless_add1_eq)
  qed
qed

lemma skip_entry_at:
  assumes "at_index sm ent clo fc lo hi i s" and "i \<le> hi" and "le_type (ent i) \<noteq> ENTRY_TYPE_DATA"
  shows "skip_entry sm (ent i) (fst s) (snd s) = (snd s)\<lparr>fc_fsm := entry_effect sm i (ent i) (clo i) (fc_fsm (snd s)),
                       fc_out := fc_out (snd s) @ entry_outputs i (ent i) (clo i)\<rparr>"
proof -
  have "it_done (fst s) = clo i" using assms(1,2) unfolding at_index_def by (simp add: it_done_at)
  then show ?thesis using assms(3)
    by (simp add: skip_entry_def entry_effect_def entry_outputs_def announced_def Let_def emit_def tell_fsm_def
        split: option.split)
qed

lemma committed_loop_at:
  assumes "readable ops (fc_log_manager fc) ent lo hi" and "no_rollback sm"
  shows "at_index sm ent clo fc lo hi i s \<Longrightarrow> at_index sm ent clo fc lo hi (hi + 1) (committed_loop sm ops s)"
proof (induction "nat (hi + 1 - i)" arbitrary: i s rule: less_induct)
  case less
  note at = less(2)
  show ?case
  proof (cases "i \<le> hi")
    case False
    then have "i = hi + 1" and "\<not> is_good (fst s)" using at by (auto simp: at_index_def is_good_def)
    then show ?thesis using at by (simp add: committed_loop.simps [of sm ops s])
  next
    case True
    then have g: "is_good (fst s)" "cur_entry (fst s) = Some (ent i)" using at by (auto simp: at_index_def is_good_def)
    show ?thesis
    proof (cases "le_type (ent i) = ENTRY_TYPE_DATA")
      case data: True
      obtain j where "i < j" and j: "at_index sm ent clo fc lo hi j (apply_and_move sm ops s)"
        using apply_and_move_at [OF assms at True data] by blast
      with less(1) [OF _ j] True show ?thesis by (simp add: committed_loop.simps [of sm ops s] g data)
    next
      case False
      note nx = next_at [OF assms(1) at True skip_entry_at [OF at True False]]
      from less(1) [OF _ nx] True show ?thesis by (simp add: committed_loop.simps [of sm ops s] g False)
    qed
  qed
qed

text \<open>The closures of a queue that covers a committed index are popped up to it.\<close>

definition covers :: "'c closure_queue \<Rightarrow> int \<Rightarrow> bool" where
  "covers q hi \<longleftrightarrow> cq_queue q = [] \<or> hi < cq_first_index q + int (length (cq_queue q))"

lemma pop_covered:
  assumes "covers q hi"
  obtains out f q' where "cq_pop_closure_until hi q = (0, out, Some f, q')"
    and "\<And>j. j \<le> hi \<Longrightarrow> (if j < f then None else let k = nat (j - f) in if k < length out then out ! k else None)
            = closure_at q j"
    and "\<And>j. hi < j \<Longrightarrow> closure_at q' j = closure_at q j"
    and "\<And>j. hi \<le> j \<Longrightarrow> covers q j \<Longrightarrow> covers q' j"
proof (cases "cq_queue q = [] \<or> hi < cq_first_index q")
  case True
  then show ?thesis by (intro that [of "[]" "hi + 1" q]) (auto simp: cq_pop_closure_until_def closure_at_def)
next
  case False
  let ?n = "nat (hi - cq_first_index q + 1)"
  have n: "?n \<le> length (cq_queue q)" using assms False by (auto simp: covers_def)
  show ?thesis
  proof (rule that [of "take ?n (cq_queue q)" "cq_first_index q"
        "q\<lparr>cq_queue := drop ?n (cq_queue q), cq_first_index := hi + 1\<rparr>"], goal_cases)
    case 1
    show ?case using False assms
      by (auto simp: cq_pop_closure_until_def pop_front_n_eq Let_def covers_def)
  next
    case (2 j)
    then show ?case using False n by (auto simp: closure_at_def Let_def)
  next
    case (3 j)
    then have "nat (j - cq_first_index q) = ?n + nat (j - (hi + 1))" using False by arith
    then show ?case using False n 3 by (auto simp: closure_at_def)
  next
    case (4 j)
    then show ?case using False n by (auto simp: covers_def)
  qed
qed

lemma do_committed_applies:
  assumes "error_ok fc" and "last_applied_index fc < hi" and "no_rollback sm"
    and rd: "readable ops (fc_log_manager fc) ent (last_applied_index fc) hi"
    and "covers (fc_closure_queue fc) hi"
  obtains k q' where
    "do_committed sm ops hi fc = fc\<lparr>fc_closure_queue := q',
        fc_fsm := apply_log sm ent (closure_at (fc_closure_queue fc)) (last_applied_index fc) hi (fc_fsm fc),
        fc_out := fc_out fc @ log_outputs ent (closure_at (fc_closure_queue fc)) (last_applied_index fc) hi,
        fc_applying_index := k, last_applied_index := hi,
        last_applied_term := lm_get_term ops hi (fc_log_manager fc),
        fc_log_manager := set_applied_id (LogId hi (lm_get_term ops hi (fc_log_manager fc))) (fc_log_manager fc)\<rparr>"
    and "\<And>j. hi < j \<Longrightarrow> closure_at q' j = closure_at (fc_closure_queue fc) j"
    and "\<And>j. hi \<le> j \<Longrightarrow> covers (fc_closure_queue fc) j \<Longrightarrow> covers q' j"
proof -
  let ?lo = "last_applied_index fc" and ?clo = "closure_at (fc_closure_queue fc)"
  obtain out f q' where pop: "cq_pop_closure_until hi (fc_closure_queue fc) = (0, out, Some f, q')"
    and cl: "\<And>j. j \<le> hi \<Longrightarrow>
        (if j < f then None else let k = nat (j - f) in if k < length out then out ! k else None) = ?clo j"
    and q': "\<And>j. hi < j \<Longrightarrow> closure_at q' j = ?clo j"
      "\<And>j. hi \<le> j \<Longrightarrow> covers (fc_closure_queue fc) j \<Longrightarrow> covers q' j"
    by (rule pop_covered [OF assms(5)], rule that) blast+
  define fc1 where "fc1 = fc\<lparr>fc_closure_queue := q'\<rparr>"
  define it where "it = \<lparr>it_closure = out, it_first_closure_index = f, cur_index = ?lo, it_committed_index = hi,
      cur_entry = None, it_error = None\<rparr>"
  have rd1: "readable ops (fc_log_manager fc1) ent ?lo hi" using rd by (simp add: fc1_def)
  have "lm_get_entry ops (?lo + 1) (fc_log_manager fc) = (Some (ent (?lo + 1)), fc_log_manager fc, [])"
    using rd assms(2) unfolding readable_def by simp
  then have "it_next ops it fc1 = (it\<lparr>cur_index := ?lo + 1, cur_entry := Some (ent (?lo + 1))\<rparr>,
      fc1\<lparr>fc_applying_index := ?lo + 1\<rparr>)"
    using assms(2) by (simp add: it_next_def Let_def emit_def it_def fc1_def)
  moreover have "done_at (it\<lparr>cur_index := ?lo + 1, cur_entry := Some (ent (?lo + 1))\<rparr>) j = ?clo j" if "j \<le> hi" for j
    unfolding cl [OF that, symmetric] by (simp add: done_at_eq it_def Let_def)
  moreover have "it_committed_index it = hi" "it_error it = None" by (simp_all add: it_def)
  ultimately have "at_index sm ent ?clo fc1 ?lo hi (?lo + 1) (it_next ops it fc1)"
    using assms(2) by (force simp: at_index_def)
  from committed_loop_at [OF rd1 assms(3) this]
  have at: "at_index sm ent ?clo fc1 ?lo hi (hi + 1) (committed_loop sm ops (it_next ops it fc1))" .
  then obtain k where
    fc2: "snd (committed_loop sm ops (it_next ops it fc1)) =
      fc1\<lparr>fc_fsm := apply_log sm ent ?clo ?lo hi (fc_fsm fc),
          fc_out := fc_out fc @ log_outputs ent ?clo ?lo hi, fc_applying_index := k\<rparr>"
    unfolding at_index_def by (auto simp: fc1_def)
  have it2: "it_error (fst (committed_loop sm ops (it_next ops it fc1))) = None"
    "cur_index (fst (committed_loop sm ops (it_next ops it fc1))) = hi + 1"
    using at by (auto simp: at_index_def)
  have "do_committed sm ops hi fc = (let (it, fc) = committed_loop sm ops (it_next ops it fc1);
                 fc = (case it_error it of None \<Rightarrow> fc
                       | Some e \<Rightarrow> run_the_rest_closure_with_error it (set_error sm e fc));
                 last_index = cur_index it - 1;
                 last_term = lm_get_term ops last_index (fc_log_manager fc)
             in fc\<lparr>last_applied_index := hi, last_applied_term := last_term,
                   fc_log_manager := set_applied_id (LogId last_index last_term) (fc_log_manager fc)\<rparr>)"
    using assms(1,2) unfolding do_committed_def pop by (simp add: fc1_def it_def Let_def)
  then show ?thesis using it2 fc2 q'
    by (intro that [of k q']) (simp_all add: Let_def case_prod_beta fc1_def)
qed

end
