(* ===== verification/Raft_Log_Manager_Spec.thy ===== *)
theory Raft_Log_Manager_Spec
  imports Raft_Log_Manager
begin

text \<open>
  What the log manager promises. Its abstract state is one list of consecutive entries;
  \<open>lm_rep\<close> says how the entries in memory, the storage and the closures still in the disk
  queue represent that list. The client lemmas are proved for every storage that keeps the
  contract \<open>log_storage\<close>, and the properties are their instances for the memory log.
\<close>

subsection \<open>The abstract log\<close>

text \<open>
  The rule of the Raft paper for entries of a leader, from position \<open>k\<close> of the log on: an
  entry with another term than the local one replaces it and everything behind it, new
  entries are appended, and entries that are there already change nothing.
\<close>

fun merge_log :: "log_entry list \<Rightarrow> nat \<Rightarrow> log_entry list \<Rightarrow> log_entry list" where
  "merge_log L k [] = L"
| "merge_log L k (e # es) =
     (if k < length L \<and> le_term (L ! k) = le_term e then merge_log L (Suc k) es
      else take k L @ e # es)"

text \<open>The closures as operations on a log, given as its first index and its entries. \<open>None\<close>
  is a call outside of the contract of a storage.\<close>

fun abs_apply :: "stable_closure \<Rightarrow> int \<times> log_entry list \<Rightarrow> (int \<times> log_entry list) option" where
  "abs_apply (AppendClosure d f es) (a, l) =
     (if consecutive (a + int (length l)) es then Some (a, l @ es) else None)"
| "abs_apply (LastLogIdClosure c) (a, l) = Some (a, l)"
| "abs_apply (TruncatePrefixClosure k) (a, l) =
     (if a \<le> k then Some (k, drop (nat (k - a)) l) else None)"
| "abs_apply (TruncateSuffixClosure k t) (a, l) =
     (if a - 1 \<le> k \<and> k < a + int (length l) then Some (a, take (nat (k + 1 - a)) l) else None)"
| "abs_apply (ResetClosure n) (a, l) = (if 0 < n then Some (n, []) else None)"

primrec abs_run :: "stable_closure list \<Rightarrow> int \<times> log_entry list \<Rightarrow> (int \<times> log_entry list) option" where
  "abs_run [] a = Some a"
| "abs_run (c # q) a = (case abs_apply c a of None \<Rightarrow> None | Some b \<Rightarrow> abs_run q b)"

lemma abs_run_append:
  "abs_run (q @ r) a = (case abs_run q a of None \<Rightarrow> None | Some b \<Rightarrow> abs_run r b)"
  by (induction q arbitrary: a) (auto split: option.split)

text \<open>Whether a closure leaves the stored entry at an index alone.\<close>

fun keeps_index :: "stable_closure \<Rightarrow> int \<Rightarrow> bool" where
  "keeps_index (TruncatePrefixClosure k) i = (k \<le> i)"
| "keeps_index (TruncateSuffixClosure k t) i = (i \<le> k)"
| "keeps_index (ResetClosure n) i = False"
| "keeps_index _ i = True"

subsection \<open>Representation\<close>

text \<open>The ids of the snapshots agree with the log and lie where \<open>check_consistency\<close> wants them.\<close>

definition snapshot_ids_ok :: "'s log_manager \<Rightarrow> log_entry list \<Rightarrow> bool" where
  "snapshot_ids_ok lm L \<longleftrightarrow>
     0 \<le> index (virtual_first_log_id lm) \<and>
     index (virtual_first_log_id lm) \<le> index (last_snapshot_id lm) \<and>
     index (last_snapshot_id lm) \<le> index (applied_id lm) \<and>
     (if last_snapshot_id lm = LogId 0 0 then first_log_index lm = 1
      else 0 < index (last_snapshot_id lm) \<and> first_log_index lm - 1 \<le> index (last_snapshot_id lm) \<and>
        index (last_snapshot_id lm) \<le> last_log_index lm) \<and>
     (\<forall>s \<in> {virtual_first_log_id lm, last_snapshot_id lm}.
        first_log_index lm \<le> index s \<and> index s \<le> last_log_index lm \<longrightarrow>
          le_term (L ! nat (index s - first_log_index lm)) = log_term s)"

text \<open>The entry at an index is in the storage and no closure in the queue will touch it.\<close>

definition stable_at :: "'s log_storage_ops \<Rightarrow> 's log_manager \<Rightarrow> int \<Rightarrow> log_entry \<Rightarrow> bool" where
  "stable_at ops lm i e \<longleftrightarrow>
     ls_get_entry ops i (log_storage_st lm) = Some e \<and> (\<forall>c \<in> set (disk_queue lm). keeps_index c i)"

definition lm_rep ::
  "'s log_storage_ops \<Rightarrow> ('s \<Rightarrow> bool) \<Rightarrow> ('s \<Rightarrow> int) \<Rightarrow> ('s \<Rightarrow> log_entry list)
     \<Rightarrow> 's log_manager \<Rightarrow> log_entry list \<Rightarrow> bool" where
  "lm_rep ops swf sfirst sents lm L \<longleftrightarrow>
     swf (log_storage_st lm) \<and>
     0 < first_log_index lm \<and> consecutive (first_log_index lm) L \<and>
     last_log_index lm = first_log_index lm + int (length L) - 1 \<and>
     (\<forall>e \<in> set L. 0 < le_term e) \<and>
     length (logs_in_memory lm) \<le> length L \<and>
     drop (length L - length (logs_in_memory lm)) L = logs_in_memory lm \<and>
     (\<forall>j < length L - length (logs_in_memory lm).
        stable_at ops lm (first_log_index lm + int j) (L ! j)) \<and>
     abs_run (disk_queue lm) (sfirst (log_storage_st lm), sents (log_storage_st lm)) =
       Some (first_log_index lm, L) \<and>
     snapshot_ids_ok lm L"

lemma consecutive_drop_start:
  assumes "consecutive i L" and "n \<le> length L"
  shows "consecutive (i + int n) (drop n L)"
  using consecutive_drop [OF assms(1), of n] assms(2) by (simp add: min_def)

subsection \<open>Lookups\<close>

context log_storage
begin

lemma rep_get_entry_from_memory:
  assumes "lm_rep ops wf first ents lm L"
  shows "get_entry_from_memory i lm =
    (if last_log_index lm - int (length (logs_in_memory lm)) < i \<and> i \<le> last_log_index lm
     then Some (L ! nat (i - first_log_index lm)) else None)"
proof (cases "logs_in_memory lm = []")
  case False
  let ?m = "logs_in_memory lm"
  let ?n = "length L - length ?m"
  have m: "drop ?n L = ?m" and le: "length ?m \<le> length L"
    and con: "consecutive (first_log_index lm) L"
    and last: "last_log_index lm = first_log_index lm + int (length L) - 1"
    using assms by (auto simp: lm_rep_def)
  have con': "consecutive (first_log_index lm + int ?n) ?m"
    using consecutive_drop_start [OF con, of ?n] m by simp
  have "le_index (hd ?m) = first_log_index lm + int ?n"
    and "le_index (List.last ?m) = first_log_index lm + int ?n + int (length ?m) - 1"
    using consecutive_hd [OF con' False] consecutive_last [OF con' False] by simp_all
  moreover have "?m ! nat (i - (first_log_index lm + int ?n)) = L ! nat (i - first_log_index lm)"
    if "first_log_index lm + int ?n \<le> i" "i < first_log_index lm + int (length L)"
  proof -
    have "?n + nat (i - (first_log_index lm + int ?n)) = nat (i - first_log_index lm)"
      using that by simp
    then show ?thesis by (subst m [symmetric]) simp
  qed
  ultimately show ?thesis using False le last
    by (auto simp: get_entry_from_memory_def deque_at_def)
qed (simp add: get_entry_from_memory_def)

lemma rep_storage_entry:
  assumes "lm_rep ops wf first ents lm L"
    and "first_log_index lm \<le> i" and "i \<le> last_log_index lm - int (length (logs_in_memory lm))"
  shows "ls_get_entry ops i (log_storage_st lm) = Some (L ! nat (i - first_log_index lm))"
proof -
  let ?j = "nat (i - first_log_index lm)"
  have "?j < length L - length (logs_in_memory lm)" and "first_log_index lm + int ?j = i"
    using assms by (auto simp: lm_rep_def)
  with assms(1) show ?thesis unfolding lm_rep_def stable_at_def by metis
qed

lemma rep_get_entry:
  assumes "lm_rep ops wf first ents lm L"
  shows "lm_get_entry ops i lm =
    (if first_log_index lm \<le> i \<and> i \<le> last_log_index lm
     then Some (L ! nat (i - first_log_index lm)) else None, lm, [])"
  using rep_storage_entry [OF assms, of i]
  by (auto simp: lm_get_entry_def rep_get_entry_from_memory [OF assms])

lemma rep_get_term_inside:
  assumes "lm_rep ops wf first ents lm L"
    and "first_log_index lm \<le> i" and "i \<le> last_log_index lm"
  shows "unsafe_get_term ops i lm = le_term (L ! nat (i - first_log_index lm))"
proof -
  have "wf (log_storage_st lm)" "i \<noteq> 0" "snapshot_ids_ok lm L"
    using assms by (auto simp: lm_rep_def)
  with assms show ?thesis
    using rep_storage_entry [OF assms(1), of i]
    by (auto simp: unsafe_get_term_def rep_get_entry_from_memory snapshot_ids_ok_def get_term)
qed

lemma rep_get_term_above:
  assumes "lm_rep ops wf first ents lm L" and "last_log_index lm < i"
  shows "unsafe_get_term ops i lm = 0"
proof -
  have "0 < first_log_index lm" "first_log_index lm \<le> last_log_index lm + 1" "snapshot_ids_ok lm L"
    using assms(1) by (auto simp: lm_rep_def)
  with assms(2) show ?thesis
    by (auto simp: unsafe_get_term_def snapshot_ids_ok_def split: if_splits)
qed

lemma rep_get_term_eq: "lm_get_term ops i lm = unsafe_get_term ops i lm"
  by (simp add: lm_get_term_def unsafe_get_term_def)

end

subsection \<open>Extending and cutting the represented log\<close>

lemma snapshot_ids_range:
  assumes "snapshot_ids_ok lm L" and "0 < first_log_index lm"
    and "s \<in> {virtual_first_log_id lm, last_snapshot_id lm}" and "first_log_index lm \<le> index s"
  shows "index s \<le> last_log_index lm"
  using assms by (auto simp: snapshot_ids_ok_def split: if_splits)

text \<open>The fields that the representation does not read.\<close>

lemma snapshot_ids_ok_frame [simp]:
  "snapshot_ids_ok (lm\<lparr>config_manager := cm\<rparr>) L = snapshot_ids_ok lm L"
  "snapshot_ids_ok (lm\<lparr>wait_map := w\<rparr>) L = snapshot_ids_ok lm L"
  "snapshot_ids_ok (lm\<lparr>disk_queue := q\<rparr>) L = snapshot_ids_ok lm L"
  "snapshot_ids_ok (lm\<lparr>logs_in_memory := m\<rparr>) L = snapshot_ids_ok lm L"
  "snapshot_ids_ok (lm\<lparr>log_storage_st := st\<rparr>) L = snapshot_ids_ok lm L"
  "snapshot_ids_ok (lm\<lparr>disk_id := i\<rparr>) L = snapshot_ids_ok lm L"
  "snapshot_ids_ok (lm\<lparr>next_wait_id := n\<rparr>) L = snapshot_ids_ok lm L"
  "snapshot_ids_ok (lm\<lparr>lm_stopped := b\<rparr>) L = snapshot_ids_ok lm L"
  by (simp_all add: snapshot_ids_ok_def)

lemma lm_rep_frame [simp]:
  "lm_rep ops swf sf se (lm\<lparr>config_manager := cm\<rparr>) L = lm_rep ops swf sf se lm L"
  "lm_rep ops swf sf se (lm\<lparr>wait_map := w\<rparr>) L = lm_rep ops swf sf se lm L"
  "lm_rep ops swf sf se (lm\<lparr>disk_id := i\<rparr>) L = lm_rep ops swf sf se lm L"
  "lm_rep ops swf sf se (lm\<lparr>next_wait_id := n\<rparr>) L = lm_rep ops swf sf se lm L"
  "lm_rep ops swf sf se (lm\<lparr>lm_stopped := b\<rparr>) L = lm_rep ops swf sf se lm L"
  by (simp_all add: lm_rep_def stable_at_def)

lemma foldl_add_configuration:
  "\<exists>cm. foldl add_configuration lm es = lm\<lparr>config_manager := cm\<rparr>"
proof (induction es arbitrary: lm)
  case Nil
  show ?case by (rule exI [of _ "config_manager lm"]) simp
next
  case (Cons e es)
  have "\<exists>cm. add_configuration lm e = lm\<lparr>config_manager := cm\<rparr>"
    by (cases "le_type e = ENTRY_TYPE_CONFIGURATION")
      (auto simp: add_configuration_def intro: exI [of _ "config_manager lm"])
  then obtain cm where "add_configuration lm e = lm\<lparr>config_manager := cm\<rparr>" by blast
  with Cons.IH [of "lm\<lparr>config_manager := cm\<rparr>"] show ?case by auto
qed

lemma enqueue_entries_eq:
  "\<exists>cm f. fst (enqueue_entries d es lm) =
    lm\<lparr>logs_in_memory := logs_in_memory lm @ es,
       disk_queue := disk_queue lm @ [AppendClosure d f es], config_manager := cm, wait_map := []\<rparr>"
proof -
  obtain cm where "foldl add_configuration lm es = lm\<lparr>config_manager := cm\<rparr>"
    using foldl_add_configuration by blast
  then have "fst (enqueue_entries d es lm) =
    lm\<lparr>logs_in_memory := logs_in_memory lm @ es,
       disk_queue := disk_queue lm @ [AppendClosure d (if es \<noteq> [] then le_index (hd es) else 0) es],
       config_manager := cm, wait_map := []\<rparr>"
    by (simp add: enqueue_entries_def wakeup_all_waiter_def Let_def)
  then show ?thesis by blast
qed

context log_storage
begin

lemma rep_extend:
  assumes rep: "lm_rep ops wf first ents lm L"
    and con: "consecutive (last_log_index lm + 1) es" and pos: "\<forall>e \<in> set es. 0 < le_term e"
  shows "lm_rep ops wf first ents
    (lm\<lparr>last_log_index := last_log_index lm + int (length es),
        logs_in_memory := logs_in_memory lm @ es,
        disk_queue := disk_queue lm @ [AppendClosure d f es]\<rparr>) (L @ es)"
proof -
  have "snapshot_ids_ok (lm\<lparr>last_log_index := last_log_index lm + int (length es)\<rparr>) (L @ es)"
  proof -
    have ids: "snapshot_ids_ok lm L" and "0 < first_log_index lm"
      and last: "last_log_index lm = first_log_index lm + int (length L) - 1"
      using rep by (auto simp: lm_rep_def)
    then have "index s \<le> last_log_index lm" "nat (index s - first_log_index lm) < length L"
      if "s \<in> {virtual_first_log_id lm, last_snapshot_id lm}" "first_log_index lm \<le> index s" for s
      using snapshot_ids_range [of lm L s] that last by auto
    with ids show ?thesis by (auto simp: snapshot_ids_ok_def nth_append)
  qed
  moreover have "consecutive (first_log_index lm + int (length L)) es"
    using rep con by (simp add: lm_rep_def algebra_simps)
  ultimately show ?thesis
    using rep pos by (auto simp: lm_rep_def stable_at_def nth_append abs_run_append)
qed

lemma rep_cut:
  assumes rep: "lm_rep ops wf first ents lm L"
    and k: "first_log_index lm - 1 \<le> k" "k \<le> last_log_index lm" "index (applied_id lm) \<le> k"
  shows "lm_rep ops wf first ents (unsafe_truncate_suffix ops k lm)
    (take (nat (k + 1 - first_log_index lm)) L)"
proof -
  let ?m = "nat (k + 1 - first_log_index lm)" and ?mem = "logs_in_memory lm"
  let ?n = "length L - length ?mem"
  have con: "consecutive (first_log_index lm) L" and le: "length ?mem \<le> length L"
    and mem: "drop ?n L = ?mem" and m: "?m \<le> length L" "int ?m = k + 1 - first_log_index lm"
    using rep k by (auto simp: lm_rep_def)
  have "consecutive (first_log_index lm + int ?n) ?mem"
    using consecutive_drop_start [OF con, of ?n] mem by simp
  then have "rev (dropWhile (\<lambda>e. le_index e > k) (rev ?mem)) = take (?m - ?n) ?mem"
    by (simp add: consecutive_dropWhile_greater) (rule arg_cong2 [where f = take], linarith, simp)
  then have mem': "rev (dropWhile (\<lambda>e. le_index e > k) (rev ?mem)) = drop ?n (take ?m L)"
    by (simp add: drop_take mem)
  have ids: "snapshot_ids_ok (lm\<lparr>last_log_index := k\<rparr>) (take ?m L)"
    using rep k by (auto simp: lm_rep_def snapshot_ids_ok_def nat_less_iff split: if_splits)
  have run: "abs_run (disk_queue lm) (first (log_storage_st lm), ents (log_storage_st lm)) =
    Some (first_log_index lm, L)" using rep by (simp add: lm_rep_def)
  have st: "stable_at ops lm (first_log_index lm + int j) (L ! j)" if "j < ?n" for j
    using rep that by (simp add: lm_rep_def)
  have drops: "drop ?n (take ?m L) = drop (?m - (?m - ?n)) (take ?m L)" using m(1) by (cases "?n \<le> ?m") auto
  have stable: "ls_get_entry ops (first_log_index lm + int j) (log_storage_st lm) = Some (L ! j) \<and>
      (\<forall>c \<in> set (disk_queue lm). keeps_index c (first_log_index lm + int j)) \<and> first_log_index lm + int j \<le> k"
    if "j < ?m - (?m - ?n)" for j
    using st [of j] that m by (auto simp: stable_at_def)
  have "wf (log_storage_st lm)" "0 < first_log_index lm" "\<forall>e \<in> set (take ?m L). 0 < le_term e"
    using rep by (auto simp: lm_rep_def dest: in_set_takeD)
  moreover define t where "t = unsafe_get_term ops k
      (lm\<lparr>logs_in_memory := drop ?n (take ?m L), last_log_index := k\<rparr>)"
  then have eq: "unsafe_truncate_suffix ops k lm =
      lm\<lparr>last_log_index := k, logs_in_memory := drop ?n (take ?m L),
         config_manager := cm_truncate_suffix k (config_manager lm),
         disk_queue := disk_queue lm @ [TruncateSuffixClosure k t]\<rparr>"
    using k(3) by (simp add: unsafe_truncate_suffix_def Let_def mem')
  moreover have "consecutive (first_log_index lm) (take ?m L)" using con by (rule consecutive_take)
  moreover have "k = first_log_index lm + int (length (take ?m L)) - 1" using m by simp
  moreover have "abs_run (disk_queue lm @ [TruncateSuffixClosure k t])
      (first (log_storage_st lm), ents (log_storage_st lm)) = Some (first_log_index lm, take ?m L)"
    using run k(1) m linorder_not_less by (auto simp: abs_run_append split: if_splits)
  moreover have "length (take ?m L) - length (drop ?n (take ?m L)) = ?m - (?m - ?n)" using m by simp
  ultimately show ?thesis unfolding eq lm_rep_def stable_at_def
    using ids drops stable m by (auto simp del: drop_take)
qed

end

subsection \<open>Appending\<close>

text \<open>How the conflict search of the code and the merge rule see the same position.\<close>

lemma merge_log_split:
  assumes "\<forall>j < ci. k + j < length L \<and> le_term (L ! (k + j)) = le_term (es ! j)"
    and "ci \<le> length es"
    and "ci < length es \<Longrightarrow> \<not> (k + ci < length L \<and> le_term (L ! (k + ci)) = le_term (es ! ci))"
  shows "merge_log L k es = (if ci = length es then L else take (k + ci) L @ drop ci es)"
  using assms
proof (induction es arbitrary: k ci)
  case (Cons e es)
  show ?case
  proof (cases ci)
    case 0
    with Cons.prems show ?thesis by auto
  next
    case (Suc c)
    from Cons.prems(1) Suc have "k < length L \<and> le_term (L ! k) = le_term e" by force
    moreover have "\<forall>j < c. Suc k + j < length L \<and> le_term (L ! (Suc k + j)) = le_term (es ! j)"
      using Cons.prems(1) Suc by force
    ultimately show ?thesis using Cons.IH [of c "Suc k"] Cons.prems Suc by simp
  qed
qed simp

lemma conflicting_index_le: "conflicting_index ops lm es \<le> length es"
  by (induction es) auto

lemma conflicting_index_matches:
  "j < conflicting_index ops lm es \<Longrightarrow> unsafe_get_term ops (le_index (es ! j)) lm = le_term (es ! j)"
proof (induction es arbitrary: j)
  case (Cons e es)
  then show ?case by (cases j) (auto split: if_splits)
qed simp

lemma conflicting_index_mismatch:
  "conflicting_index ops lm es < length es \<Longrightarrow>
   unsafe_get_term ops (le_index (es ! conflicting_index ops lm es)) lm
     \<noteq> le_term (es ! conflicting_index ops lm es)"
  by (induction es) auto

lemma foldl_assign_index:
  "foldl assign_index (lm, out) es =
    (lm\<lparr>last_log_index := last_log_index lm + int (length es)\<rparr>,
     out @ map (\<lambda>(i, e). e\<lparr>le_id := LogId i (le_term e)\<rparr>)
       (zip (map (\<lambda>j. last_log_index lm + 1 + int j) [0..<length es]) es))"
proof (induction es arbitrary: lm out)
  case (Cons e es)
  have "map (\<lambda>j. last_log_index lm + 1 + int j) [0..<Suc (length es)] =
    (last_log_index lm + 1) # map (\<lambda>j. last_log_index lm + 1 + 1 + int j) [0..<length es]"
    by (simp add: upt_conv_Cons map_Suc_upt [symmetric] del: upt_Suc)
  moreover have "assign_index (lm, out) e = (lm\<lparr>last_log_index := last_log_index lm + 1\<rparr>,
    out @ [e\<lparr>le_id := LogId (last_log_index lm + 1) (le_term e)\<rparr>])"
    by (simp add: assign_index_def)
  ultimately show ?case by (simp add: Cons.IH del: upt_Suc)
qed simp

text \<open>The entries of a leader's user after they got their indexes.\<close>

definition with_indexes :: "int \<Rightarrow> log_entry list \<Rightarrow> log_entry list" where
  "with_indexes i es = map (\<lambda>(i, e). e\<lparr>le_id := LogId i (le_term e)\<rparr>)
     (zip (map (\<lambda>j. i + int j) [0..<length es]) es)"

lemma nth_with_indexes:
  "j < length es \<Longrightarrow> with_indexes i es ! j = (es ! j)\<lparr>le_id := LogId (i + int j) (le_term (es ! j))\<rparr>"
  by (simp add: with_indexes_def)

lemma length_with_indexes [simp]: "length (with_indexes i es) = length es"
  by (simp add: with_indexes_def)

lemma consecutiveI: "(\<And>j. j < length es \<Longrightarrow> le_index (es ! j) = i + int j) \<Longrightarrow> consecutive i es"
proof (induction es arbitrary: i)
  case (Cons e es)
  have "le_index (es ! j) = i + 1 + int j" if "j < length es" for j
    using Cons.prems [of "Suc j"] that by simp
  with Cons.IH [of "i + 1"] Cons.prems [of 0] show ?case by simp
qed simp

lemma consecutive_with_indexes: "consecutive i (with_indexes i es)"
  by (rule consecutiveI) (simp add: nth_with_indexes)

lemma with_indexes_terms:
  "(\<forall>e \<in> set (with_indexes i es). 0 < le_term e) \<longleftrightarrow> (\<forall>e \<in> set es. 0 < le_term e)"
  by (simp add: all_set_conv_all_nth nth_with_indexes)

context log_storage
begin

lemma rep_merge:
  assumes rep: "lm_rep ops wf first ents lm L"
    and con: "consecutive h es" and h: "first_log_index lm \<le> h" "h \<le> last_log_index lm + 1"
    and pos: "\<forall>e \<in> set es. 0 < le_term e"
  shows "merge_log L (nat (h - first_log_index lm)) es =
    (let ci = conflicting_index ops lm es
     in if ci = length es then L
        else take (nat (h + int ci - first_log_index lm)) L @ drop ci es) \<and>
    (conflicting_index ops lm es < length es \<longrightarrow> h + int (conflicting_index ops lm es) \<le> last_log_index lm + 1)"
proof -
  let ?ci = "conflicting_index ops lm es" and ?k = "nat (h - first_log_index lm)"
  have last: "last_log_index lm = first_log_index lm + int (length L) - 1"
    using rep by (simp add: lm_rep_def)
  have idx: "le_index (es ! j) = h + int j" if "j < length es" for j
    using consecutive_nth [OF con that] .
  have nth: "?k + j = nat (h + int j - first_log_index lm)" for j using h by simp
  have inside: "?k + j < length L \<longleftrightarrow> h + int j \<le> last_log_index lm" for j using h last by auto
  have get: "unsafe_get_term ops (h + int j) lm =
      (if ?k + j < length L then le_term (L ! (?k + j)) else 0)" for j
    using rep_get_term_inside [OF rep, of "h + int j"] rep_get_term_above [OF rep, of "h + int j"]
      inside [of j] h nth [of j] by auto
  have match: "?k + j < length L \<and> le_term (L ! (?k + j)) = le_term (es ! j)" if "j < ?ci" for j
  proof -
    have "j < length es" using that conflicting_index_le [of ops lm es] by simp
    then show ?thesis
      using conflicting_index_matches [OF that] get [of j] idx [of j] pos nth_mem [of j es]
      by (fastforce split: if_splits)
  qed
  have mismatch: "\<not> (?k + ?ci < length L \<and> le_term (L ! (?k + ?ci)) = le_term (es ! ?ci))"
    if "?ci < length es"
    using conflicting_index_mismatch [OF that] get [of ?ci] idx [OF that] by auto
  have "h + int ?ci \<le> last_log_index lm + 1"
  proof (cases ?ci)
    case 0
    with h show ?thesis by simp
  next
    case (Suc c)
    with match [of c] inside [of c] show ?thesis by simp
  qed
  with merge_log_split [of ?ci ?k L es] match mismatch conflicting_index_le [of ops lm es] nth [of ?ci]
  show ?thesis by (simp add: Let_def)
qed

lemma rep_enqueue:
  assumes rep: "lm_rep ops wf first ents lm L"
    and con: "consecutive (last_log_index lm + 1) es" and pos: "\<forall>e \<in> set es. 0 < le_term e"
    and i: "i = last_log_index lm + int (length es)"
  shows "lm_rep ops wf first ents (fst (enqueue_entries d es (lm\<lparr>last_log_index := i\<rparr>))) (L @ es)"
proof -
  obtain cm f where "fst (enqueue_entries d es (lm\<lparr>last_log_index := i\<rparr>)) =
    lm\<lparr>last_log_index := i, logs_in_memory := logs_in_memory lm @ es,
       disk_queue := disk_queue lm @ [AppendClosure d f es], config_manager := cm, wait_map := []\<rparr>"
    using enqueue_entries_eq [of d es "lm\<lparr>last_log_index := i\<rparr>"] by auto
  with rep_extend [OF rep con pos, of d f] i show ?thesis by simp
qed

lemma rep_append_leader:
  assumes rep: "lm_rep ops wf first ents lm L" and "\<not> has_error lm"
    and "es \<noteq> []" and "le_index (hd es) = 0" and "\<forall>e \<in> set es. 0 < le_term e"
  shows "lm_rep ops wf first ents (fst (lm_append_entries ops d es lm))
    (L @ with_indexes (last_log_index lm + 1) es)"
proof -
  let ?es = "with_indexes (last_log_index lm + 1) es"
  have "fst (lm_append_entries ops d es lm) =
      fst (enqueue_entries d ?es (lm\<lparr>last_log_index := last_log_index lm + int (length es)\<rparr>))"
    using assms by (simp add: lm_append_entries_def check_and_resolve_conflict_def
        foldl_assign_index with_indexes_def Let_def)
  with assms(5) show ?thesis
    by (simp add: rep_enqueue [OF rep] consecutive_with_indexes with_indexes_terms)
qed

lemma rep_append_follower:
  assumes rep: "lm_rep ops wf first ents lm L" and ok: "\<not> has_error lm"
    and es: "es \<noteq> []" "consecutive h es" "\<forall>e \<in> set es. 0 < le_term e"
    and h: "first_log_index lm \<le> h" "h \<le> last_log_index lm + 1"
    and new: "index (applied_id lm) < le_index (last es)"
    and agree: "\<forall>e \<in> set es. le_index e \<le> index (applied_id lm) \<longrightarrow>
      unsafe_get_term ops (le_index e) lm = le_term e"
  shows "lm_rep ops wf first ents (fst (lm_append_entries ops d es lm))
    (merge_log L (nat (h - first_log_index lm)) es)"
proof -
  let ?ci = "conflicting_index ops lm es"
  have hd: "le_index (hd es) = h" and last: "le_index (last es) = h + int (length es) - 1"
    using consecutive_hd [OF es(2,1)] consecutive_last [OF es(2,1)] by auto
  have L: "last_log_index lm = first_log_index lm + int (length L) - 1" and "0 < first_log_index lm"
    using rep by (auto simp: lm_rep_def)
  note merge = rep_merge [OF rep es(2) h es(3)]
  show ?thesis
  proof (cases "h = last_log_index lm + 1")
    case True
    then have "fst (lm_append_entries ops d es lm) =
        fst (enqueue_entries d es (lm\<lparr>last_log_index := le_index (last es)\<rparr>))"
      using ok es hd h new \<open>0 < first_log_index lm\<close>
      by (simp add: lm_append_entries_def check_and_resolve_conflict_def)
    moreover have "merge_log L (nat (h - first_log_index lm)) es = L @ es"
      using es(1) True L by (cases es) auto
    ultimately show ?thesis using es last True by (simp add: rep_enqueue [OF rep])
  next
    case False
    let ?lm = "if ?ci \<noteq> length es \<and> le_index (es ! ?ci) \<le> last_log_index lm
      then unsafe_truncate_suffix ops (le_index (es ! ?ci) - 1) lm else lm"
    have app: "fst (lm_append_entries ops d es lm) =
        fst (enqueue_entries d (drop ?ci es)
          (if ?ci \<noteq> length es then ?lm\<lparr>last_log_index := le_index (last es)\<rparr> else lm))"
      using ok es hd h new False \<open>0 < first_log_index lm\<close>
      by (simp add: lm_append_entries_def check_and_resolve_conflict_def Let_def)
    show ?thesis
    proof (cases "?ci = length es")
      case True
      have "fst (enqueue_entries d [] lm) =
          fst (enqueue_entries d [] (lm\<lparr>last_log_index := last_log_index lm + int (length [])\<rparr>))"
        by simp
      with app True merge rep_enqueue [OF rep, of "[]" "last_log_index lm" d] show ?thesis by simp
    next
      case ci: False
      then have lt: "?ci < length es" using conflicting_index_le [of ops lm es] by simp
      then have idx: "le_index (es ! ?ci) = h + int ?ci" by (rule consecutive_nth [OF es(2)])
      have above: "index (applied_id lm) < h + int ?ci"
        using agree conflicting_index_mismatch [OF lt] nth_mem [OF lt] idx by force
      have "lm_rep ops wf first ents ?lm (take (nat (h + int ?ci - first_log_index lm)) L) \<and>
          last_log_index ?lm = h + int ?ci - 1"
      proof (cases "h + int ?ci \<le> last_log_index lm")
        case True
        have "lm_rep ops wf first ents (unsafe_truncate_suffix ops (h + int ?ci - 1) lm)
            (take (nat (h + int ?ci - 1 + 1 - first_log_index lm)) L)"
          using h above True by (intro rep_cut [OF rep]) auto
        moreover have "last_log_index (unsafe_truncate_suffix ops (h + int ?ci - 1) lm) = h + int ?ci - 1"
          using above by (simp add: unsafe_truncate_suffix_def Let_def)
        ultimately show ?thesis using True ci idx by simp
      next
        case False
        then have "h + int ?ci = last_log_index lm + 1" using merge lt by simp
        then show ?thesis using rep False idx L by simp
      qed
      moreover have "consecutive (h + int ?ci) (drop ?ci es)"
        using consecutive_drop_start [OF es(2)] lt by simp
      moreover have "\<forall>e \<in> set (drop ?ci es). 0 < le_term e" using es(3) by (auto dest: in_set_dropD)
      moreover have "le_index (last es) = h + int ?ci - 1 + int (length (drop ?ci es))"
        using last lt by simp
      ultimately have "lm_rep ops wf first ents
          (fst (enqueue_entries d (drop ?ci es) (?lm\<lparr>last_log_index := le_index (last es)\<rparr>)))
          (take (nat (h + int ?ci - first_log_index lm)) L @ drop ?ci es)"
        by (intro rep_enqueue) auto
      with app ci merge show ?thesis by (simp add: Let_def)
    qed
  qed
qed

end

end
