(* ===== verification/Raft_Log_Manager_Disk.thy ===== *)
theory Raft_Log_Manager_Disk
  imports Raft_Log_Manager_Spec
begin

text \<open>
  The disk thread of the log manager against the abstract log: the rounds of
  \<^verbatim>\<open>clear_memory_logs\<close> compute one cut, the batches of \<^verbatim>\<open>AppendBatcher\<close> have the
  effect of the closures one by one for every limit of the buffer, and snapshots,
  truncations and the drop of entries from memory keep the representation.
\<close>

subsection \<open>Dropping entries from memory\<close>

lemma clear_round_eq:
  "clear_round cap i logs =
    (let n = min cap (length (takeWhile (\<lambda>e. \<not> le_id e > i) logs)) in (n, drop n logs))"
  by (induction cap i logs rule: clear_round.induct) (simp_all add: Let_def)

lemma clear_logs_eq: "clear_logs i logs = dropWhile (\<lambda>e. \<not> le_id e > i) logs"
proof (induction i logs rule: clear_logs.induct)
  case (1 i logs)
  let ?P = "\<lambda>e. \<not> le_id e > i"
  let ?n = "min 256 (length (takeWhile ?P logs))"
  have round: "clear_round 256 i logs = (?n, drop ?n logs)" by (simp add: clear_round_eq Let_def)
  have split: "dropWhile ?P (drop ?n logs) = dropWhile ?P logs"
  proof -
    have "dropWhile ?P (take ?n logs @ drop ?n logs) = dropWhile ?P (drop ?n logs)"
    proof (rule dropWhile_append2)
      fix e assume "e \<in> set (take ?n logs)"
      then have "e \<in> set (take (length (takeWhile ?P logs)) logs)"
        by (meson min.cobounded2 set_take_subset_set_take subsetD)
      then show "?P e" using takeWhile_eq_take [of ?P logs] by (metis set_takeWhileD)
    qed
    then show ?thesis by simp
  qed
  show ?case
  proof (cases "?n = 256")
    case True
    with 1 round split show ?thesis by (subst clear_logs.simps) (simp add: Let_def)
  next
    case False
    then have "?n = length (takeWhile ?P logs)" by auto
    then have "drop ?n logs = dropWhile ?P logs" by (simp only: dropWhile_eq_drop)
    then show ?thesis
      by (subst clear_logs.simps) (simp only: round Let_def prod.case False if_False)
  qed
qed

context log_storage
begin

lemma rep_clear:
  assumes rep: "lm_rep ops wf first ents lm L"
    and stable: "\<forall>e \<in> set (logs_in_memory lm). le_id e \<le> i \<longrightarrow> stable_at ops lm (le_index e) e"
  shows "lm_rep ops wf first ents (clear_memory_logs i lm) L"
proof -
  let ?mem = "logs_in_memory lm" and ?P = "\<lambda>e. \<not> le_id e > i"
  let ?n = "length L - length ?mem" and ?p = "length (takeWhile ?P ?mem)"
  have le: "length ?mem \<le> length L" and mem: "drop ?n L = ?mem"
    and con: "consecutive (first_log_index lm) L"
    using rep by (auto simp: lm_rep_def)
  have old: "stable_at ops lm (first_log_index lm + int j) (L ! j)" if "j < ?n" for j
    using rep that by (auto simp: lm_rep_def)
  have "drop ?p (drop ?n L) = drop (?n + ?p) L" by (simp add: add.commute)
  then have cut: "dropWhile ?P ?mem = drop (?n + ?p) L" by (simp only: mem dropWhile_eq_drop)
  have p: "?p \<le> length ?mem" by (rule length_takeWhile_le)
  have "stable_at ops lm (first_log_index lm + int j) (L ! j)" if j: "j < ?n + ?p" for j
  proof (cases "j < ?n")
    case False
    then have "j - ?n < ?p" using j by simp
    then have P: "?P (?mem ! (j - ?n))" and "?mem ! (j - ?n) \<in> set ?mem"
      using nth_mem [of "j - ?n" "takeWhile ?P ?mem"] takeWhile_nth [of "j - ?n" ?P ?mem] p
      by (auto dest: set_takeWhileD)
    moreover have "drop ?n L ! (j - ?n) = L ! j" using False by simp
    then have "?mem ! (j - ?n) = L ! j" by (simp only: mem)
    moreover have "le_index (L ! j) = first_log_index lm + int j"
      using consecutive_nth [OF con, of j] j p le by simp
    ultimately show ?thesis using stable by (metis not_less)
  qed (rule old)
  moreover have "length L - length (dropWhile ?P ?mem) = ?n + ?p" using cut p le by simp
  ultimately show ?thesis
    using rep cut p le by (simp add: clear_memory_logs_def clear_logs_eq lm_rep_def stable_at_def)
qed

lemma rep_set_disk_id:
  assumes "lm_rep ops wf first ents lm L"
    and "\<forall>e \<in> set (logs_in_memory lm). stable_at ops lm (le_index e) e"
  shows "lm_rep ops wf first ents (set_disk_id i lm) L"
  using assms by (simp add: set_disk_id_def Let_def rep_clear stable_at_def)

lemma rep_set_applied_id:
  assumes rep: "lm_rep ops wf first ents lm L"
    and "index (applied_id lm) \<le> index i"
    and "\<forall>e \<in> set (logs_in_memory lm). le_id e \<le> i \<longrightarrow> stable_at ops lm (le_index e) e"
  shows "lm_rep ops wf first ents (set_applied_id i lm) L"
proof -
  have "lm_rep ops wf first ents (lm\<lparr>applied_id := i\<rparr>) L"
    using assms(1,2) by (auto simp: lm_rep_def stable_at_def snapshot_ids_ok_def)
  then have "lm_rep ops wf first ents (clear_memory_logs (min (disk_id lm) i) (lm\<lparr>applied_id := i\<rparr>)) L"
    using assms(3) by (intro rep_clear) (auto simp: stable_at_def)
  with rep show ?thesis by (simp add: set_applied_id_def Let_def)
qed

end

subsection \<open>The disk thread\<close>

text \<open>The closures that are run for a caller, without the answers to flush requests.\<close>

fun is_ack :: "lm_event \<Rightarrow> bool" where
  "is_ack (LastLogIdIs c i) = False"
| "is_ack _ = True"

fun closure_done :: "stable_closure \<Rightarrow> lm_event list" where
  "closure_done (AppendClosure d f es) = [DoneRun d 0]"
| "closure_done _ = []"

definition ds_acks :: "'s disk_state \<Rightarrow> lm_event list" where
  "ds_acks ds = filter is_ack (ds_events ds) @ map (\<lambda>d. DoneRun d 0) (ab_storage ds)"

definition abs_lookup :: "int \<times> log_entry list \<Rightarrow> int \<Rightarrow> log_entry option" where
  "abs_lookup a i =
     (if fst a \<le> i \<and> i < fst a + int (length (snd a)) then Some (snd a ! nat (i - fst a)) else None)"

lemma abs_apply_keeps:
  assumes "abs_apply c a = Some b" and "keeps_index c i" and "abs_lookup a i = Some e"
  shows "abs_lookup b i = Some e"
proof -
  obtain f l where a: "a = (f, l)" by (cases a)
  have in_range: "f \<le> i" "i < f + int (length l)" and e: "l ! nat (i - f) = e"
    using assms(3) by (auto simp: abs_lookup_def a split: if_splits)
  show ?thesis
  proof (cases c)
    case (TruncatePrefixClosure k)
    have "nat (k - f) + nat (i - k) = nat (i - f)" if "f \<le> k" "k \<le> i" using that by simp
    with TruncatePrefixClosure assms a in_range e show ?thesis
      by (auto simp: abs_lookup_def split: if_splits)
  qed (use assms a in_range e in \<open>auto simp: abs_lookup_def nth_append split: if_splits\<close>)
qed

lemma abs_run_keeps:
  "abs_run q a = Some b \<Longrightarrow> \<forall>c \<in> set q. keeps_index c i \<Longrightarrow> abs_lookup a i = Some e \<Longrightarrow>
   abs_lookup b i = Some e"
  by (induction q arbitrary: a) (auto split: option.splits dest: abs_apply_keeps)

definition disk_inv ::
  "('s \<Rightarrow> bool) \<Rightarrow> ('s \<Rightarrow> int) \<Rightarrow> ('s \<Rightarrow> log_entry list) \<Rightarrow> 's disk_state \<Rightarrow> int \<times> log_entry list \<Rightarrow> bool" where
  "disk_inv swf sfirst sents ds a \<longleftrightarrow>
     swf (log_storage_st (ds_lm ds)) \<and> \<not> has_error (ds_lm ds) \<and>
     (ab_storage ds = [] \<longrightarrow> ab_to_append ds = []) \<and>
     consecutive (sfirst (log_storage_st (ds_lm ds)) + int (length (sents (log_storage_st (ds_lm ds)))))
       (ab_to_append ds) \<and>
     a = (sfirst (log_storage_st (ds_lm ds)), sents (log_storage_st (ds_lm ds)) @ ab_to_append ds)"

definition same_but_storage :: "'s disk_state \<Rightarrow> 's disk_state \<Rightarrow> bool" where
  "same_but_storage ds ds' \<longleftrightarrow> (\<exists>st. ds_lm ds' = (ds_lm ds)\<lparr>log_storage_st := st\<rparr>)"

lemma same_but_storage_refl [simp]: "same_but_storage ds ds"
  by (auto simp: same_but_storage_def intro: exI [of _ "log_storage_st (ds_lm ds)"])

lemma same_but_storage_trans:
  "same_but_storage a b \<Longrightarrow> same_but_storage b c \<Longrightarrow> same_but_storage a c"
  by (auto simp: same_but_storage_def)

context log_storage
begin

lemma ab_flush_simulates:
  assumes "disk_inv wf first ents ds a"
  shows "disk_inv wf first ents (ab_flush ops ds) a \<and> ab_storage (ab_flush ops ds) = [] \<and>
    same_but_storage ds (ab_flush ops ds) \<and> ds_acks (ab_flush ops ds) = ds_acks ds"
proof (cases "ab_storage ds = []")
  case True
  with assms show ?thesis
    by (auto simp: ab_flush_def disk_inv_def ds_acks_def same_but_storage_def
        intro: exI [of _ "log_storage_st (ds_lm ds)"])
next
  case False
  let ?st = "log_storage_st (ds_lm ds)"
  obtain st where app: "ls_append_entries ops (ab_to_append ds) ?st = (int (length (ab_to_append ds)), st)"
    and st: "wf st" "first st = first ?st" "ents st = ents ?st @ ab_to_append ds"
    using append_entries [of ?st "ab_to_append ds"] assms
    by (cases "ls_append_entries ops (ab_to_append ds) ?st") (auto simp: disk_inv_def)
  with False assms show ?thesis
    by (auto simp: ab_flush_def append_to_storage_def Let_def disk_inv_def ds_acks_def
        same_but_storage_def comp_def filter_map)
qed

lemma ab_append_simulates:
  assumes inv: "disk_inv wf first ents ds (f, l)" and con: "consecutive (f + int (length l)) es"
  shows "disk_inv wf first ents (ab_append ops mx d es ds) (f, l @ es) \<and>
    same_but_storage ds (ab_append ops mx d es ds) \<and>
    ds_acks (ab_append ops mx d es ds) = ds_acks ds @ [DoneRun d 0]"
proof -
  let ?ds = "if length (ab_storage ds) = 256 \<or> ab_buffer_size ds \<ge> mx then ab_flush ops ds else ds"
  have "disk_inv wf first ents ?ds (f, l)" and "same_but_storage ds ?ds" and "ds_acks ?ds = ds_acks ds"
    using ab_flush_simulates [OF inv] inv by auto
  with con show ?thesis
    by (auto simp: ab_append_def Let_def disk_inv_def ds_acks_def same_but_storage_def add.assoc)
qed

lemma disk_step_simulates:
  assumes inv: "disk_inv wf first ents ds a" and step: "abs_apply c a = Some b"
  shows "disk_inv wf first ents (disk_step ops mx c ds) b \<and>
    same_but_storage ds (disk_step ops mx c ds) \<and>
    ds_acks (disk_step ops mx c ds) = ds_acks ds @ closure_done c"
proof -
  obtain f l where a: "a = (f, l)" by (cases a)
  note flush = ab_flush_simulates [OF inv]
  let ?ds = "ab_flush ops ds"
  let ?st = "log_storage_st (ds_lm ?ds)"
  have st: "wf ?st" "\<not> has_error (ds_lm ?ds)" "f = first ?st" "l = ents ?st"
    "ab_to_append ?ds = []" "ab_storage ?ds = []"
    using flush by (auto simp: disk_inv_def a)
  have same: "same_but_storage ds (?ds\<lparr>ds_lm := (ds_lm ?ds)\<lparr>log_storage_st := s\<rparr>, ds_events := ev, ds_last_id := i\<rparr>)"
    for s ev i
    using flush by (auto simp: same_but_storage_def)
  show ?thesis
  proof (cases c)
    case (AppendClosure d fi es)
    show ?thesis
    proof (cases es)
      case Nil
      with AppendClosure flush step show ?thesis
        by (auto simp: disk_step_def Let_def a disk_inv_def ds_acks_def same_but_storage_def)
    next
      case (Cons e es')
      with AppendClosure step inv show ?thesis
        using ab_append_simulates [of ds f l es mx d] by (auto simp: disk_step_def a split: if_splits)
    qed
  next
    case (LastLogIdClosure x)
    with flush step show ?thesis
      by (auto simp: disk_step_def Let_def a disk_inv_def ds_acks_def same_but_storage_def)
  next
    case (TruncatePrefixClosure k)
    with step st truncate_prefix [of ?st k] flush same show ?thesis
      by (auto simp: disk_step_def Let_def a disk_inv_def ds_acks_def storage_result_def
          same_but_storage_def split: if_splits)
  next
    case (TruncateSuffixClosure k t)
    with step st truncate_suffix [of ?st k] flush same show ?thesis
      by (auto simp: disk_step_def Let_def a disk_inv_def ds_acks_def storage_result_def
          same_but_storage_def split: if_splits)
  next
    case (ResetClosure n)
    with step st reset [of ?st n] flush same show ?thesis
      by (auto simp: disk_step_def Let_def a disk_inv_def ds_acks_def storage_result_def
          same_but_storage_def split: if_splits)
  qed
qed

lemma disk_loop_simulates:
  assumes "disk_inv wf first ents ds a" and "abs_run q a = Some b"
  shows "disk_inv wf first ents (foldl (\<lambda>ds c. disk_step ops mx c ds) ds q) b \<and>
    same_but_storage ds (foldl (\<lambda>ds c. disk_step ops mx c ds) ds q) \<and>
    ds_acks (foldl (\<lambda>ds c. disk_step ops mx c ds) ds q) = ds_acks ds @ concat (map closure_done q)"
  using assms
proof (induction q arbitrary: ds a)
  case (Cons c q)
  from Cons.prems(2) obtain a' where a': "abs_apply c a = Some a'" "abs_run q a' = Some b"
    by (auto split: option.splits)
  note step = disk_step_simulates [OF Cons.prems(1) a'(1), of mx]
  from step Cons.IH [of "disk_step ops mx c ds", OF _ a'(2)] show ?case
    by (auto intro: same_but_storage_trans)
qed simp

lemma get_entry_lookup: "wf s \<Longrightarrow> ls_get_entry ops i s = abs_lookup (first s, ents s) i"
  by (simp add: get_entry abs_lookup_def)

text \<open>
  One activation of the thread on the first \<open>n\<close> closures, up to the moment where it records
  its progress: the storage holds what the closures ask for, every closure was run once and
  in order, and the log that the manager represents is the same.
\<close>

lemma disk_thread_batch:
  assumes rep: "lm_rep ops wf first ents lm L" and ok: "\<not> has_error lm"
  obtains st last_id where
    "disk_thread ops mx n lm =
       (set_disk_id last_id (lm\<lparr>log_storage_st := st, disk_queue := drop n (disk_queue lm)\<rparr>),
        snd (disk_thread ops mx n lm))"
    and "filter is_ack (snd (disk_thread ops mx n lm)) = concat (map closure_done (take n (disk_queue lm)))"
    and "lm_rep ops wf first ents (lm\<lparr>log_storage_st := st, disk_queue := drop n (disk_queue lm)\<rparr>) L"
    and "abs_run (take n (disk_queue lm)) (first (log_storage_st lm), ents (log_storage_st lm)) =
      Some (first st, ents st)"
proof -
  let ?q = "take n (disk_queue lm)" and ?r = "drop n (disk_queue lm)"
  let ?a = "(first (log_storage_st lm), ents (log_storage_st lm))"
  let ?lm = "lm\<lparr>disk_queue := ?r\<rparr>"
  let ?start = "\<lparr>ab_storage = [], ab_buffer_size = 0, ab_to_append = [], ds_last_id = disk_id lm,
                ds_lm = ?lm, ds_events = []\<rparr>"
  let ?ds = "ab_flush ops (foldl (\<lambda>ds c. disk_step ops mx c ds) ?start ?q)"
  have wf: "wf (log_storage_st lm)" and run: "abs_run (disk_queue lm) ?a = Some (first_log_index lm, L)"
    using rep by (auto simp: lm_rep_def)
  obtain b where b: "abs_run ?q ?a = Some b" "abs_run ?r b = Some (first_log_index lm, L)"
    using run abs_run_append [of ?q ?r ?a] by (auto split: option.splits)
  have "disk_inv wf first ents ?start ?a" using wf ok by (simp add: disk_inv_def)
  note loop1 = disk_loop_simulates [OF this b(1), of mx]
  note loop2 = ab_flush_simulates [OF loop1 [THEN conjunct1]]
  have acks: "ds_acks ?start = []" by (simp add: ds_acks_def)
  have loop: "disk_inv wf first ents ?ds b" "ab_storage ?ds = []" "same_but_storage ?start ?ds"
      "ds_acks ?ds = concat (map closure_done ?q)"
    using loop1 loop2 acks same_but_storage_trans by auto
  obtain st where "ds_lm ?ds = ?lm\<lparr>log_storage_st := st\<rparr>"
    using loop(3) by (auto simp: same_but_storage_def)
  moreover have "?lm\<lparr>log_storage_st := st\<rparr> = lm\<lparr>log_storage_st := st, disk_queue := ?r\<rparr>" by simp
  ultimately have st: "ds_lm ?ds = lm\<lparr>log_storage_st := st, disk_queue := ?r\<rparr>" by (rule trans)
  have st_wf: "wf st" "(first st, ents st) = b" using loop(1,2) st by (auto simp: disk_inv_def)
  have "stable_at ops (lm\<lparr>log_storage_st := st, disk_queue := ?r\<rparr>) i e" if "stable_at ops lm i e" for i e
  proof -
    have "\<forall>c \<in> set ?q. keeps_index c i" "\<forall>c \<in> set ?r. keeps_index c i" "abs_lookup ?a i = Some e"
      using that wf by (auto simp: stable_at_def get_entry_lookup dest: in_set_takeD in_set_dropD)
    with abs_run_keeps [OF b(1)] st_wf show ?thesis by (simp add: stable_at_def get_entry_lookup)
  qed
  then have "lm_rep ops wf first ents (lm\<lparr>log_storage_st := st, disk_queue := ?r\<rparr>) L"
    using rep st_wf b(2) by (simp add: lm_rep_def)
  moreover have "disk_thread ops mx n lm = (set_disk_id (ds_last_id ?ds)
      (lm\<lparr>log_storage_st := st, disk_queue := ?r\<rparr>), ds_events ?ds)"
    using st by (simp add: disk_thread_def Let_def)
  ultimately show thesis using that [of "ds_last_id ?ds" st] loop b(1) st_wf by (simp add: ds_acks_def)
qed

lemma set_disk_id_frame:
  "log_storage_st (set_disk_id i lm) = log_storage_st lm"
  "disk_queue (set_disk_id i lm) = disk_queue lm"
  "first_log_index (set_disk_id i lm) = first_log_index lm"
  "has_error (set_disk_id i lm) = has_error lm"
  by (simp_all add: set_disk_id_def Let_def clear_memory_logs_def)

lemma rep_memory_entry:
  assumes rep: "lm_rep ops wf first ents lm L" and e: "e \<in> set (logs_in_memory lm)"
  shows "first_log_index lm \<le> le_index e \<and> le_index e \<le> last_log_index lm \<and>
    L ! nat (le_index e - first_log_index lm) = e"
proof -
  have "logs_in_memory lm = drop (length L - length (logs_in_memory lm)) L"
    using rep by (simp add: lm_rep_def)
  with e have "e \<in> set L" by (metis in_set_dropD)
  then obtain j where "j < length L" "L ! j = e" by (auto simp: in_set_conv_nth)
  with rep show ?thesis using consecutive_nth [of "first_log_index lm" L j] by (auto simp: lm_rep_def)
qed

lemma disk_thread_drains:
  assumes rep: "lm_rep ops wf first ents lm L" and ok: "\<not> has_error lm"
    and all: "length (disk_queue lm) \<le> n" and r: "disk_thread ops mx n lm = (lm', evs)"
  shows "lm_rep ops wf first ents lm' L \<and> \<not> has_error lm' \<and> disk_queue lm' = [] \<and>
    first (log_storage_st lm') = first_log_index lm \<and> ents (log_storage_st lm') = L \<and>
    filter is_ack evs = concat (map closure_done (disk_queue lm))"
proof -
  obtain st last_id where b:
    "disk_thread ops mx n lm =
       (set_disk_id last_id (lm\<lparr>log_storage_st := st, disk_queue := drop n (disk_queue lm)\<rparr>),
        snd (disk_thread ops mx n lm))"
    "filter is_ack (snd (disk_thread ops mx n lm)) = concat (map closure_done (take n (disk_queue lm)))"
    "lm_rep ops wf first ents (lm\<lparr>log_storage_st := st, disk_queue := drop n (disk_queue lm)\<rparr>) L"
    "abs_run (take n (disk_queue lm)) (first (log_storage_st lm), ents (log_storage_st lm)) =
      Some (first st, ents st)"
    by (rule disk_thread_batch [OF rep ok, of mx n]) blast
  let ?lm = "lm\<lparr>log_storage_st := st, disk_queue := []\<rparr>"
  have repl: "lm_rep ops wf first ents ?lm L" using b(3) all by simp
  then have "first st = first_log_index lm" "ents st = L" "wf st" by (auto simp: lm_rep_def)
  moreover have "\<forall>e \<in> set (logs_in_memory ?lm). stable_at ops ?lm (le_index e) e"
    using rep_memory_entry [OF repl] calculation repl
    by (auto simp: stable_at_def get_entry lm_rep_def)
  with repl have "lm_rep ops wf first ents (set_disk_id last_id ?lm) L" by (rule rep_set_disk_id)
  ultimately show ?thesis
    using b(1,2) r all ok by (auto simp: set_disk_id_frame)
qed

end

end
