(* ===== verification/Raft_Log_Manager_Runs.thy ===== *)
theory Raft_Log_Manager_Runs
  imports Raft_Log_Manager_Disk
begin

text \<open>
  Snapshots and whole runs of the log manager: what \<^verbatim>\<open>set_snapshot\<close> leaves of the log on
  each of its branches, the step relation of the calls a node makes, and the properties of
  every state that such runs reach on the memory log.
\<close>

subsection \<open>Cutting the head of the log\<close>

text \<open>The representation without the conditions on the snapshot ids, which the code
  updates before it cuts.\<close>

definition log_rep ::
  "'s log_storage_ops \<Rightarrow> ('s \<Rightarrow> bool) \<Rightarrow> ('s \<Rightarrow> int) \<Rightarrow> ('s \<Rightarrow> log_entry list)
     \<Rightarrow> 's log_manager \<Rightarrow> log_entry list \<Rightarrow> bool" where
  "log_rep ops swf sfirst sents lm L \<longleftrightarrow>
     swf (log_storage_st lm) \<and>
     0 < first_log_index lm \<and> consecutive (first_log_index lm) L \<and>
     last_log_index lm = first_log_index lm + int (length L) - 1 \<and>
     (\<forall>e \<in> set L. 0 < le_term e) \<and>
     length (logs_in_memory lm) \<le> length L \<and>
     drop (length L - length (logs_in_memory lm)) L = logs_in_memory lm \<and>
     (\<forall>j < length L - length (logs_in_memory lm).
        stable_at ops lm (first_log_index lm + int j) (L ! j)) \<and>
     abs_run (disk_queue lm) (sfirst (log_storage_st lm), sents (log_storage_st lm)) =
       Some (first_log_index lm, L)"

lemma lm_rep_iff:
  "lm_rep ops swf sf se lm L \<longleftrightarrow> log_rep ops swf sf se lm L \<and> snapshot_ids_ok lm L"
  by (auto simp: lm_rep_def log_rep_def)

lemma log_rep_frame [simp]:
  "log_rep ops swf sf se (lm\<lparr>config_manager := cm\<rparr>) L = log_rep ops swf sf se lm L"
  "log_rep ops swf sf se (lm\<lparr>applied_id := i\<rparr>) L = log_rep ops swf sf se lm L"
  "log_rep ops swf sf se (lm\<lparr>last_snapshot_id := i\<rparr>) L = log_rep ops swf sf se lm L"
  "log_rep ops swf sf se (lm\<lparr>virtual_first_log_id := i\<rparr>) L = log_rep ops swf sf se lm L"
  by (simp_all add: log_rep_def stable_at_def)

lemma lm_truncate_prefix_fields [simp]:
  "first_log_index (lm_truncate_prefix k lm) = k"
  "last_log_index (lm_truncate_prefix k lm) = max (k - 1) (last_log_index lm)"
  "applied_id (lm_truncate_prefix k lm) = applied_id lm"
  "last_snapshot_id (lm_truncate_prefix k lm) = last_snapshot_id lm"
  "virtual_first_log_id (lm_truncate_prefix k lm) = virtual_first_log_id lm"
  "has_error (lm_truncate_prefix k lm) = has_error lm"
  by (simp_all add: lm_truncate_prefix_def Let_def)

lemma lm_reset_fields [simp]:
  "first_log_index (lm_reset n lm) = n" "last_log_index (lm_reset n lm) = n - 1"
  "applied_id (lm_reset n lm) = applied_id lm"
  "last_snapshot_id (lm_reset n lm) = last_snapshot_id lm"
  "virtual_first_log_id (lm_reset n lm) = virtual_first_log_id lm"
  "has_error (lm_reset n lm) = has_error lm"
  by (simp_all add: lm_reset_def Let_def)

lemma log_rep_reset: "log_rep ops swf sf se lm L \<Longrightarrow> 0 < n \<Longrightarrow> log_rep ops swf sf se (lm_reset n lm) []"
  by (simp add: log_rep_def lm_reset_def Let_def abs_run_append)

lemma drop_max:
  assumes "n \<le> length L"
  shows "drop (length (drop m L) - length (drop (max m n) L)) (drop m L) = drop (max m n) L"
proof (cases "m \<le> length L")
  case True
  then have "length (drop m L) - length (drop (max m n) L) + m = max m n"
    using assms by (auto simp: max_def)
  then show ?thesis by (simp only: drop_drop)
qed (use assms in simp)

lemma log_rep_truncate_prefix:
  assumes rep: "log_rep ops swf sf se lm L" and k: "first_log_index lm \<le> k"
  shows "log_rep ops swf sf se (lm_truncate_prefix k lm) (drop (nat (k - first_log_index lm)) L)"
proof -
  let ?m = "nat (k - first_log_index lm)" and ?mem = "logs_in_memory lm"
  let ?n = "length L - length ?mem"
  have con: "consecutive (first_log_index lm) L" and le: "length ?mem \<le> length L"
    and mem: "drop ?n L = ?mem" and m: "int ?m = k - first_log_index lm"
    and last: "last_log_index lm = first_log_index lm + int (length L) - 1"
    using rep k by (auto simp: log_rep_def)
  have st: "stable_at ops lm (first_log_index lm + int j) (L ! j)" if "j < ?n" for j
    using rep that by (simp add: log_rep_def)
  have "consecutive (first_log_index lm + int ?n) ?mem"
    using consecutive_drop_start [OF con, of ?n] mem by simp
  moreover have "nat (k - (first_log_index lm + int ?n)) = ?m - ?n" by linarith
  ultimately have "dropWhile (\<lambda>e. le_index e < k) ?mem = drop (?m - ?n) (drop ?n L)"
    by (simp add: consecutive_dropWhile_less mem)
  moreover have "?m - ?n + ?n = max ?m ?n" by simp
  ultimately have mem': "dropWhile (\<lambda>e. le_index e < k) ?mem = drop (max ?m ?n) L"
    by (simp only: drop_drop)
  have con': "consecutive k (drop ?m L)"
  proof (cases "?m \<le> length L")
    case True
    from consecutive_drop_start [OF con True] m show ?thesis by simp
  qed simp
  have stable: "ls_get_entry ops (k + int j) (log_storage_st lm) = Some (drop ?m L ! j) \<and>
      (\<forall>c \<in> set (disk_queue lm). keeps_index c (k + int j))" if "j < ?n - ?m" for j
  proof -
    have "first_log_index lm + int (?m + j) = k + int j" using m by simp
    with st [of "?m + j"] that show ?thesis by (auto simp: stable_at_def)
  qed
  have bound: "length (drop ?m L) - length (drop (max ?m ?n) L) \<le> ?n - ?m" by (auto simp: max_def)
  have all: "\<forall>j < length (drop ?m L) - length (drop (max ?m ?n) L).
      ls_get_entry ops (k + int j) (log_storage_st lm) = Some (drop ?m L ! j) \<and>
      (\<forall>c \<in> set (disk_queue lm @ [TruncatePrefixClosure k]). keeps_index c (k + int j))"
  proof (intro allI impI)
    fix j assume "j < length (drop ?m L) - length (drop (max ?m ?n) L)"
    then have "j < ?n - ?m" using bound by (rule less_le_trans)
    from stable [OF this] show "ls_get_entry ops (k + int j) (log_storage_st lm) = Some (drop ?m L ! j) \<and>
      (\<forall>c \<in> set (disk_queue lm @ [TruncatePrefixClosure k]). keeps_index c (k + int j))"
      by (simp del: nth_drop)
  qed
  have dropped: "drop (length (drop ?m L) - length (drop (max ?m ?n) L)) (drop ?m L) = drop (max ?m ?n) L"
    by (rule drop_max) simp
  have last': "max (k - 1) (last_log_index lm) = k + int (length (drop ?m L)) - 1"
    using last m by (auto simp: max_def)
  have pos: "\<forall>e \<in> set (drop ?m L). 0 < le_term e"
    using rep by (auto simp: log_rep_def dest: in_set_dropD)
  have run: "abs_run (disk_queue lm @ [TruncatePrefixClosure k])
      (sf (log_storage_st lm), se (log_storage_st lm)) = Some (k, drop ?m L)"
    using rep k by (simp add: log_rep_def abs_run_append)
  have base: "swf (log_storage_st lm)" "0 < k" using rep k by (auto simp: log_rep_def)
  have len: "length (drop (max ?m ?n) L) \<le> length (drop ?m L)" by simp
  have eqs: "logs_in_memory (lm_truncate_prefix k lm) = drop (max ?m ?n) L"
    "log_storage_st (lm_truncate_prefix k lm) = log_storage_st lm"
    "disk_queue (lm_truncate_prefix k lm) = disk_queue lm @ [TruncatePrefixClosure k]"
    using mem' by (simp_all add: lm_truncate_prefix_def Let_def)
  show ?thesis
    unfolding log_rep_def stable_at_def eqs lm_truncate_prefix_fields
    by (intro conjI) (fact base con' last' pos len dropped all run)+
qed

subsection \<open>Snapshots\<close>

text \<open>What a new snapshot leaves of the log: nothing when it is ahead of the log or
  contradicts it, otherwise all but the part before the last but one snapshot.\<close>

definition snapshot_log :: "'s log_manager \<Rightarrow> snapshot_meta \<Rightarrow> log_entry list \<Rightarrow> log_entry list" where
  "snapshot_log lm meta L =
     (if last_included_index meta \<le> index (last_snapshot_id lm) then L
      else if last_included_index meta > last_log_index lm \<or>
        le_term (L ! nat (last_included_index meta - first_log_index lm)) \<noteq> last_included_term meta
      then []
      else if index (last_snapshot_id lm) > 0
      then drop (nat (index (last_snapshot_id lm) + 1 - first_log_index lm)) L
      else L)"

text \<open>The id of the snapshot is above the applied one when its index is: terms do not
  decrease along a log.\<close>

definition snapshot_fits :: "'s log_manager \<Rightarrow> snapshot_meta \<Rightarrow> bool" where
  "snapshot_fits lm meta \<longleftrightarrow>
     0 < last_included_term meta \<and>
     (index (applied_id lm) < last_included_index meta \<longrightarrow>
        applied_id lm < LogId (last_included_index meta) (last_included_term meta))"

lemma unsafe_get_term_config [simp]:
  "unsafe_get_term ops i (lm\<lparr>config_manager := cm\<rparr>) = unsafe_get_term ops i lm"
  by (simp add: unsafe_get_term_def get_entry_from_memory_def Let_def split: option.split)

lemma snapshot_ids_first:
  assumes "snapshot_ids_ok lm L"
  shows "first_log_index lm \<le> index (last_snapshot_id lm) + 1" and "0 \<le> index (last_snapshot_id lm)"
  using assms by (auto simp: snapshot_ids_ok_def split: if_splits)

context log_storage
begin

lemma rep_set_snapshot:
  assumes rep: "lm_rep ops wf first ents lm L" and fits: "snapshot_fits lm meta"
  shows "lm_rep ops wf first ents (lm_set_snapshot ops meta lm) (snapshot_log lm meta L)"
proof (cases "last_included_index meta \<le> index (last_snapshot_id lm)")
  case True
  with rep show ?thesis by (simp add: lm_set_snapshot_def snapshot_log_def)
next
  case False
  let ?i = "last_included_index meta" and ?t = "last_included_term meta"
  let ?s = "last_snapshot_id lm"
  let ?a = "if LogId ?i ?t > applied_id lm then LogId ?i ?t else applied_id lm"
  have core: "log_rep ops wf first ents lm L" and ids: "snapshot_ids_ok lm L"
    using rep by (auto simp: lm_rep_iff)
  note s = snapshot_ids_first [OF ids]
  have last: "last_log_index lm = first_log_index lm + int (length L) - 1"
    and pos: "\<forall>e \<in> set L. 0 < le_term e"
    using core by (auto simp: log_rep_def)
  have i: "first_log_index lm \<le> ?i" "0 < ?i" using s False by auto
  have a: "?i \<le> index ?a" "index (applied_id lm) \<le> index ?a \<or> index ?a = ?i"
    using fits by (auto simp: snapshot_fits_def not_less)
  define t where "t = unsafe_get_term ops ?i lm"
  have t: "t = (if ?i > last_log_index lm then 0 else le_term (L ! nat (?i - first_log_index lm)))"
    using rep_get_term_inside [OF rep i(1)] rep_get_term_above [OF rep, of ?i] by (auto simp: t_def)
  have "0 < le_term (L ! nat (?i - first_log_index lm))" if "\<not> ?i > last_log_index lm"
  proof -
    have "nat (?i - first_log_index lm) < length L" using that last i(1) by simp
    with pos show ?thesis by simp
  qed
  with t have t0: "t = 0 \<longleftrightarrow> ?i > last_log_index lm" by auto
  define entry where "entry = \<lparr>ce_id = LogId ?i ?t,
      ce_conf = foldl (\<lambda>c p. snd (add_peer p c)) {||} (sm_peers meta),
      ce_old_conf = foldl (\<lambda>c p. snd (add_peer p c)) {||} (sm_old_peers meta)\<rparr>"
  define lm2 where "lm2 = (let lm1 = lm\<lparr>config_manager := cm_set_snapshot entry (config_manager lm),
      last_snapshot_id := LogId ?i ?t\<rparr>
    in if LogId ?i ?t > applied_id lm then lm1\<lparr>applied_id := LogId ?i ?t\<rparr> else lm1)"
  have lm': "lm_set_snapshot ops meta lm =
    (if t = 0 then lm_truncate_prefix (?i + 1) (lm2\<lparr>virtual_first_log_id := LogId ?i ?t\<rparr>)
     else if t = ?t then (if index ?s > 0
       then lm_truncate_prefix (index ?s + 1) (lm2\<lparr>virtual_first_log_id := ?s\<rparr>) else lm2)
     else lm_reset (?i + 1) (lm2\<lparr>virtual_first_log_id := LogId ?i ?t\<rparr>))"
    using False by (simp add: lm_set_snapshot_def Let_def t_def lm2_def entry_def)
  have lm2: "log_rep ops wf first ents lm2 L" "last_snapshot_id lm2 = LogId ?i ?t" "applied_id lm2 = ?a"
    "virtual_first_log_id lm2 = virtual_first_log_id lm" "first_log_index lm2 = first_log_index lm"
    "last_log_index lm2 = last_log_index lm"
    using core by (simp_all add: lm2_def Let_def)
  have logc: "log_rep ops wf first ents (lm_set_snapshot ops meta lm) (snapshot_log lm meta L)"
    using False lm2 s i t t0 last
      log_rep_truncate_prefix [of ops wf first ents "lm2\<lparr>virtual_first_log_id := LogId ?i ?t\<rparr>" L "?i + 1"]
      log_rep_truncate_prefix [of ops wf first ents "lm2\<lparr>virtual_first_log_id := ?s\<rparr>" L "index ?s + 1"]
      log_rep_reset [of ops wf first ents "lm2\<lparr>virtual_first_log_id := LogId ?i ?t\<rparr>" L "?i + 1"]
    by (auto simp: lm' snapshot_log_def)
  have "snapshot_ids_ok (lm_set_snapshot ops meta lm) (snapshot_log lm meta L)"
  proof (cases "t \<noteq> 0 \<and> t = ?t \<and> index ?s > 0")
    case True
    have "nat (index ?s + 1 - first_log_index lm) + nat (?i - (index ?s + 1)) = nat (?i - first_log_index lm)"
      using False s by simp
    with True False lm2 s i a t t0 last show ?thesis
      by (auto simp: lm' snapshot_log_def snapshot_ids_ok_def)
  next
    case keep: False
    with False lm2 s i a t t0 last ids show ?thesis
      by (auto simp: lm' snapshot_log_def snapshot_ids_ok_def)
  qed
  with logc show ?thesis by (simp add: lm_rep_iff)
qed

end

lemma snapshot_ids_clear_bufferred:
  assumes "snapshot_ids_ok lm L" and "index (last_snapshot_id lm) \<noteq> 0"
  shows "snapshot_ids_ok (clear_bufferred_logs lm) L'"
  using assms by (auto simp: clear_bufferred_logs_def snapshot_ids_ok_def split: if_splits)

lemma lm_rep_clear_bufferred:
  assumes rep: "lm_rep ops swf sf se lm L"
  shows "lm_rep ops swf sf se (clear_bufferred_logs lm)
    (if index (last_snapshot_id lm) \<noteq> 0
     then drop (nat (index (last_snapshot_id lm) + 1 - first_log_index lm)) L else L)"
proof (cases "index (last_snapshot_id lm) = 0")
  case False
  let ?lm = "lm\<lparr>virtual_first_log_id := last_snapshot_id lm\<rparr>"
  have ids: "snapshot_ids_ok lm L" and "log_rep ops swf sf se ?lm L" using rep by (auto simp: lm_rep_iff)
  with log_rep_truncate_prefix [of ops swf sf se ?lm L "index (last_snapshot_id lm) + 1"]
    snapshot_ids_first [OF ids] snapshot_ids_clear_bufferred [OF ids False] False
  show ?thesis by (simp add: lm_rep_iff clear_bufferred_logs_def)
qed (use rep in \<open>simp add: clear_bufferred_logs_def\<close>)

subsection \<open>Runs\<close>

text \<open>
  The calls of a node. Entries of a leader follow a position that the caller has matched
  (\<open>handle_append_entries_request\<close> compares \<open>prev_log_index\<close> and \<open>prev_log_term\<close> first), carry
  positive terms, and do not contradict what has been applied. Applied entries are stable
  when their id is announced, and when the disk thread records its progress.
\<close>

definition follower_entries :: "'s log_storage_ops \<Rightarrow> 's log_manager \<Rightarrow> log_entry list \<Rightarrow> bool" where
  "follower_entries ops lm es \<longleftrightarrow>
     es \<noteq> [] \<and> consecutive (le_index (hd es)) es \<and> list_all (\<lambda>e. 0 < le_term e) es \<and>
     first_log_index lm \<le> le_index (hd es) \<and> le_index (hd es) \<le> last_log_index lm + 1 \<and>
     index (applied_id lm) < le_index (last es) \<and>
     list_all (\<lambda>e. le_index e \<le> index (applied_id lm) \<longrightarrow>
       unsafe_get_term ops (le_index e) lm = le_term e) es"

definition leader_entries :: "log_entry list \<Rightarrow> bool" where
  "leader_entries es \<longleftrightarrow> es \<noteq> [] \<and> le_index (hd es) = 0 \<and> list_all (\<lambda>e. 0 < le_term e) es"

inductive lm_step :: "'s log_storage_ops \<Rightarrow> 's log_manager \<Rightarrow> 's log_manager \<Rightarrow> bool" for ops where
  follower: "follower_entries ops lm es \<Longrightarrow> lm_step ops lm (fst (lm_append_entries ops d es lm))"
| leader: "leader_entries es \<Longrightarrow> lm_step ops lm (fst (lm_append_entries ops d es lm))"
| nothing: "lm_step ops lm (fst (lm_append_entries ops d [] lm))"
| disk: "\<forall>e \<in> set (logs_in_memory lm). le_id e \<le> applied_id lm \<longrightarrow>
      stable_at ops (fst (disk_thread ops mx n lm)) (le_index e) e \<Longrightarrow>
    lm_step ops lm (fst (disk_thread ops mx n lm))"
| applied: "index (applied_id lm) \<le> index i \<Longrightarrow>
    \<forall>e \<in> set (logs_in_memory lm). le_id e \<le> i \<longrightarrow> stable_at ops lm (le_index e) e \<Longrightarrow>
    lm_step ops lm (set_applied_id i lm)"
| snapshot: "snapshot_fits lm meta \<Longrightarrow> lm_step ops lm (lm_set_snapshot ops meta lm)"
| clear: "lm_step ops lm (clear_bufferred_logs lm)"
| wait: "lm_step ops lm (fst (snd (notify_on_new_log i w lm)))"
| unwait: "lm_step ops lm (snd (remove_waiter w lm))"
| flush: "lm_step ops lm (snd (lm_last_log_id_flush c lm))"
| shutdown: "lm_step ops lm (fst (lm_shutdown lm))"

inductive lm_reachable :: "memory_log log_manager \<Rightarrow> bool" where
  init: "lm_reachable (snd (lm_init memory_log_ops (lm_new mem_new cm)))"
| step: "lm_reachable lm \<Longrightarrow> lm_step memory_log_ops lm lm' \<Longrightarrow> lm_reachable lm'"

lemma lm_rep_nothing:
  assumes "lm_rep ops swf sf se lm L"
  shows "lm_rep ops swf sf se (lm\<lparr>disk_queue := disk_queue lm @ [LastLogIdClosure c]\<rparr>) L"
    and "lm_rep ops swf sf se (lm\<lparr>disk_queue := disk_queue lm @ [AppendClosure d f []]\<rparr>) L"
  using assms by (auto simp: lm_rep_def stable_at_def abs_run_append)

lemma enqueue_entries_has_error [simp]: "has_error (fst (enqueue_entries d es lm)) = has_error lm"
proof -
  obtain cm f where "fst (enqueue_entries d es lm) =
    lm\<lparr>logs_in_memory := logs_in_memory lm @ es,
       disk_queue := disk_queue lm @ [AppendClosure d f es], config_manager := cm, wait_map := []\<rparr>"
    using enqueue_entries_eq by blast
  then show ?thesis by simp
qed

lemma append_has_error: "\<not> has_error lm \<Longrightarrow> \<not> has_error (fst (lm_append_entries ops d es lm))"
  by (auto simp: lm_append_entries_def check_and_resolve_conflict_def Let_def foldl_assign_index
      unsafe_truncate_suffix_def split: prod.splits option.splits if_splits)

lemma set_snapshot_has_error: "has_error (lm_set_snapshot ops meta lm) = has_error lm"
  by (simp add: lm_set_snapshot_def Let_def)

context log_storage
begin

lemma rep_disk_thread:
  assumes rep: "lm_rep ops wf first ents lm L" and ok: "\<not> has_error lm"
    and stable: "\<forall>e \<in> set (logs_in_memory lm). le_id e \<le> applied_id lm \<longrightarrow>
      stable_at ops (fst (disk_thread ops mx n lm)) (le_index e) e"
  shows "lm_rep ops wf first ents (fst (disk_thread ops mx n lm)) L \<and>
    \<not> has_error (fst (disk_thread ops mx n lm))"
proof -
  obtain st i where d: "disk_thread ops mx n lm =
       (set_disk_id i (lm\<lparr>log_storage_st := st, disk_queue := drop n (disk_queue lm)\<rparr>),
        snd (disk_thread ops mx n lm))"
    and r: "lm_rep ops wf first ents (lm\<lparr>log_storage_st := st, disk_queue := drop n (disk_queue lm)\<rparr>) L"
    by (rule disk_thread_batch [OF rep ok, of mx n]) blast
  let ?lm = "lm\<lparr>log_storage_st := st, disk_queue := drop n (disk_queue lm)\<rparr>"
  have fst: "fst (disk_thread ops mx n lm) = set_disk_id i ?lm" by (subst d) simp
  then have "\<forall>e \<in> set (logs_in_memory ?lm). le_id e \<le> applied_id lm \<longrightarrow> stable_at ops ?lm (le_index e) e"
    using stable by (simp add: stable_at_def set_disk_id_frame)
  then have "lm_rep ops wf first ents (set_disk_id i ?lm) L"
    using r by (auto simp: set_disk_id_def Let_def stable_at_def intro!: rep_clear)
  with fst ok show ?thesis by (simp add: set_disk_id_frame)
qed

lemma lm_step_rep:
  assumes "lm_step ops lm lm'" and rep: "lm_rep ops wf first ents lm L" and ok: "\<not> has_error lm"
  shows "(\<exists>L'. lm_rep ops wf first ents lm' L') \<and> \<not> has_error lm'"
  using assms(1)
proof cases
  case (follower es d)
  then have "lm_rep ops wf first ents lm' (merge_log L (nat (le_index (hd es) - first_log_index lm)) es)"
    using rep ok by (auto simp: follower_entries_def list_all_iff intro!: rep_append_follower)
  with follower ok show ?thesis by (auto simp: append_has_error)
next
  case (leader es d)
  then have "lm_rep ops wf first ents lm' (L @ with_indexes (last_log_index lm + 1) es)"
    using rep ok by (auto simp: leader_entries_def list_all_iff intro!: rep_append_leader)
  with leader ok show ?thesis by (auto simp: append_has_error)
next
  case (nothing d)
  then have "lm' = fst (enqueue_entries d [] (lm\<lparr>last_log_index := last_log_index lm + int (length [])\<rparr>))"
    using ok by (simp add: lm_append_entries_def)
  with rep_enqueue [OF rep, of "[]" "last_log_index lm" d] ok show ?thesis by auto
next
  case (disk mx n)
  with rep_disk_thread [OF rep ok] show ?thesis by blast
next
  case (applied i)
  with rep_set_applied_id [OF rep, of i] ok show ?thesis
    by (auto simp: set_applied_id_def clear_memory_logs_def Let_def)
next
  case (snapshot meta)
  with rep_set_snapshot [OF rep] ok show ?thesis by (auto simp: set_snapshot_has_error)
next
  case clear
  with lm_rep_clear_bufferred [OF rep] ok show ?thesis by (auto simp: clear_bufferred_logs_def)
next
  case (wait i w)
  with rep ok show ?thesis by (auto simp: notify_on_new_log_def Let_def)
next
  case (unwait w)
  with rep ok show ?thesis by (auto simp: remove_waiter_def split: option.splits)
next
  case (flush c)
  with lm_rep_nothing [OF rep] rep ok show ?thesis by (auto simp: lm_last_log_id_flush_def)
next
  case shutdown
  with rep ok show ?thesis by (auto simp: lm_shutdown_def wakeup_all_waiter_def Let_def)
qed

lemma rep_check_consistency: "lm_rep ops wf first ents lm L \<Longrightarrow> check_consistency lm = 0"
  by (auto simp: lm_rep_def snapshot_ids_ok_def check_consistency_def split: if_splits)

end

abbreviation mlm_rep :: "memory_log log_manager \<Rightarrow> log_entry list \<Rightarrow> bool" where
  "mlm_rep \<equiv> lm_rep memory_log_ops mem_wf mem_first_log_index log_entry_data"

lemma lm_init_rep: "mlm_rep (snd (lm_init memory_log_ops (lm_new mem_new cm))) [] \<and>
    \<not> has_error (snd (lm_init memory_log_ops (lm_new mem_new cm)))"
  by (simp add: lm_init_def lm_new_def memory_log_ops_def mem_init_def mem_new_def lm_rep_def
      mem_wf_def snapshot_ids_ok_def)

lemma lm_reachable_rep: "lm_reachable lm \<Longrightarrow> (\<exists>L. mlm_rep lm L) \<and> \<not> has_error lm"
  by (induction rule: lm_reachable.induct) (use lm_init_rep mlog.lm_step_rep in blast)+

subsection \<open>The readable log\<close>

text \<open>The log as a reader sees it: the entries \<open>get_entry\<close> returns between the two counters.\<close>

definition lm_log :: "'s log_storage_ops \<Rightarrow> 's log_manager \<Rightarrow> log_entry list" where
  "lm_log ops lm = List.map_filter (\<lambda>i. fst (lm_get_entry ops i lm)) [first_log_index lm..last_log_index lm]"

lemma map_filter_Some: "List.map_filter (\<lambda>i. Some (f i)) xs = map f xs"
  by (induction xs) (simp_all add: List.map_filter_simps)

lemma map_filter_cong: "(\<And>x. x \<in> set xs \<Longrightarrow> f x = g x) \<Longrightarrow> List.map_filter f xs = List.map_filter g xs"
  by (induction xs) (auto simp: List.map_filter_simps split: option.split)

lemma map_nth_upto: "map (\<lambda>i. L ! nat (i - a)) [a..a + int (length L) - 1] = L"
  by (rule nth_equalityI) simp_all

lemma mlm_log_eq:
  assumes "mlm_rep lm L"
  shows "lm_log memory_log_ops lm = L"
proof -
  have "lm_log memory_log_ops lm =
      List.map_filter (\<lambda>i. Some (L ! nat (i - first_log_index lm))) [first_log_index lm..last_log_index lm]"
    unfolding lm_log_def
    by (rule map_filter_cong) (simp add: mlog.rep_get_entry [OF assms])
  also have "\<dots> = map (\<lambda>i. L ! nat (i - first_log_index lm)) [first_log_index lm..last_log_index lm]"
    by (rule map_filter_Some)
  also have "last_log_index lm = first_log_index lm + int (length L) - 1"
    using assms by (simp add: lm_rep_def)
  finally show ?thesis by (simp only: map_nth_upto)
qed

subsection \<open>An example run\<close>

definition ex_cm :: conf_manager where
  "ex_cm = \<lparr>configurations = [], cm_snapshot = \<lparr>ce_id = LogId 0 0, ce_conf = {||}, ce_old_conf = {||}\<rparr>\<rparr>"

definition ex_lm_init :: "memory_log log_manager" where
  "ex_lm_init = snd (lm_init memory_log_ops (lm_new mem_new ex_cm))"

definition ex_lm_log :: "memory_log log_manager" where
  "ex_lm_log = fst (lm_append_entries memory_log_ops 1 [ex_entry 1 1, ex_entry 2 1, ex_entry 3 1] ex_lm_init)"

definition ex_lm_disk :: "memory_log log_manager" where
  "ex_lm_disk = fst (disk_thread memory_log_ops 16 1 ex_lm_log)"

definition ex_lm_merged :: "memory_log log_manager" where
  "ex_lm_merged = fst (lm_append_entries memory_log_ops 2 [ex_entry 2 1, ex_entry 3 2, ex_entry 4 2] ex_lm_disk)"

lemma ex_lm_reachable:
  "lm_reachable ex_lm_init" "lm_reachable ex_lm_log" "lm_reachable ex_lm_disk" "lm_reachable ex_lm_merged"
proof -
  show init: "lm_reachable ex_lm_init" unfolding ex_lm_init_def by (rule lm_reachable.init)
  have "follower_entries memory_log_ops ex_lm_init [ex_entry 1 1, ex_entry 2 1, ex_entry 3 1]" by code_simp
  from lm_reachable.step [OF init lm_step.follower [OF this]]
  show log: "lm_reachable ex_lm_log" unfolding ex_lm_log_def .
  have "\<forall>e \<in> set (logs_in_memory ex_lm_log). le_id e \<le> applied_id ex_lm_log \<longrightarrow>
      stable_at memory_log_ops (fst (disk_thread memory_log_ops 16 1 ex_lm_log)) (le_index e) e"
    by code_simp
  from lm_reachable.step [OF log lm_step.disk [OF this]]
  show disk: "lm_reachable ex_lm_disk" unfolding ex_lm_disk_def .
  have "follower_entries memory_log_ops ex_lm_disk [ex_entry 2 1, ex_entry 3 2, ex_entry 4 2]" by code_simp
  from lm_reachable.step [OF disk lm_step.follower [OF this]]
  show "lm_reachable ex_lm_merged" unfolding ex_lm_merged_def .
qed

subsection \<open>Properties\<close>

text \<open>
  C11: in every reachable state, entries of a leader that continue a matched position of
  the log are merged into it by the rule of the Raft paper: what agrees stays, the first
  entry with another term and everything behind it is replaced, the rest is appended, and
  the first index of the log does not move. Conflict search, truncation in memory and the
  queued truncation of the storage together implement that one rule.
\<close>

theorem follower_append_merges:
  assumes "lm_reachable lm" and "follower_entries memory_log_ops lm es"
  shows "lm_log memory_log_ops (fst (lm_append_entries memory_log_ops d es lm)) =
      merge_log (lm_log memory_log_ops lm) (nat (le_index (hd es) - first_log_index lm)) es \<and>
    check_consistency (fst (lm_append_entries memory_log_ops d es lm)) = 0"
proof -
  obtain L where rep: "mlm_rep lm L" and ok: "\<not> has_error lm" using lm_reachable_rep [OF assms(1)] by blast
  have "mlm_rep (fst (lm_append_entries memory_log_ops d es lm))
      (merge_log L (nat (le_index (hd es) - first_log_index lm)) es)"
    using assms(2) rep ok
    by (auto simp: follower_entries_def list_all_iff intro!: mlog.rep_append_follower)
  then show ?thesis by (simp add: mlm_log_eq rep mlm_log_eq [OF rep] mlog.rep_check_consistency)
qed

theorem follower_append_merges_witness:
  "follower_entries memory_log_ops ex_lm_disk [ex_entry 2 1, ex_entry 3 2, ex_entry 4 2] \<and>
   lm_log memory_log_ops ex_lm_merged = [ex_entry 1 1, ex_entry 2 1, ex_entry 3 2, ex_entry 4 2]"
proof -
  have f: "follower_entries memory_log_ops ex_lm_disk [ex_entry 2 1, ex_entry 3 2, ex_entry 4 2]" by code_simp
  have "merge_log (lm_log memory_log_ops ex_lm_disk)
      (nat (le_index (hd [ex_entry 2 1, ex_entry 3 2, ex_entry 4 2]) - first_log_index ex_lm_disk))
      [ex_entry 2 1, ex_entry 3 2, ex_entry 4 2] = [ex_entry 1 1, ex_entry 2 1, ex_entry 3 2, ex_entry 4 2]"
    by code_simp
  with f follower_append_merges [OF ex_lm_reachable(3) f, of 2] show ?thesis
    by (simp add: ex_lm_merged_def)
qed

text \<open>
  C12: entries of the local user get the next free indexes in order, keep their terms and
  data, and are readable behind the old log at once, before the disk thread has run.
\<close>

theorem leader_append_extends:
  assumes "lm_reachable lm" and "leader_entries es"
  shows "lm_log memory_log_ops (fst (lm_append_entries memory_log_ops d es lm)) =
      lm_log memory_log_ops lm @ with_indexes (last_log_index lm + 1) es"
proof -
  obtain L where rep: "mlm_rep lm L" and ok: "\<not> has_error lm" using lm_reachable_rep [OF assms(1)] by blast
  have "mlm_rep (fst (lm_append_entries memory_log_ops d es lm)) (L @ with_indexes (last_log_index lm + 1) es)"
    using assms(2) rep ok by (auto simp: leader_entries_def list_all_iff intro!: mlog.rep_append_leader)
  then show ?thesis by (simp add: mlm_log_eq mlm_log_eq [OF rep])
qed

theorem leader_append_extends_witness:
  "leader_entries [ex_entry 0 3, ex_entry 0 3] \<and>
   lm_log memory_log_ops (fst (lm_append_entries memory_log_ops 5 [ex_entry 0 3, ex_entry 0 3] ex_lm_merged)) =
     [ex_entry 1 1, ex_entry 2 1, ex_entry 3 2, ex_entry 4 2, ex_entry 5 3, ex_entry 6 3]"
proof -
  have l: "leader_entries [ex_entry 0 3, ex_entry 0 3]" by code_simp
  have "lm_log memory_log_ops ex_lm_merged @ with_indexes (last_log_index ex_lm_merged + 1)
      [ex_entry 0 3, ex_entry 0 3] =
    [ex_entry 1 1, ex_entry 2 1, ex_entry 3 2, ex_entry 4 2, ex_entry 5 3, ex_entry 6 3]" by code_simp
  with l leader_append_extends [OF ex_lm_reachable(4) l, of 5] show ?thesis by simp
qed

text \<open>
  C13: when the disk thread has worked off its queue, the storage holds exactly the readable
  log, which has not changed, and every closure that waited in the queue was run once, in
  the order of the queue and without an error. This holds for every buffer limit: how the
  closures are batched into calls of the storage makes no difference.
\<close>

theorem disk_thread_makes_stable:
  assumes "lm_reachable lm" and "length (disk_queue lm) \<le> n"
    and "disk_thread memory_log_ops max_append_buffer_size n lm = (lm', evs)"
  shows "log_entry_data (log_storage_st lm') = lm_log memory_log_ops lm \<and>
    mem_first_log_index (log_storage_st lm') = first_log_index lm \<and>
    lm_log memory_log_ops lm' = lm_log memory_log_ops lm \<and>
    filter is_ack evs = concat (map closure_done (disk_queue lm))"
proof -
  obtain L where rep: "mlm_rep lm L" and ok: "\<not> has_error lm" using lm_reachable_rep [OF assms(1)] by blast
  from mlog.disk_thread_drains [OF rep ok assms(2,3)]
  show ?thesis by (simp add: mlm_log_eq [OF rep] mlm_log_eq)
qed

theorem disk_thread_makes_stable_witness:
  "log_entry_data (log_storage_st (fst (disk_thread memory_log_ops 0 2 ex_lm_merged))) =
     [ex_entry 1 1, ex_entry 2 1, ex_entry 3 2, ex_entry 4 2] \<and>
   filter is_ack (snd (disk_thread memory_log_ops 0 2 ex_lm_merged)) = [DoneRun 2 0]"
proof -
  have q: "length (disk_queue ex_lm_merged) \<le> 2" by code_simp
  have "lm_log memory_log_ops ex_lm_merged = [ex_entry 1 1, ex_entry 2 1, ex_entry 3 2, ex_entry 4 2]"
    and "concat (map closure_done (disk_queue ex_lm_merged)) = [DoneRun 2 0]" by code_simp+
  with disk_thread_makes_stable [OF ex_lm_reachable(4) q prod.collapse [symmetric], of 0]
  show ?thesis by simp
qed

text \<open>
  C14: a new snapshot drops the whole log when it is ahead of it or contradicts it, and
  otherwise keeps the log from the last but one snapshot on; an old snapshot changes nothing.
  Afterwards \<^verbatim>\<open>check_consistency\<close> finds no gap between snapshot and log.
\<close>

theorem set_snapshot_cuts:
  assumes "lm_reachable lm" and "snapshot_fits lm meta"
  shows "lm_log memory_log_ops (lm_set_snapshot memory_log_ops meta lm) =
      snapshot_log lm meta (lm_log memory_log_ops lm) \<and>
    check_consistency (lm_set_snapshot memory_log_ops meta lm) = 0"
proof -
  obtain L where rep: "mlm_rep lm L" using lm_reachable_rep [OF assms(1)] by blast
  from mlog.rep_set_snapshot [OF rep assms(2)]
  show ?thesis by (simp add: mlm_log_eq mlm_log_eq [OF rep] mlog.rep_check_consistency)
qed

definition ex_meta :: "int \<Rightarrow> int \<Rightarrow> snapshot_meta" where
  "ex_meta i t = \<lparr>last_included_index = i, last_included_term = t, sm_peers = [], sm_old_peers = []\<rparr>"

theorem set_snapshot_cuts_witness:
  "snapshot_fits ex_lm_merged (ex_meta 9 2) \<and>
   lm_log memory_log_ops (lm_set_snapshot memory_log_ops (ex_meta 9 2) ex_lm_merged) = [] \<and>
   check_consistency (lm_set_snapshot memory_log_ops (ex_meta 9 2) ex_lm_merged) = 0"
proof -
  have f: "snapshot_fits ex_lm_merged (ex_meta 9 2)" by code_simp
  have "snapshot_log ex_lm_merged (ex_meta 9 2) (lm_log memory_log_ops ex_lm_merged) = []" by code_simp
  with f set_snapshot_cuts [OF ex_lm_reachable(4) f] show ?thesis by simp
qed



subsection \<open>Applied but not yet stable\<close>

text \<open>
  What happens when an entry is announced as applied before the disk thread has written it.
  The id up to which memory is cleared is the smaller of the disk id and the applied id, and
  ids compare by term first. Here the log on disk ends with an uncommitted entry of term 3;
  the leader replaces it by one of term 2, and before the disk thread runs the new entry is
  applied. It is dropped from memory although it is not on disk, and a reader gets the
  old entry back.
\<close>

definition stale_lm :: "memory_log log_manager" where
  "stale_lm =
     (let lm = fst (lm_append_entries memory_log_ops 1 [ex_entry 1 1, ex_entry 2 3] ex_lm_init);
          lm = fst (disk_thread memory_log_ops 16 1 lm)
      in fst (lm_append_entries memory_log_ops 2 [ex_entry 2 2, ex_entry 3 4] lm))"

theorem applied_before_stable_reads_stale_entry:
  "fst (lm_get_entry memory_log_ops 2 stale_lm) = Some (ex_entry 2 2) \<and>
   fst (lm_get_entry memory_log_ops 2 (set_applied_id (LogId 2 2) stale_lm)) = Some (ex_entry 2 3)"
  by code_simp

end
