(* ===== verification/Raft_Fsm_Runs.thy ===== *)
theory Raft_Fsm_Runs
  imports Raft_Fsm_Caller Raft_Log_Manager_Runs
begin

text \<open>
  The caller of the state machine on top of the log manager. Commits are collected in batches;
  whatever the batches are, the state machine sees the entries of the log one by one, in
  order and once, each with the closure its task was proposed with. After an error it sees
  nothing any more.
\<close>

subsection \<open>Batches of commits\<close>

definition memory_stable :: "'s log_storage_ops \<Rightarrow> 's log_manager \<Rightarrow> bool" where
  "memory_stable ops lm \<longleftrightarrow> (\<forall>e \<in> set (logs_in_memory lm). stable_at ops lm (le_index e) e)"

definition log_entry_at :: "'s log_storage_ops \<Rightarrow> 's log_manager \<Rightarrow> int \<Rightarrow> log_entry" where
  "log_entry_at ops lm i = the (fst (lm_get_entry ops i lm))"

lemma set_applied_id_frame [simp]:
  "first_log_index (set_applied_id i lm) = first_log_index lm"
  "last_log_index (set_applied_id i lm) = last_log_index lm"
  "log_storage_st (set_applied_id i lm) = log_storage_st lm"
  "disk_queue (set_applied_id i lm) = disk_queue lm"
  "set (logs_in_memory (set_applied_id i lm)) \<subseteq> set (logs_in_memory lm)"
  by (auto simp: set_applied_id_def Let_def clear_memory_logs_def clear_logs_eq dest: set_dropWhileD)

lemma set_applied_id_index:
  "index (applied_id lm) \<le> k \<Longrightarrow> index (applied_id (set_applied_id (LogId k t) lm)) \<le> k"
  by (simp add: set_applied_id_def Let_def clear_memory_logs_def)

lemma covers_mono: "covers q j \<Longrightarrow> i \<le> j \<Longrightarrow> covers q i"
  by (auto simp: covers_def)

lemma log_cong_ent:
  assumes "\<And>i. lo < i \<Longrightarrow> i \<le> hi \<Longrightarrow> ent i = ent' i"
  shows "apply_log sm ent clo lo hi m = apply_log sm ent' clo lo hi m"
    and "log_outputs ent clo lo hi = log_outputs ent' clo lo hi"
  using assms by (auto simp: apply_log_def log_outputs_def intro!: fold_cong arg_cong [where f = concat])

text \<open>Between two tasks: what has been applied is a prefix of the log beyond \<open>lo\<close>.\<close>

definition caught_up ::
  "('m, 'c) state_machine \<Rightarrow> log_entry list \<Rightarrow> (memory_log, 'c, 'm) fsm_caller \<Rightarrow> int \<Rightarrow>
     (memory_log, 'c, 'm) fsm_caller \<Rightarrow> bool" where
  "caught_up sm L fc0 hi fc \<longleftrightarrow>
     (let lm = fc_log_manager fc; ent = (\<lambda>i. L ! nat (i - first_log_index lm));
          clo = closure_at (fc_closure_queue fc0); lo = last_applied_index fc0; k = last_applied_index fc
      in error_ok fc \<and> lo \<le> k \<and> first_log_index lm \<le> k + 1 \<and> hi \<le> last_log_index lm \<and>
         mlm_rep lm L \<and> memory_stable memory_log_ops lm \<and> index (applied_id lm) \<le> k \<and>
         first_log_index lm = first_log_index (fc_log_manager fc0) \<and>
         fc_fsm fc = apply_log sm ent clo lo k (fc_fsm fc0) \<and> fc_out fc = fc_out fc0 @ log_outputs ent clo lo k \<and>
         (\<forall>j > k. closure_at (fc_closure_queue fc) j = clo j) \<and> covers (fc_closure_queue fc) hi)"

lemma caught_up_cur_task [simp]: "caught_up sm L fc0 hi (fc\<lparr>cur_task := t\<rparr>) = caught_up sm L fc0 hi fc"
  by (simp add: caught_up_def error_ok_def)

lemma do_committed_caught_up:
  assumes "caught_up sm L fc0 hi fc" and "no_rollback sm" and "c \<le> hi"
  shows "caught_up sm L fc0 hi (do_committed sm memory_log_ops c fc) \<and>
    last_applied_index (do_committed sm memory_log_ops c fc) = max (last_applied_index fc) c"
proof (cases "c \<le> last_applied_index fc")
  case True
  then show ?thesis using assms(1) by (simp add: do_committed_def)
next
  case False
  let ?lm = "fc_log_manager fc" and ?k = "last_applied_index fc" and ?lo = "last_applied_index fc0"
  let ?ent = "\<lambda>i. L ! nat (i - first_log_index ?lm)" and ?clo = "closure_at (fc_closure_queue fc0)"
  have ok: "error_ok fc" and lo: "?lo \<le> ?k" and first: "first_log_index ?lm \<le> ?k + 1" and last: "hi \<le> last_log_index ?lm"
    and rep: "mlm_rep ?lm L" and st: "memory_stable memory_log_ops ?lm" and app: "index (applied_id ?lm) \<le> ?k"
    and same: "first_log_index ?lm = first_log_index (fc_log_manager fc0)"
    and fsm: "fc_fsm fc = apply_log sm ?ent ?clo ?lo ?k (fc_fsm fc0)" "fc_out fc = fc_out fc0 @ log_outputs ?ent ?clo ?lo ?k"
    and clo: "\<forall>j > ?k. closure_at (fc_closure_queue fc) j = ?clo j" and cov: "covers (fc_closure_queue fc) hi"
    using assms(1) unfolding caught_up_def Let_def by blast+
  have rd: "readable memory_log_ops ?lm ?ent ?k c"
    using first last assms(3) by (auto simp: readable_def mlog.rep_get_entry [OF rep])
  obtain n q' where new: "do_committed sm memory_log_ops c fc = fc\<lparr>fc_closure_queue := q',
        fc_fsm := apply_log sm ?ent (closure_at (fc_closure_queue fc)) ?k c (fc_fsm fc),
        fc_out := fc_out fc @ log_outputs ?ent (closure_at (fc_closure_queue fc)) ?k c,
        fc_applying_index := n, last_applied_index := c,
        last_applied_term := lm_get_term memory_log_ops c ?lm,
        fc_log_manager := set_applied_id (LogId c (lm_get_term memory_log_ops c ?lm)) ?lm\<rparr>"
    and q': "\<And>j. c < j \<Longrightarrow> closure_at q' j = closure_at (fc_closure_queue fc) j"
      "\<And>j. c \<le> j \<Longrightarrow> covers (fc_closure_queue fc) j \<Longrightarrow> covers q' j"
    by (rule do_committed_applies [OF ok _ assms(2) rd covers_mono [OF cov assms(3)]])
      (use False in \<open>auto intro: that\<close>)
  let ?lm' = "set_applied_id (LogId c (lm_get_term memory_log_ops c ?lm)) ?lm"
  have rep': "mlm_rep ?lm' L"
    using app False st by (intro mlog.rep_set_applied_id [OF rep]) (auto simp: memory_stable_def)
  have st': "memory_stable memory_log_ops ?lm'"
    using st set_applied_id_frame(5) unfolding memory_stable_def stable_at_def by fastforce
  have app': "index (applied_id ?lm') \<le> c" using app False by (intro set_applied_id_index) simp
  have eqs: "apply_log sm ?ent (closure_at (fc_closure_queue fc)) ?k c (fc_fsm fc) = apply_log sm ?ent ?clo ?lo c (fc_fsm fc0)"
    "fc_out fc @ log_outputs ?ent (closure_at (fc_closure_queue fc)) ?k c = fc_out fc0 @ log_outputs ?ent ?clo ?lo c"
    using clo False log_split(1) [of ?lo ?k c sm ?ent ?clo "fc_fsm fc0"] log_split(2) [of ?lo ?k c ?ent ?clo] lo fsm
      log_cong [of ?k c "closure_at (fc_closure_queue fc)" ?clo] by simp_all
  have "caught_up sm L fc0 hi (do_committed sm memory_log_ops c fc)"
    unfolding caught_up_def Let_def new
    using ok lo False first last assms(3) rep' st' app' same eqs clo q' cov by (simp add: error_ok_def)
  then show ?thesis using False by (simp add: new)
qed

lemma run_tasks_caught_up:
  assumes "no_rollback sm"
  shows "caught_up sm L fc0 hi fc \<Longrightarrow> mx \<le> hi \<Longrightarrow> \<forall>c \<in> set cs. c \<le> hi \<Longrightarrow>
    0 \<le> last_applied_index fc \<Longrightarrow> -1 \<le> mx \<Longrightarrow>
    caught_up sm L fc0 hi (run_tasks sm memory_log_ops batch mx n (map CommittedTask cs) fc) \<and>
    last_applied_index fc \<le> last_applied_index (run_tasks sm memory_log_ops batch mx n (map CommittedTask cs) fc) \<and>
    last_applied_index (run_tasks sm memory_log_ops batch mx n (map CommittedTask cs) fc)
      \<in> insert (last_applied_index fc) (insert mx (set cs)) \<and>
    (length cs + n \<le> batch \<longrightarrow>
      last_applied_index (run_tasks sm memory_log_ops batch mx n (map CommittedTask cs) fc) =
        foldl max (max (last_applied_index fc) mx) cs)"
proof (induction cs arbitrary: mx n fc)
  case Nil
  then show ?case
    using do_committed_caught_up [of sm L fc0 hi "fc\<lparr>cur_task := COMMITTED\<rparr>" mx, OF _ assms]
    by (auto simp: flush_committed_def)
next
  case (Cons c cs)
  note fl = do_committed_caught_up [of sm L fc0 hi "fc\<lparr>cur_task := COMMITTED\<rparr>" mx, OF _ assms]
  show ?case
  proof (cases "n < batch")
    case True
    show ?thesis
    proof (cases "mx < c")
      case True
      then show ?thesis using Cons.IH [of fc c "n + 1"] Cons.prems \<open>n < batch\<close> by (auto simp: max_def)
    next
      case False
      then show ?thesis using Cons.IH [of fc mx n] Cons.prems \<open>n < batch\<close> by (auto simp: max_def)
    qed
  next
    case False
    show ?thesis
    proof (cases "0 \<le> mx")
      case True
      then show ?thesis
        using Cons.IH [of "flush_committed sm memory_log_ops mx fc" "-1" 0] Cons.prems fl False
        by (auto simp: flush_committed_def max_def split: if_splits)
    next
      case mx: False
      then show ?thesis using Cons.IH [of fc mx n] Cons.prems False by auto
    qed
  qed
qed

subsection \<open>After an error\<close>

fun is_applied :: "'c fsm_output \<Rightarrow> bool" where
  "is_applied (Applied _ _ _) = True"
| "is_applied _ = False"

lemma run_task_error:
  assumes "\<not> error_ok fc"
  shows "fc_error (run_task sm t fc) = fc_error fc"
    and "last_applied_index (run_task sm t fc) = last_applied_index fc"
    and "filter is_applied (fc_out (run_task sm t fc)) = filter is_applied (fc_out fc)"
  using assms
  by (cases t; auto simp: run_task_def pass_by_status_def error_ok_def emit_def tell_fsm_def set_error_def Let_def
      split: option.splits)+

lemma flush_committed_error:
  assumes "\<not> error_ok fc"
  shows "fc_error (flush_committed sm ops mx fc) = fc_error fc"
    and "last_applied_index (flush_committed sm ops mx fc) = last_applied_index fc"
    and "fc_out (flush_committed sm ops mx fc) = fc_out fc"
  using assms by (simp_all add: flush_committed_def do_committed_def error_ok_def)

lemma run_tasks_error:
  "\<not> error_ok fc \<Longrightarrow>
     fc_error (run_tasks sm ops batch mx n ts fc) = fc_error fc \<and>
     last_applied_index (run_tasks sm ops batch mx n ts fc) = last_applied_index fc \<and>
     filter is_applied (fc_out (run_tasks sm ops batch mx n ts fc)) = filter is_applied (fc_out fc)"
proof (induction sm ops batch mx n ts fc rule: run_tasks.induct)
  case (1 sm ops batch mx n fc)
  then show ?case by (simp add: flush_committed_error)
next
  case (2 sm ops batch mx n t ts fc)
  have fl: "\<not> error_ok (flush_committed sm ops mx fc)"
    using 2 by (simp add: error_ok_def flush_committed_error)
  have "\<not> error_ok (run_task sm t (flush_committed sm ops mx fc))"
    using fl by (simp add: error_ok_def run_task_error)
  with 2 fl show ?case
    by (cases t) (simp_all add: Let_def flush_committed_error run_task_error)
qed

subsection \<open>A commit that meets a full batch\<close>

lemma run_tasks_collect:
  "sorted_wrt (<) (mx # cs) \<Longrightarrow> n + length cs \<le> batch \<Longrightarrow>
     run_tasks sm ops batch mx n (map CommittedTask cs @ ts) fc =
     run_tasks sm ops batch (last (mx # cs)) (n + length cs) ts fc"
  by (induction cs arbitrary: mx n) auto

subsection \<open>An example\<close>

definition ex_sm :: "((int \<times> nat option) list, nat) state_machine" where
  "ex_sm = \<lparr>sm_on_apply = (\<lambda>i e c m. (if i mod 2 = 0 then Return else GoOn, m @ [(i, c)])),
     sm_on_configuration_committed = (\<lambda>_ _ m. m), sm_on_snapshot_save = (\<lambda>m. m), sm_on_snapshot_load = (\<lambda>_ m. (0, m)),
     sm_on_leader_start = (\<lambda>_ m. m), sm_on_leader_stop = (\<lambda>_ m. m), sm_on_start_following = (\<lambda>_ _ _ m. m),
     sm_on_stop_following = (\<lambda>_ _ _ m. m), sm_on_error = (\<lambda>_ m. m), sm_on_shutdown = (\<lambda>m. m)\<rparr>"

definition ex_fc :: "(memory_log, nat, (int \<times> nat option) list) fsm_caller" where
  "ex_fc = fsm_caller_new ex_lm_disk [] \<lparr>cq_first_index = 2, cq_queue = [Some 7, None]\<rparr> (LogId 0 0) False True"

lemma ex_fc_ok:
  "lm_reachable (fc_log_manager ex_fc)" "memory_stable memory_log_ops (fc_log_manager ex_fc)" "error_ok ex_fc"
  "no_rollback ex_sm" "0 \<le> last_applied_index ex_fc"
  "first_log_index (fc_log_manager ex_fc) \<le> last_applied_index ex_fc + 1"
  "index (applied_id (fc_log_manager ex_fc)) \<le> last_applied_index ex_fc"
  "last_log_index (fc_log_manager ex_fc) = 3" "covers (fc_closure_queue ex_fc) 3"
proof -
  show "lm_reachable (fc_log_manager ex_fc)" using ex_lm_reachable(3) by (simp add: ex_fc_def fsm_caller_new_def)
  show "no_rollback ex_sm" by (simp add: no_rollback_def ex_sm_def)
qed code_simp+

subsection \<open>Properties\<close>

text \<open>
  C36: a round of commits, however they are batched, hands the entries of the log to the state
  machine one by one from the first that was not applied up to one of the committed indexes,
  in order and exactly once, each together with the closure its task was proposed with, and
  runs the closures of the entries that are not for the state machine. It makes no difference
  where the state machine returns from \<^verbatim>\<open>on_apply\<close>. The last committed index is reached when the
  round has no more commits than a batch.
\<close>

theorem committed_entries_applied_once:
  assumes "lm_reachable (fc_log_manager fc)" and "memory_stable memory_log_ops (fc_log_manager fc)"
    and "error_ok fc" and "no_rollback sm" and "0 \<le> last_applied_index fc"
    and "first_log_index (fc_log_manager fc) \<le> last_applied_index fc + 1"
    and "index (applied_id (fc_log_manager fc)) \<le> last_applied_index fc"
    and "last_applied_index fc \<le> hi"
    and "hi \<le> last_log_index (fc_log_manager fc)" and "covers (fc_closure_queue fc) hi"
    and "\<forall>c \<in> set cs. c \<le> hi"
    and "fc' = fsm_run sm memory_log_ops batch (Some (map CommittedTask cs)) fc"
  shows "fc_fsm fc' = apply_log sm (log_entry_at memory_log_ops (fc_log_manager fc)) (closure_at (fc_closure_queue fc))
           (last_applied_index fc) (last_applied_index fc') (fc_fsm fc) \<and>
    fc_out fc' = fc_out fc @ log_outputs (log_entry_at memory_log_ops (fc_log_manager fc))
           (closure_at (fc_closure_queue fc)) (last_applied_index fc) (last_applied_index fc') \<and>
    last_applied_index fc' \<in> insert (last_applied_index fc) (set cs) \<and>
    (length cs \<le> batch \<longrightarrow> last_applied_index fc' = foldl max (last_applied_index fc) cs)"
proof -
  let ?lm = "fc_log_manager fc" and ?lo = "last_applied_index fc"
  obtain L where rep: "mlm_rep ?lm L" using lm_reachable_rep [OF assms(1)] by blast
  have cu: "caught_up sm L fc hi fc"
    using assms(2-3,6-10) rep by (simp add: caught_up_def)
  have *: "caught_up sm L fc hi fc'" "?lo \<le> last_applied_index fc'"
    "last_applied_index fc' \<in> insert ?lo (insert (-1) (set cs))"
    "length cs \<le> batch \<Longrightarrow> last_applied_index fc' = foldl max (max ?lo (-1)) cs"
    using run_tasks_caught_up [OF assms(4) cu _ assms(11) assms(5), of "-1" batch 0] assms(5,8)
    unfolding assms(12) fsm_run_def by auto
  then have in_log: "last_applied_index fc' \<in> insert ?lo (set cs)" using assms(5) by auto
  then have hi: "last_applied_index fc' \<le> hi" using assms(8,11) by auto
  let ?ent = "\<lambda>i. L ! nat (i - first_log_index ?lm)"
  have ent: "?ent i = log_entry_at memory_log_ops ?lm i" if "?lo < i" "i \<le> last_applied_index fc'" for i
    using that hi assms(6,9) by (simp add: log_entry_at_def mlog.rep_get_entry [OF rep])
  have "fc_fsm fc' = apply_log sm ?ent (closure_at (fc_closure_queue fc)) ?lo (last_applied_index fc') (fc_fsm fc)"
    "fc_out fc' = fc_out fc @ log_outputs ?ent (closure_at (fc_closure_queue fc)) ?lo (last_applied_index fc')"
    using *(1) by (simp_all add: caught_up_def Let_def)
  then show ?thesis using in_log *(4) assms(5) by (simp add: log_cong_ent [OF ent])
qed

theorem committed_entries_applied_once_witness:
  "fc_fsm (fsm_run ex_sm memory_log_ops 32 (Some (map CommittedTask [1, 3, 2])) ex_fc)
     = [(1, None), (2, Some 7), (3, None)]"
proof -
  have "foldl max (last_applied_index ex_fc) [1, 3, 2] = 3" by code_simp
  moreover have "apply_log ex_sm (log_entry_at memory_log_ops (fc_log_manager ex_fc)) (closure_at (fc_closure_queue ex_fc))
      (last_applied_index ex_fc) 3 (fc_fsm ex_fc) = [(1, None), (2, Some 7), (3, None)]"
    by code_simp
  moreover have "last_applied_index ex_fc \<le> 3" by code_simp
  ultimately show ?thesis
    using committed_entries_applied_once [OF ex_fc_ok(1-7), of 3 "[1, 3, 2]" _ 32, OF _ _ ex_fc_ok(9) _ refl] ex_fc_ok(8)
    by simp
qed

text \<open>
  C37: once the caller is in error, no task of any kind makes the state machine see another
  entry, moves the applied index, or replaces the error.
\<close>

theorem error_stops_applying:
  assumes "\<not> error_ok fc"
  shows "fc_error (fsm_run sm ops batch (Some ts) fc) = fc_error fc \<and>
    last_applied_index (fsm_run sm ops batch (Some ts) fc) = last_applied_index fc \<and>
    filter is_applied (fc_out (fsm_run sm ops batch (Some ts) fc)) = filter is_applied (fc_out fc)"
  using run_tasks_error [OF assms] by (simp add: fsm_run_def)

theorem error_stops_applying_witness:
  "last_applied_index (fsm_run ex_sm memory_log_ops 32 (Some [CommittedTask 2, ErrorTask (ERROR_TYPE_LOG, 5), CommittedTask 3])
     (set_error ex_sm (ERROR_TYPE_STATE_MACHINE, 1) ex_fc)) = 0"
proof -
  have "\<not> error_ok (set_error ex_sm (ERROR_TYPE_STATE_MACHINE, 1) ex_fc)"
    and "last_applied_index (set_error ex_sm (ERROR_TYPE_STATE_MACHINE, 1) ex_fc) = 0" by code_simp+
  then show ?thesis using error_stops_applying [of "set_error ex_sm (ERROR_TYPE_STATE_MACHINE, 1) ex_fc"] by simp
qed

text \<open>
  C38: the commit that comes when a batch is full is lost. A round with one commit more than a batch
  takes ends with the last index of the batch applied, although the last task says that a
  later index is committed; the entries behind stay unapplied until another commit arrives.
\<close>

theorem commit_after_full_batch_is_lost:
  assumes "lm_reachable (fc_log_manager fc)" and "memory_stable memory_log_ops (fc_log_manager fc)"
    and "error_ok fc" and "no_rollback sm" and "0 \<le> last_applied_index fc"
    and "first_log_index (fc_log_manager fc) \<le> last_applied_index fc + 1"
    and "index (applied_id (fc_log_manager fc)) \<le> last_applied_index fc"
    and "sorted_wrt (<) (last_applied_index fc # cs @ [c])" and "cs \<noteq> []" and "length cs = batch"
    and "c \<le> last_log_index (fc_log_manager fc)" and "covers (fc_closure_queue fc) c"
  shows "last_applied_index (fsm_run sm memory_log_ops batch (Some (map CommittedTask (cs @ [c]))) fc) = last cs \<and>
    last cs < c"
proof -
  obtain L where rep: "mlm_rep (fc_log_manager fc) L" using lm_reachable_rep [OF assms(1)] by blast
  have lt: "last_applied_index fc < last cs" "last cs < c"
    using assms(8,9) last_in_set [OF assms(9)] by (auto simp: sorted_wrt_append)
  have "caught_up sm L fc c fc" using assms(2-3,6-8,11,12) rep by (simp add: caught_up_def sorted_wrt_append)
  then have "last_applied_index (do_committed sm memory_log_ops (last cs) (fc\<lparr>cur_task := COMMITTED\<rparr>)) = last cs"
    using do_committed_caught_up [of sm L fc c "fc\<lparr>cur_task := COMMITTED\<rparr>" "last cs"] assms(4) lt by simp
  moreover have "sorted_wrt (<) (-1 # cs)" using assms(5,8) by (auto simp: sorted_wrt_append)
  ultimately show ?thesis using lt assms(5,9,10) run_tasks_collect [of "-1" cs 0 batch sm memory_log_ops "[CommittedTask c]" fc]
    by (simp add: fsm_run_def flush_committed_def)
qed

theorem commit_after_full_batch_is_lost_witness:
  "last_applied_index (fsm_run ex_sm memory_log_ops 2 (Some (map CommittedTask ([1, 2] @ [3]))) ex_fc) = 2"
proof -
  have "sorted_wrt (<) (last_applied_index ex_fc # [1, 2] @ [3])" by code_simp
  then show ?thesis
    using commit_after_full_batch_is_lost [OF ex_fc_ok(1-7), of "[1, 2]" 3 2] ex_fc_ok(8,9) by simp
qed

end
