(* ===== verification/Noah_Lb_Key.thy ===== *)
theory Noah_Lb_Key
  imports Nori_Prelude
begin

text \<open>
  The keys of the LevelDB store: \<^verbatim>\<open>EncodeLbKey\<close> and \<^verbatim>\<open>DecodeLbKey\<close> of
  \<^verbatim>\<open>noah/common/util.cc\<close>. A data key is the byte 1, the length of the table name as one
  byte, the table name, the partition id as the four bytes of a little-endian
  \<^verbatim>\<open>int\<close>, and the user's key.
\<close>

subsection \<open>Bytes of an int\<close>

text \<open>\<^verbatim>\<open>memcpy\<close> of an \<^verbatim>\<open>int\<close> on a little-endian machine, in both directions.\<close>

definition int_bytes :: "int \<Rightarrow> string" where
  "int_bytes i = (let n = nat (i mod 4294967296)
     in [char_of n, char_of (n div 256), char_of (n div 256 div 256), char_of (n div 256 div 256 div 256)])"

fun bytes_int :: "string \<Rightarrow> int" where
  "bytes_int [a, b, c, d] =
     to_int32 (int (of_char a + 256 * (of_char b + 256 * (of_char c + 256 * of_char d))))"
| "bytes_int _ = 0"

lemma length_int_bytes [simp]: "length (int_bytes i) = 4"
  by (simp add: int_bytes_def Let_def)

lemma bytes_int_of_int_bytes [simp]:
  assumes "in_int32 i"
  shows "bytes_int (int_bytes i) = i"
proof -
  define n where "n = nat (i mod 4294967296)"
  have "n < 256 * 256 * 256 * 256" by (simp add: n_def nat_less_iff)
  then have q: "n div 256 div 256 div 256 mod 256 = n div 256 div 256 div 256"
    by (simp add: less_mult_imp_div_less div_mult2_eq [symmetric] del: div_mult2_eq)
  have "bytes_int (int_bytes i) = to_int32 (int n)"
    unfolding int_bytes_def n_def [symmetric] Let_def bytes_int.simps of_char_of q
    by (simp only: mod_mult_div_eq)
  also have "\<dots> = i" using assms by (simp add: n_def to_int32_def in_int32_def mod_simps)
  finally show ?thesis .
qed

lemma div_256: "a < 256 \<Longrightarrow> (a + 256 * b) div 256 = b" "a < 256 \<Longrightarrow> (a + 256 * b) mod 256 = a" for a b :: nat
  by simp_all

lemma int_bytes_of_bytes_int:
  assumes "length s = 4"
  shows "int_bytes (bytes_int s) = s" and "in_int32 (bytes_int s)"
proof -
  obtain a b c d where s: "s = [a, b, c, d]"
    using assms by (auto simp: eval_nat_numeral length_Suc_conv)
  define n2 :: nat where "n2 = of_char c + 256 * of_char d"
  define n1 where "n1 = of_char b + 256 * n2"
  define n where "n = of_char a + 256 * n1"
  have bounds: "of_char x < (256 :: nat)" for x :: char by simp
  have "n2 < 65536" unfolding n2_def using bounds [of c] bounds [of d] by linarith
  then have "n1 < 16777216" unfolding n1_def using bounds [of b] by linarith
  then have "n < 4294967296" unfolding n_def using bounds [of a] by linarith
  then have "nat (to_int32 (int n) mod 4294967296) = n"
    by (simp add: to_int32_def mod_simps)
  moreover have "bytes_int s = to_int32 (int n)" by (simp add: s n_def n1_def n2_def)
  moreover have "n div 256 = n1" "n1 div 256 = n2" "n2 div 256 = of_char d"
    unfolding n_def n1_def n2_def by (rule div_256(1), simp)+
  moreover have "char_of n = a" "char_of n1 = b" "char_of n2 = c"
    unfolding n_def n1_def n2_def by (subst char_of_mod_256 [symmetric], subst div_256(2), simp, simp)+
  ultimately show "int_bytes (bytes_int s) = s" by (simp add: int_bytes_def Let_def s)
  show "in_int32 (bytes_int s)" by (simp add: s)
qed

subsection \<open>Encoding and decoding\<close>

datatype key_type = kMeta | kKey | other_key_type char

text \<open>The one-byte \<^verbatim>\<open>key_type\<close> argument by its value.\<close>

definition meta_byte :: char where "meta_byte = CHR 0x00"

definition key_byte :: char where "key_byte = CHR 0x01"

definition key_type_of :: "char \<Rightarrow> key_type" where
  "key_type_of c = (if c = meta_byte then kMeta else if c = key_byte then kKey else other_key_type c)"

text \<open>\<^verbatim>\<open>std::string(const char*)\<close> reads up to the first zero byte.\<close>

definition c_string :: "string \<Rightarrow> string" where
  "c_string data = takeWhile (\<lambda>c. c \<noteq> CHR 0x00) data"

text \<open>The result is the returned flag and the value the out-parameter is left with.\<close>

definition EncodeLbKey :: "string \<Rightarrow> string \<Rightarrow> int \<Rightarrow> char \<Rightarrow> string \<Rightarrow> bool \<times> string" where
  "EncodeLbKey key table_name i kt encode_key =
     (if key = [] \<or> length table_name > 255 then (False, encode_key)
      else case key_type_of kt of
        kMeta \<Rightarrow> (True, c_string (kt # key))
      | kKey \<Rightarrow>
          (let table_name_size = length table_name mod 256
           in (True, [kt, char_of table_name_size] @ take table_name_size table_name @ int_bytes i @ key))
      | other_key_type _ \<Rightarrow> (False, []))"

record decoded_key =
  dk_table_name :: string
  dk_id :: int
  dk_key_type :: char
  dk_decode_key :: string

definition DecodeLbKey :: "string \<Rightarrow> char \<Rightarrow> bool \<times> decoded_key" where
  "DecodeLbKey key kt0 =
     (let out = \<lparr>dk_table_name = [], dk_id = -1, dk_key_type = kt0, dk_decode_key = []\<rparr>
      in if key = [] \<or> length key \<le> 1 then (False, out)
         else
           let kt = key ! 0; out = out\<lparr>dk_key_type := kt\<rparr>
           in case key_type_of kt of
                kMeta \<Rightarrow>
                  (let out = out\<lparr>dk_decode_key := drop 1 key\<rparr>
                   in if dk_decode_key out = [] then (False, out) else (True, out))
              | kKey \<Rightarrow>
                  (if length key < 2 then (False, out)
                   else let table_name_size = of_char (key ! 1)
                        in if length key < 2 + table_name_size + 4 then (False, out)
                           else (True, out\<lparr>dk_table_name := take table_name_size (drop 2 key),
                                           dk_id := bytes_int (take 4 (drop (2 + table_name_size) key)),
                                           dk_decode_key := drop (2 + table_name_size + 4) key\<rparr>))
              | other_key_type _ \<Rightarrow> (False, out))"

lemma key_type_of_key_byte [simp]: "key_type_of key_byte = kKey"
  by (simp add: key_type_of_def key_byte_def meta_byte_def)

lemma key_type_of_kKey: "key_type_of c = kKey \<longleftrightarrow> c = key_byte"
  by (auto simp: key_type_of_def key_byte_def meta_byte_def)

lemma drop_header: "drop (6 + n) (a # b # rest) = drop (n + 4) rest"
  by (simp add: eval_nat_numeral)

lemma EncodeLbKey_kKey:
  assumes "key \<noteq> []" and "length table_name \<le> 255"
  shows "EncodeLbKey key table_name i key_byte old =
    (True, [key_byte, char_of (length table_name)] @ table_name @ int_bytes i @ key)"
  using assms by (simp add: EncodeLbKey_def Let_def)

lemma DecodeLbKey_kKey:
  assumes "length t \<le> 255"
  shows "DecodeLbKey ([key_byte, char_of (length t)] @ t @ int_bytes i @ key) kt0 =
    (True, \<lparr>dk_table_name = t, dk_id = bytes_int (int_bytes i), dk_key_type = key_byte,
            dk_decode_key = key\<rparr>)"
  using assms by (simp add: DecodeLbKey_def Let_def drop_header)

text \<open>
  C16: a data key that was encoded decodes to the table name, partition id and user key it
  was made from, for every table name the encoder accepts and every \<^verbatim>\<open>int\<close> as id.
\<close>

theorem lb_key_round_trip:
  assumes "key \<noteq> []" and "length table_name \<le> 255" and "in_int32 i"
  shows "DecodeLbKey (snd (EncodeLbKey key table_name i key_byte old)) kt0 =
    (True, \<lparr>dk_table_name = table_name, dk_id = i, dk_key_type = key_byte, dk_decode_key = key\<rparr>)"
  using assms by (simp add: EncodeLbKey_kKey DecodeLbKey_kKey del: append.simps)

theorem lb_key_round_trip_witness:
  "in_int32 (-3) \<and>
   DecodeLbKey (snd (EncodeLbKey ''k'' ''users'' (-3) key_byte [])) CHR ''x'' =
     (True, \<lparr>dk_table_name = ''users'', dk_id = -3, dk_key_type = key_byte, dk_decode_key = ''k''\<rparr>)"
proof -
  have "in_int32 (-3)" by (simp add: in_int32_def)
  with lb_key_round_trip [of "''k''" "''users''" "-3" "[]" "CHR ''x''"] show ?thesis by simp
qed

text \<open>
  C17: every byte string that decodes as a data key with a non-empty user key is the encoding
  of what it decodes to, so two different keys of the store never stand for the same record.
\<close>

theorem lb_key_decode_encode:
  assumes "DecodeLbKey bytes kt0 = (True, d)" and "dk_key_type d = key_byte" and "dk_decode_key d \<noteq> []"
  shows "EncodeLbKey (dk_decode_key d) (dk_table_name d) (dk_id d) key_byte old = (True, bytes)"
proof -
  have len: "length bytes > 1" using assms(1) by (auto simp: DecodeLbKey_def Let_def split: if_splits)
  then obtain a b rest where bytes: "bytes = a # b # rest" by (cases bytes; cases "tl bytes") auto
  have a: "a = key_byte"
    using assms bytes by (auto simp: DecodeLbKey_def Let_def split: if_splits key_type.splits)
  let ?n = "of_char b :: nat"
  have n: "?n + 4 \<le> length rest" and d: "d = \<lparr>dk_table_name = take ?n rest,
      dk_id = bytes_int (take 4 (drop ?n rest)), dk_key_type = key_byte, dk_decode_key = drop (?n + 4) rest\<rparr>"
    using assms bytes a by (auto simp: DecodeLbKey_def Let_def drop_header split: if_splits)
  have "?n < 256" by (rule nat_of_char_less_256)
  then have "length (take ?n rest) = ?n" "length (take ?n rest) \<le> 255" using n unfolding length_take by linarith+
  moreover have "int_bytes (bytes_int (take 4 (drop ?n rest))) = take 4 (drop ?n rest)"
    using n by (intro int_bytes_of_bytes_int) simp
  moreover have "take ?n rest @ take 4 (drop ?n rest) @ drop (?n + 4) rest = rest"
    by (metis add.commute append_take_drop_id drop_drop)
  ultimately show ?thesis using assms(3) d bytes a by (simp add: EncodeLbKey_kKey)
qed

theorem lb_key_decode_encode_witness:
  "DecodeLbKey [key_byte, CHR 0x01, CHR ''t'', CHR 0x07, CHR 0x00,
       CHR 0x00, CHR 0x00, CHR ''k''] CHR ''x'' =
     (True, \<lparr>dk_table_name = ''t'', dk_id = 7, dk_key_type = key_byte, dk_decode_key = ''k''\<rparr>) \<and>
   EncodeLbKey ''k'' ''t'' 7 key_byte [] = (True, [key_byte, CHR 0x01, CHR ''t'',
       CHR 0x07, CHR 0x00, CHR 0x00, CHR 0x00, CHR ''k''])"
proof -
  have d: "DecodeLbKey [key_byte, CHR 0x01, CHR ''t'', CHR 0x07, CHR 0x00,
       CHR 0x00, CHR 0x00, CHR ''k''] CHR ''x'' =
     (True, \<lparr>dk_table_name = ''t'', dk_id = 7, dk_key_type = key_byte, dk_decode_key = ''k''\<rparr>)"
    by code_simp
  with lb_key_decode_encode [OF d, of "[]"] show ?thesis by simp
qed

text \<open>A meta key comes out empty, whatever the user's key: the type byte of a meta key is
  the terminator at which the conversion from a C string stops.\<close>

theorem encode_meta_key_is_empty:
  "key \<noteq> [] \<Longrightarrow> length table_name \<le> 255 \<Longrightarrow>
   EncodeLbKey key table_name i meta_byte old = (True, [])"
  by (simp add: EncodeLbKey_def key_type_of_def c_string_def meta_byte_def)

end
