(* ===== verification/Noah_Cache.thy ===== *)
theory Noah_Cache
  imports Nori_Prelude
begin

text \<open>
  \<^verbatim>\<open>class Cache\<close> (\<^verbatim>\<open>noah/node/cache.h\<close>, \<^verbatim>\<open>noah/node/cache.cc\<close>): the hash map of one
  partition with expiry times inside the stored values.

  The stored bytes of a value are made by protobuf; \<open>ser\<close> and \<open>par\<close> stand for
  \<^verbatim>\<open>SerializeAsString\<close> and \<^verbatim>\<open>ParseFromString\<close> of the message \<^verbatim>\<open>ValueInfo\<close>, and the
  properties assume that parsing gives back what was serialised. \<open>rh\<close> is the rearrangement
  of the hash map when a new key goes in. The clock is an argument, in seconds, already
  narrowed to \<^verbatim>\<open>int32_t\<close>. The lock of the class makes every operation atomic; the rounds of
  \<^verbatim>\<open>CheckExpired\<close> release it in between, and the model runs them without interference.
\<close>

record value_info =
  vi_value :: string
  vi_expired :: int

record 'w cache =
  c_expired :: bool
  c_key_values :: "(string, 'w) umap"

record list_info =
  li_offset :: int
  li_size :: int
  li_offset_key :: string

definition empty_value_info :: value_info where
  "empty_value_info = \<lparr>vi_value = [], vi_expired = 0\<rparr>"

definition Cache_new :: "'w cache" where
  "Cache_new = \<lparr>c_expired = False, c_key_values = []\<rparr>"

definition vi_dead :: "int \<Rightarrow> value_info \<Rightarrow> bool" where
  "vi_dead current_time v \<longleftrightarrow> vi_expired v \<noteq> 0 \<and> vi_expired v \<le> current_time"

definition Cache_Get :: "('w \<Rightarrow> value_info) \<Rightarrow> int \<Rightarrow> string list \<Rightarrow> 'w cache \<Rightarrow> string list" where
  "Cache_Get par current_time keys c =
     map (\<lambda>value. case map_of (c_key_values c) value of
            Some w \<Rightarrow> (if vi_dead current_time (par w) then [] else vi_value (par w))
          | None \<Rightarrow> []) keys"

text \<open>One message object is filled for all pairs: its expiry time is set once.\<close>

definition Cache_Set ::
  "(value_info \<Rightarrow> 'w) \<Rightarrow> ((string \<times> 'w) list \<Rightarrow> (string \<times> 'w) list) \<Rightarrow> int
     \<Rightarrow> (string \<times> string) list \<Rightarrow> int \<Rightarrow> 'w cache \<Rightarrow> 'w cache" where
  "Cache_Set ser rh current_time key_values ttl c =
     (let (value_info, c) =
        (if ttl > 0
         then (empty_value_info\<lparr>vi_expired := to_int32 (current_time + ttl)\<rparr>, c\<lparr>c_expired := True\<rparr>)
         else (empty_value_info, c))
      in foldl (\<lambda>c value. c\<lparr>c_key_values :=
                 umap_put rh (fst value) (ser (value_info\<lparr>vi_value := snd value\<rparr>)) (c_key_values c)\<rparr>)
           c key_values)"

definition set_with_ttl ::
  "(value_info \<Rightarrow> 'w) \<Rightarrow> ((string \<times> 'w) list \<Rightarrow> (string \<times> 'w) list) \<Rightarrow> int
     \<Rightarrow> 'w cache \<Rightarrow> (string \<times> string) \<times> int \<Rightarrow> 'w cache" where
  "set_with_ttl ser rh current_time = (\<lambda>c (value, ttl).
     let (value_info, c) =
       (if ttl > 0
        then (empty_value_info\<lparr>vi_expired := to_int32 (current_time + ttl)\<rparr>, c\<lparr>c_expired := True\<rparr>)
        else (empty_value_info, c))
     in c\<lparr>c_key_values :=
          umap_put rh (fst value) (ser (value_info\<lparr>vi_value := snd value\<rparr>)) (c_key_values c)\<rparr>)"

definition Cache_Set_vec ::
  "(value_info \<Rightarrow> 'w) \<Rightarrow> ((string \<times> 'w) list \<Rightarrow> (string \<times> 'w) list) \<Rightarrow> int
     \<Rightarrow> (string \<times> string) list \<Rightarrow> int list \<Rightarrow> 'w cache \<Rightarrow> bool \<times> 'w cache" where
  "Cache_Set_vec ser rh current_time key_values ttl_vec c =
     (if length key_values \<noteq> length ttl_vec then (False, c)
      else (True, foldl (set_with_ttl ser rh current_time) c (zip key_values ttl_vec)))"

definition Cache_Del :: "string list \<Rightarrow> 'w cache \<Rightarrow> 'w cache" where
  "Cache_Del keys c = foldl (\<lambda>c key. c\<lparr>c_key_values := umap_erase key (c_key_values c)\<rparr>) c keys"

definition Cache_Migrate ::
  "((string \<times> 'w) list \<Rightarrow> (string \<times> 'w) list) \<Rightarrow> (string \<times> 'w) list \<Rightarrow> bool \<Rightarrow> 'w cache \<Rightarrow> 'w cache" where
  "Cache_Migrate rh key_values expired c =
     (let c = foldl (\<lambda>c value. c\<lparr>c_key_values := umap_put rh (fst value) (snd value) (c_key_values c)\<rparr>)
                c key_values
      in if expired then c\<lparr>c_expired := True\<rparr> else c)"

definition Cache_Clear :: "'w cache \<Rightarrow> 'w cache" where
  "Cache_Clear c = c\<lparr>c_expired := False, c_key_values := []\<rparr>"

subsection \<open>Listing\<close>

text \<open>The position where a page starts, as the rest of the iteration: at the offset key
  when it is given and present, else after \<open>offset\<close> pairs.\<close>

definition list_start :: "list_info \<Rightarrow> (string, 'w) umap \<Rightarrow> (string \<times> 'w) list" where
  "list_start info m =
     (let at_key = (if li_offset_key info \<noteq> []
                    then dropWhile (\<lambda>p. fst p \<noteq> li_offset_key info) m else [])
      in if at_key = [] then drop (nat (li_offset info)) m else at_key)"

record list_result =
  lr_key_values :: "(string \<times> string) list"
  lr_total_size :: int
  lr_end :: bool
  lr_last_key :: string

definition Cache_List ::
  "('w \<Rightarrow> value_info) \<Rightarrow> int \<Rightarrow> list_info \<Rightarrow> string \<Rightarrow> 'w cache \<Rightarrow> list_result" where
  "Cache_List par current_time info last_key c =
     (let it = list_start info (c_key_values c);
          page = take (nat (li_size info)) it;
          rest = drop (nat (li_size info)) it
      in \<lparr>lr_key_values = map (\<lambda>p. (fst p, vi_value (par (snd p))))
                            (filter (\<lambda>p. \<not> vi_dead current_time (par (snd p))) page),
          lr_total_size = int (length (c_key_values c)),
          lr_end = (rest = []),
          lr_last_key = (case rest of [] \<Rightarrow> last_key | p # _ \<Rightarrow> fst p)\<rparr>)"

subsection \<open>Removing expired pairs\<close>

text \<open>
  One round from the iterator on: the pairs already passed and kept, the rest of the
  iteration, and the count of removed pairs. A round stops after the batch size; since the
  size is compared after a pair was looked at, a round looks at one pair at least.
\<close>

fun check_round ::
  "('w \<Rightarrow> value_info) \<Rightarrow> int \<Rightarrow> int \<Rightarrow> int \<Rightarrow> (string \<times> 'w) list \<Rightarrow> (string \<times> 'w) list \<Rightarrow> int
     \<Rightarrow> (string \<times> 'w) list \<times> (string \<times> 'w) list \<times> int" where
  "check_round par current_time batch checked_size pre [] expired_size = (pre, [], expired_size)"
| "check_round par current_time batch checked_size pre (p # it) expired_size =
     (let (pre, expired_size) =
        (if vi_dead current_time (par (snd p)) then (pre, expired_size + 1)
         else (pre @ [p], expired_size));
        checked_size = checked_size + 1
      in if checked_size \<ge> batch then (pre, it, expired_size)
         else check_round par current_time batch checked_size pre it expired_size)"

text \<open>The rounds; \<open>clock r\<close> is the time round \<open>r\<close> reads. \<open>None\<close> is a loop still running
  when the fuel is used up.\<close>

fun check_loop ::
  "('w \<Rightarrow> value_info) \<Rightarrow> (nat \<Rightarrow> int) \<Rightarrow> int \<Rightarrow> nat \<Rightarrow> nat \<Rightarrow> string \<Rightarrow> int \<Rightarrow> (string, 'w) umap
     \<Rightarrow> (int \<times> (string, 'w) umap) option" where
  "check_loop par clock batch 0 r last_key expired_size m = None"
| "check_loop par clock batch (Suc fuel) r last_key expired_size m =
     (let found = (if last_key \<noteq> [] then dropWhile (\<lambda>p. fst p \<noteq> last_key) m else []);
          it = (if found = [] then m else found);
          pre = take (length m - length it) m
      in case check_round par (clock r) batch 0 pre it expired_size of
           (pre, it, expired_size) \<Rightarrow>
             (case it of
                [] \<Rightarrow> Some (expired_size, pre)
              | p # _ \<Rightarrow> check_loop par clock batch fuel (Suc r) (fst p) expired_size (pre @ it)))"

definition Cache_CheckExpired ::
  "('w \<Rightarrow> value_info) \<Rightarrow> (nat \<Rightarrow> int) \<Rightarrow> int \<Rightarrow> nat \<Rightarrow> 'w cache \<Rightarrow> (int \<times> int \<times> 'w cache) option" where
  "Cache_CheckExpired par clock batch fuel c =
     (if \<not> c_expired c then Some (0, 0, c)
      else case check_loop par clock batch fuel 0 [] 0 (c_key_values c) of
             None \<Rightarrow> None
           | Some (expired_size, m) \<Rightarrow>
               Some (expired_size, int (length (c_key_values c)), c\<lparr>c_key_values := m\<rparr>))"

lemmas cache_defs [noah_defs] =
  Cache_Get_def Cache_Set_def Cache_Del_def Cache_Migrate_def Cache_Clear_def

subsection \<open>The cache as a map from keys to values with an expiry time\<close>

definition cache_wf :: "'w cache \<Rightarrow> bool" where
  "cache_wf c \<longleftrightarrow> umap_wf (c_key_values c)"

definition cache_abs :: "('w \<Rightarrow> value_info) \<Rightarrow> 'w cache \<Rightarrow> string \<rightharpoonup> value_info" where
  "cache_abs par c k = map_option par (map_of (c_key_values c) k)"

lemma foldl_put_cache:
  "foldl (\<lambda>c value. c\<lparr>c_key_values := umap_put rh (fst value) (g value) (c_key_values c)\<rparr>) c kvs =
   c\<lparr>c_key_values := foldl (\<lambda>m value. umap_put rh (fst value) (g value) m) (c_key_values c) kvs\<rparr>"
  by (induction kvs arbitrary: c) simp_all

lemma foldl_erase_cache:
  "foldl (\<lambda>c key. c\<lparr>c_key_values := umap_erase key (c_key_values c)\<rparr>) c keys =
   c\<lparr>c_key_values := foldl (\<lambda>m key. umap_erase key m) (c_key_values c) keys\<rparr>"
  by (induction keys arbitrary: c) simp_all

text \<open>The expiry time that \<^verbatim>\<open>Set\<close> stores for a time to live.\<close>

definition expiry :: "int \<Rightarrow> int \<Rightarrow> int" where
  "expiry current_time ttl = (if ttl > 0 then to_int32 (current_time + ttl) else 0)"

lemma Cache_Set_eq:
  "Cache_Set ser rh now kvs ttl c =
    c\<lparr>c_expired := (c_expired c \<or> ttl > 0),
      c_key_values := foldl (\<lambda>m value. umap_put rh (fst value)
        (ser \<lparr>vi_value = snd value, vi_expired = expiry now ttl\<rparr>) m) (c_key_values c) kvs\<rparr>"
  by (simp add: Cache_Set_def Let_def empty_value_info_def expiry_def foldl_put_cache)

lemma cache_wf_Set: "rearranges rh \<Longrightarrow> cache_wf c \<Longrightarrow> cache_wf (Cache_Set ser rh now kvs ttl c)"
  by (simp add: cache_wf_def Cache_Set_eq foldl_umap_put)

lemma cache_abs_Set:
  assumes "\<forall>v. par (ser v) = v" and "rearranges rh" and "cache_wf c" and "distinct (map fst kvs)"
  shows "cache_abs par (Cache_Set ser rh now kvs ttl c) k =
    (case map_of kvs k of
       None \<Rightarrow> cache_abs par c k
     | Some v \<Rightarrow> Some \<lparr>vi_value = v, vi_expired = expiry now ttl\<rparr>)"
  using assms
  by (simp add: cache_abs_def Cache_Set_eq cache_wf_def foldl_umap_put(2) split: option.split)

lemma cache_wf_Del: "cache_wf c \<Longrightarrow> cache_wf (Cache_Del keys c)"
  by (simp add: cache_wf_def Cache_Del_def foldl_erase_cache foldl_umap_erase)

lemma cache_abs_Del:
  "cache_abs par (Cache_Del keys c) k = (if k \<in> set keys then None else cache_abs par c k)"
  by (simp add: cache_abs_def Cache_Del_def foldl_erase_cache foldl_umap_erase)

lemma Cache_Migrate_eq:
  "Cache_Migrate rh kvs b c =
    c\<lparr>c_expired := (c_expired c \<or> b),
      c_key_values := foldl (\<lambda>m value. umap_put rh (fst value) (snd value) m) (c_key_values c) kvs\<rparr>"
  by (simp add: Cache_Migrate_def Let_def foldl_put_cache)

lemma cache_wf_Migrate: "rearranges rh \<Longrightarrow> cache_wf c \<Longrightarrow> cache_wf (Cache_Migrate rh kvs b c)"
  by (simp add: cache_wf_def Cache_Migrate_eq foldl_umap_put)

lemma cache_abs_Migrate:
  assumes "rearranges rh" and "cache_wf c" and "distinct (map fst kvs)"
  shows "cache_abs par (Cache_Migrate rh kvs b c) k =
    (case map_of kvs k of None \<Rightarrow> cache_abs par c k | Some w \<Rightarrow> Some (par w))"
  using assms
  by (simp add: cache_abs_def Cache_Migrate_eq cache_wf_def foldl_umap_put(2) split: option.split)

lemma cache_abs_Clear: "cache_abs par (Cache_Clear c) = Map.empty" "cache_wf (Cache_Clear c)"
  by (simp_all add: cache_abs_def Cache_Clear_def cache_wf_def fun_eq_iff)

lemma Cache_Get_eq:
  "Cache_Get par t keys c = map (\<lambda>k. case cache_abs par c k of
     None \<Rightarrow> [] | Some v \<Rightarrow> if vi_dead t v then [] else vi_value v) keys"
  by (simp add: Cache_Get_def cache_abs_def split: option.split)

end
