(* ===== verification/Noah_Cache_Expiry.thy ===== *)
theory Noah_Cache_Expiry
  imports Noah_Cache
begin

text \<open>
  Properties of the cache of a partition: reads after writes and after the time to live,
  the batched removal of expired pairs, and listing page by page.
\<close>

subsection \<open>Rounds of the expiry check\<close>

abbreviation dead_at :: "('w \<Rightarrow> value_info) \<Rightarrow> int \<Rightarrow> string \<times> 'w \<Rightarrow> bool" where
  "dead_at par t p \<equiv> vi_dead t (par (snd p))"

lemma check_round_eq:
  "check_round par t batch n pre it es =
    (let k = nat (max 1 (batch - n))
     in (pre @ filter (\<lambda>p. \<not> dead_at par t p) (take k it), drop k it,
         es + int (length (filter (dead_at par t) (take k it)))))"
proof (induction par t batch n pre it es rule: check_round.induct)
  case (2 par t batch n pre p it es)
  show ?case
  proof (cases "n + 1 \<ge> batch")
    case True
    then have "nat (max 1 (batch - n)) = Suc 0" by simp
    with True show ?thesis by (simp add: Let_def)
  next
    case False
    then have "nat (max 1 (batch - n)) = Suc (nat (max 1 (batch - (n + 1))))" by simp
    with False 2 show ?thesis by (auto simp: Let_def split: if_splits)
  qed
qed (simp add: Let_def)

lemma vi_dead_mono: "vi_dead t v \<Longrightarrow> t \<le> t' \<Longrightarrow> vi_dead t' v"
  by (auto simp: vi_dead_def)

lemma dropWhile_key:
  "fst p \<notin> fst ` set pre \<Longrightarrow> dropWhile (\<lambda>q. fst q \<noteq> fst p) (pre @ p # it) = p # it"
  by (induction pre) auto

lemma check_loop_start:
  assumes "last_key = fst p \<and> fst p \<noteq> [] \<and> fst p \<notin> fst ` set pre \<or> last_key = [] \<and> pre = []"
  shows "check_loop par clock batch (Suc fuel) r last_key es (pre @ p # it) =
    (case check_round par (clock r) batch 0 pre (p # it) es of
       (pre, it, es) \<Rightarrow>
         (case it of [] \<Rightarrow> Some (es, pre)
          | q # _ \<Rightarrow> check_loop par clock batch fuel (Suc r) (fst q) es (pre @ it)))"
proof -
  have found: "(if last_key \<noteq> [] then dropWhile (\<lambda>q. fst q \<noteq> last_key) (pre @ p # it) else []) =
      (if last_key = [] then [] else p # it)"
    using assms dropWhile_key [of p pre it] by (simp only: split: if_splits) blast
  show ?thesis
    unfolding check_loop.simps Let_def found using assms by (auto simp del: check_round.simps)
qed

lemma filter_split:
  assumes "distinct (map fst xs)"
  shows "filter (\<lambda>p. if p \<in> set (take k xs) then P p else Q p) xs =
    filter P (take k xs) @ filter Q (drop k xs)"
proof -
  have "set (take k xs) \<inter> set (drop k xs) = {}"
    using assms by (metis append_take_drop_id distinct_append distinct_map)
  then have "filter (\<lambda>p. if p \<in> set (take k xs) then P p else Q p) (take k xs @ drop k xs) =
      filter P (take k xs) @ filter Q (drop k xs)"
    by (auto simp del: append_take_drop_id intro!: arg_cong2 [where f = append] filter_cong)
  then show ?thesis by simp
qed

lemma length_filter_split:
  "length (filter P xs) + length (filter (\<lambda>x. \<not> P x) xs) = length xs"
  by (induction xs) auto

lemma check_loop_removes:
  assumes mono: "mono clock" and "length it < fuel" and "distinct (map fst (pre @ it))"
    and "[] \<notin> fst ` set it" and "it \<noteq> []"
    and "last_key = fst (hd it) \<or> last_key = [] \<and> pre = []"
  shows "\<exists>Q. check_loop par clock batch fuel r last_key es (pre @ it) =
      Some (es + int (length it) - int (length (filter Q it)), pre @ filter Q it) \<and>
    (\<forall>p \<in> set it. (Q p \<longrightarrow> \<not> dead_at par (clock r) p) \<and>
      (\<not> Q p \<longrightarrow> (\<exists>r'. dead_at par (clock r') p)))"
  using assms(2-)
proof (induction fuel arbitrary: it pre r es last_key)
  case (Suc fuel)
  let ?k = "nat (max 1 batch)" and ?alive = "\<lambda>p. \<not> dead_at par (clock r) p"
  obtain p rest where it: "it = p # rest" using Suc.prems(4) by (cases it) auto
  have "last_key = fst p \<and> fst p \<noteq> [] \<and> fst p \<notin> fst ` set pre \<or> last_key = [] \<and> pre = []"
    using Suc.prems it by force
  from check_loop_start [OF this, of par clock batch fuel r es rest]
  have run: "check_loop par clock batch (Suc fuel) r last_key es (pre @ it) =
    (case drop ?k it of
       [] \<Rightarrow> Some (es + int (length (filter (dead_at par (clock r)) (take ?k it))),
              pre @ filter ?alive (take ?k it))
     | q # _ \<Rightarrow> check_loop par clock batch fuel (Suc r) (fst q)
                 (es + int (length (filter (dead_at par (clock r)) (take ?k it))))
                 (pre @ filter ?alive (take ?k it) @ drop ?k it))"
    by (simp add: check_round_eq Let_def it split: list.split)
  show ?case
  proof (cases "drop ?k it")
    case Nil
    then have "take ?k it = it" by simp
    with Nil run length_filter_split [of "dead_at par (clock r)" it] show ?thesis
      by (intro exI [of _ ?alive]) auto
  next
    case (Cons q rest')
    let ?pre = "pre @ filter ?alive (take ?k it)" and ?it = "drop ?k it"
    let ?es = "es + int (length (filter (dead_at par (clock r)) (take ?k it)))"
    have "length ?it < fuel" using Suc.prems(1) it by simp
    moreover have "distinct (map fst (?pre @ ?it))"
    proof -
      have "distinct (map fst pre @ map fst (take ?k it) @ map fst (drop ?k it))"
        using Suc.prems(2) by (metis append_take_drop_id map_append)
      then show ?thesis by (auto simp: distinct_map_filter)
    qed
    moreover have "[] \<notin> fst ` set ?it" using Suc.prems(3) by (auto dest: in_set_dropD)
    ultimately obtain Q where Q: "check_loop par clock batch fuel (Suc r) (fst q) ?es (?pre @ ?it) =
        Some (?es + int (length ?it) - int (length (filter Q ?it)), ?pre @ filter Q ?it)"
      "\<forall>p \<in> set ?it. (Q p \<longrightarrow> \<not> dead_at par (clock (Suc r)) p) \<and>
        (\<not> Q p \<longrightarrow> (\<exists>r'. dead_at par (clock r') p))"
      using Suc.IH [of ?it ?pre "fst q" "Suc r" ?es] Cons by auto
    let ?Q = "\<lambda>p. if p \<in> set (take ?k it) then ?alive p else Q p"
    have split: "filter ?Q it = filter ?alive (take ?k it) @ filter Q ?it"
      using Suc.prems(2) by (intro filter_split) simp
    have "length it = length (filter (dead_at par (clock r)) (take ?k it)) +
        length (filter ?alive (take ?k it)) + length ?it"
      using length_filter_split [of "dead_at par (clock r)" "take ?k it"]
      by (metis append_take_drop_id length_append)
    then have count: "?es + int (length ?it) - int (length (filter Q ?it)) =
        es + int (length it) - int (length (filter ?Q it))"
      unfolding split length_append by linarith
    have "check_loop par clock batch (Suc fuel) r last_key es (pre @ it) =
        check_loop par clock batch fuel (Suc r) (fst q) ?es (?pre @ ?it)" using run Cons by simp
    also note Q(1)
    also have "Some (?es + int (length ?it) - int (length (filter Q ?it)), ?pre @ filter Q ?it) =
        Some (es + int (length it) - int (length (filter ?Q it)), pre @ filter ?Q it)"
      by (simp only: count) (simp only: split append_assoc)
    finally have "check_loop par clock batch (Suc fuel) r last_key es (pre @ it) =
        Some (es + int (length it) - int (length (filter ?Q it)), pre @ filter ?Q it)" .
    moreover have later: "clock r \<le> clock (Suc r)" using mono by (rule monoD) simp
    moreover have split_it: "set it = set (take ?k it) \<union> set ?it"
      by (metis append_take_drop_id set_append)
    have "(?Q p \<longrightarrow> \<not> dead_at par (clock r) p) \<and> (\<not> ?Q p \<longrightarrow> (\<exists>r'. dead_at par (clock r') p))"
      if "p \<in> set it" for p
    proof (cases "p \<in> set (take ?k it)")
      case False
      with that split_it have "p \<in> set ?it" by blast
      with False Q(2) later show ?thesis by (metis vi_dead_mono)
    qed auto
    ultimately show ?thesis by (intro exI [of _ ?Q]) blast
  qed
qed simp

subsection \<open>Reads after writes\<close>

text \<open>
  C18: after a \<^verbatim>\<open>Set\<close> with a time to live, a read before the expiry time returns the written
  values, a read from the expiry time on returns empty strings for them, a write without a
  time to live never expires, and all other keys read as before. Where the hash map puts
  its pairs plays no part.
\<close>

theorem cache_get_after_set:
  assumes "\<forall>v. par (ser v) = v" and "rearranges rh" and "cache_wf c"
    and "distinct (map fst key_values)" and "0 \<le> now" and "in_int32 (now + ttl)"
  shows "Cache_Get par t keys (Cache_Set ser rh now key_values ttl c) =
    map (\<lambda>k. case map_of key_values k of
          Some v \<Rightarrow> (if 0 < ttl \<and> now + ttl \<le> t then [] else v)
        | None \<Rightarrow> hd (Cache_Get par t [k] c)) keys"
  using assms(5,6)
  by (auto simp: Cache_Get_eq cache_abs_Set [OF assms(1-4)] vi_dead_def expiry_def split: option.split)

theorem cache_get_after_set_witness:
  "Cache_Get id 109 [''a'', ''b''] (Cache_Set id rev 100 [(''a'', ''x'')] 10 Cache_new) = [''x'', []] \<and>
   Cache_Get id 110 [''a'', ''b''] (Cache_Set id rev 100 [(''a'', ''x'')] 10 Cache_new) = [[], []]"
proof -
  have c: "cache_wf Cache_new" by (simp add: cache_wf_def Cache_new_def)
  have e: "Cache_Get id t [''b''] Cache_new = [[]]" for t by (simp add: Cache_Get_def Cache_new_def)
  have i: "in_int32 (100 + 10)" by (simp add: in_int32_def)
  note r = cache_get_after_set [OF _ rearranges_id(2) c _ _ i, of id id "[(''a'', ''x'')]"]
  from r [of 109 "[''a'', ''b'']"] r [of 110 "[''a'', ''b'']"] show ?thesis by (simp add: e)
qed

text \<open>When the sum of clock and time to live leaves the range of \<^verbatim>\<open>int32_t\<close>, it wraps to a
  time in the past and the pair is gone as soon as it is written.\<close>

theorem cache_ttl_overflow_expires_at_once:
  "Cache_Get id 1700000000 [''a''] (Cache_Set id rev 1700000000 [(''a'', ''x'')] 500000000 Cache_new) = [[]]"
  by code_simp

subsection \<open>Removal of expired pairs\<close>

text \<open>Whenever a stored value has an expiry time, the flag that enables the check is set.\<close>

definition expired_flag_ok :: "('w \<Rightarrow> value_info) \<Rightarrow> 'w cache \<Rightarrow> bool" where
  "expired_flag_ok par c \<longleftrightarrow>
     (\<forall>p \<in> set (c_key_values c). vi_expired (par (snd p)) \<noteq> 0 \<longrightarrow> c_expired c)"

lemma set_umap_put_subset:
  "rearranges rh \<Longrightarrow> set (umap_put rh k v m) \<subseteq> insert (k, v) (set m)"
proof (cases "k \<in> fst ` set m")
  case True
  have "set (AList.update k v m) \<subseteq> insert (k, v) (set m)"
    by (induction m) auto
  with True show ?thesis by (simp add: umap_put_def)
next
  case False
  assume "rearranges rh"
  then have "set (rh ((k, v) # m)) = set ((k, v) # m)" by (metis rearranges_def mset_eq_setD)
  with False show ?thesis by (simp add: umap_put_def)
qed

lemma expired_flag_ok_Set:
  assumes "\<forall>v. par (ser v) = v" and "rearranges rh" and "expired_flag_ok par c"
  shows "expired_flag_ok par (Cache_Set ser rh now kvs ttl c)"
proof -
  let ?P = "\<lambda>m. \<forall>p \<in> set m. vi_expired (par (snd p)) \<noteq> 0 \<longrightarrow> c_expired c \<or> ttl > 0"
  have "?P (foldl (\<lambda>m value. umap_put rh (fst value)
        (ser \<lparr>vi_value = snd value, vi_expired = expiry now ttl\<rparr>) m) (c_key_values c) kvs)"
  proof (rule foldl_invariant [where P = ?P])
    show "?P (c_key_values c)" using assms(3) by (auto simp: expired_flag_ok_def)
    fix m :: "(string \<times> 'a) list" and x :: "string \<times> string" assume "?P m"
    with assms(1) set_umap_put_subset [OF assms(2), of "fst x"
        "ser \<lparr>vi_value = snd x, vi_expired = expiry now ttl\<rparr>" m]
    show "?P (umap_put rh (fst x) (ser \<lparr>vi_value = snd x, vi_expired = expiry now ttl\<rparr>) m)"
      by (auto simp: expiry_def dest!: subsetD split: if_splits)
  qed
  then show ?thesis by (auto simp: expired_flag_ok_def Cache_Set_eq)
qed


definition ex_cache :: "value_info cache" where
  "ex_cache = Cache_Set id (\<lambda>m. m) 100 [(''a'', ''x''), (''b'', ''y'')] 10
     (Cache_Set id (\<lambda>m. m) 100 [(''c'', ''z'')] 0 Cache_new)"


text \<open>An empty key at the edge of a batch makes the check run forever: the empty
  \<^verbatim>\<open>last_key\<close> means \<open>start again\<close> to the next round.\<close>

definition empty_key_map :: "(string, value_info) umap" where
  "empty_key_map = [(''a'', \<lparr>vi_value = ''x'', vi_expired = 0\<rparr>), ([], \<lparr>vi_value = ''y'', vi_expired = 0\<rparr>)]"

theorem check_expired_empty_key_never_ends:
  "Cache_CheckExpired id clock 1 fuel \<lparr>c_expired = True, c_key_values = empty_key_map\<rparr> = None"
proof -
  have "check_loop id clock 1 fuel r [] 0 empty_key_map = None" for r
    by (induction fuel arbitrary: r) (auto simp: empty_key_map_def vi_dead_def Let_def)
  then show ?thesis by (simp add: Cache_CheckExpired_def)
qed

end
