(* ===== verification/Butil_Strings.thy ===== *)
theory Butil_Strings
  imports Nori_Prelude
begin

text \<open>
  The string functions of \<^verbatim>\<open>net/butil/strings\<close> that the storage code relies on:
  \<^verbatim>\<open>IntToString\<close> and \<^verbatim>\<open>StringToInt\<close> (\<^verbatim>\<open>string_number_conversions.cc\<close>) and
  \<^verbatim>\<open>SplitString\<close> (\<^verbatim>\<open>string_split.cc\<close>) with the trimming of \<^verbatim>\<open>string_util.cc\<close>.
\<close>

abbreviation (input) int_max :: int where "int_max \<equiv> 2147483647"
abbreviation (input) int_min :: int where "int_min \<equiv> - 2147483648"

subsection \<open>Numbers\<close>

definition digit_char :: "nat \<Rightarrow> char" where
  "digit_char d = char_of (48 + d)"

text \<open>The loop that writes the digits back to front.\<close>

fun uint_digits :: "nat \<Rightarrow> string" where
  "uint_digits res =
     (if res div 10 = 0 then [digit_char (res mod 10)]
      else uint_digits (res div 10) @ [digit_char (res mod 10)])"

declare uint_digits.simps [simp del]

definition IntToString :: "int \<Rightarrow> string" where
  "IntToString value =
     (let is_neg = value < 0; res = nat ((if value < 0 then - value else value) mod 4294967296)
      in (if is_neg then ''-'' else []) @ uint_digits res)"

definition is_space :: "char \<Rightarrow> bool" where
  "is_space c \<longleftrightarrow> of_char c \<in> {9 :: nat, 10, 11, 12, 13, 32}"

definition char_to_digit :: "char \<Rightarrow> int option" where
  "char_to_digit c =
     (if 48 \<le> (of_char c :: int) \<and> (of_char c :: int) < 58 then Some (of_char c - 48) else None)"

text \<open>The two bounds checks; the failing one leaves the limit in the output. C++ division
  truncates, so \<^verbatim>\<open>min / 10\<close> is -214748364 and \<^verbatim>\<open>min % 10\<close> is -8.\<close>

definition positive_fits :: "int \<Rightarrow> int \<Rightarrow> bool" where
  "positive_fits output new_digit \<longleftrightarrow>
     \<not> (output > int_max div 10 \<or> output = int_max div 10 \<and> new_digit > int_max mod 10)"

definition negative_fits :: "int \<Rightarrow> int \<Rightarrow> bool" where
  "negative_fits output new_digit \<longleftrightarrow>
     \<not> (output < - 214748364 \<or> output = - 214748364 \<and> new_digit > 8)"

fun digits_loop :: "bool \<Rightarrow> bool \<Rightarrow> int \<Rightarrow> string \<Rightarrow> bool \<times> int" where
  "digits_loop neg at_begin output [] = (True, output)"
| "digits_loop neg at_begin output (c # cs) =
     (case char_to_digit c of
        None \<Rightarrow> (False, output)
      | Some new_digit \<Rightarrow>
          if \<not> at_begin \<and> \<not> (if neg then negative_fits output new_digit else positive_fits output new_digit)
          then (False, if neg then int_min else int_max)
          else let output = (if at_begin then output else output * 10)
               in digits_loop neg False (if neg then output - new_digit else output + new_digit) cs)"

definition base_invoke :: "bool \<Rightarrow> string \<Rightarrow> bool \<times> int" where
  "base_invoke neg s = (if s = [] then (False, 0) else digits_loop neg True 0 s)"

definition StringToInt :: "string \<Rightarrow> bool \<times> int" where
  "StringToInt s =
     (let valid = (takeWhile is_space s = []);
          s = dropWhile is_space s;
          (ok, output) =
            (if s \<noteq> [] \<and> hd s = CHR ''-'' then base_invoke True (tl s)
             else base_invoke False (if s \<noteq> [] \<and> hd s = CHR ''+'' then tl s else s))
      in (valid \<and> ok, output))"

subsection \<open>Splitting\<close>

definition TrimWhitespace :: "string \<Rightarrow> string" where
  "TrimWhitespace input = rev (dropWhile is_space (rev (dropWhile is_space input)))"

fun split_loop :: "char \<Rightarrow> string \<Rightarrow> string list \<Rightarrow> string \<Rightarrow> string list" where
  "split_loop s tmp r [] =
     (let tmp = TrimWhitespace tmp in if r \<noteq> [] \<or> tmp \<noteq> [] then r @ [tmp] else r)"
| "split_loop s tmp r (c # str) =
     (if c = s then split_loop s [] (r @ [TrimWhitespace tmp]) str
      else split_loop s (tmp @ [c]) r str)"

definition SplitString :: "string \<Rightarrow> char \<Rightarrow> string list" where
  "SplitString str s = split_loop s [] [] str"

subsection \<open>The value of a string of digits\<close>

definition is_digits :: "string \<Rightarrow> bool" where
  "is_digits s \<longleftrightarrow> list_all (\<lambda>c. char_to_digit c \<noteq> None) s"

definition digits_value :: "int \<Rightarrow> string \<Rightarrow> int" where
  "digits_value a s = foldl (\<lambda>a c. a * 10 + the (char_to_digit c)) a s"

lemma digit_range: "char_to_digit c = Some d \<Longrightarrow> 0 \<le> d \<and> d \<le> 9"
  by (auto simp: char_to_digit_def split: if_splits)

lemma char_to_digit_digit_char [simp]: "d < 10 \<Longrightarrow> char_to_digit (digit_char d) = Some (int d)"
proof -
  assume "d < 10"
  then have "(of_char (digit_char d) :: nat) = 48 + d" by (simp add: digit_char_def)
  moreover have "(of_char (digit_char d) :: int) = int (of_char (digit_char d))"
    by (rule of_nat_of_char [symmetric])
  ultimately have "(of_char (digit_char d) :: int) = 48 + int d" by simp
  with \<open>d < 10\<close> show ?thesis by (simp add: char_to_digit_def)
qed

lemma digits_value_mono: "is_digits s \<Longrightarrow> 0 \<le> a \<Longrightarrow> a \<le> digits_value a s"
proof (induction s arbitrary: a)
  case (Cons c s)
  then obtain d where "char_to_digit c = Some d" "0 \<le> d" by (auto simp: is_digits_def dest: digit_range)
  moreover have "a * 10 + d \<le> digits_value (a * 10 + d) s"
    using Cons calculation by (intro Cons.IH) (auto simp: is_digits_def)
  ultimately show ?case using Cons.prems(2) by (simp add: digits_value_def)
qed (simp add: digits_value_def)

lemma positive_fits_iff: "d \<le> 9 \<Longrightarrow> positive_fits a d \<longleftrightarrow> a * 10 + d \<le> int_max" if "0 \<le> d"
  using that by (auto simp: positive_fits_def)

lemma negative_fits_iff: "d \<le> 9 \<Longrightarrow> negative_fits (- a) d \<longleftrightarrow> a * 10 + d \<le> 2147483648" if "0 \<le> d"
  using that by (auto simp: negative_fits_def)

lemma digits_loop_positive:
  "is_digits s \<Longrightarrow> 0 \<le> a \<Longrightarrow> a \<le> int_max \<Longrightarrow> at_begin \<longrightarrow> a = 0 \<Longrightarrow>
   digits_loop False at_begin a s =
     (digits_value a s \<le> int_max, min int_max (digits_value a s))"
proof (induction s arbitrary: a at_begin)
  case (Cons c s)
  then obtain d where d: "char_to_digit c = Some d" "0 \<le> d" "d \<le> 9"
    by (auto simp: is_digits_def dest: digit_range)
  have rest: "is_digits s" using Cons.prems(1) by (simp add: is_digits_def)
  have val: "digits_value a (c # s) = digits_value (a * 10 + d) s" by (simp add: digits_value_def d)
  show ?case
  proof (cases "a * 10 + d \<le> int_max")
    case True
    then have "digits_loop False at_begin a (c # s) = digits_loop False False (a * 10 + d) s"
      using Cons.prems d by (auto simp: positive_fits_iff)
    also have "\<dots> = (digits_value (a * 10 + d) s \<le> int_max, min int_max (digits_value (a * 10 + d) s))"
      using rest Cons.prems d True by (intro Cons.IH) auto
    finally show ?thesis by (simp add: val)
  next
    case False
    then have "\<not> at_begin" using Cons.prems d by auto
    moreover have "int_max < digits_value (a * 10 + d) s"
      using digits_value_mono [OF rest, of "a * 10 + d"] Cons.prems d False by simp
    ultimately show ?thesis using False d by (simp add: val positive_fits_iff min_def)
  qed
qed (simp add: digits_value_def)

lemma digits_loop_negative:
  "is_digits s \<Longrightarrow> 0 \<le> a \<Longrightarrow> a \<le> 2147483648 \<Longrightarrow> at_begin \<longrightarrow> a = 0 \<Longrightarrow>
   digits_loop True at_begin (- a) s =
     (digits_value a s \<le> 2147483648, max int_min (- digits_value a s))"
proof (induction s arbitrary: a at_begin)
  case (Cons c s)
  then obtain d where d: "char_to_digit c = Some d" "0 \<le> d" "d \<le> 9"
    by (auto simp: is_digits_def dest: digit_range)
  have rest: "is_digits s" using Cons.prems(1) by (simp add: is_digits_def)
  have val: "digits_value a (c # s) = digits_value (a * 10 + d) s" by (simp add: digits_value_def d)
  show ?case
  proof (cases "a * 10 + d \<le> 2147483648")
    case True
    then have "digits_loop True at_begin (- a) (c # s) = digits_loop True False (- (a * 10 + d)) s"
      using Cons.prems d by (auto simp: negative_fits_iff)
    also have "\<dots> = (digits_value (a * 10 + d) s \<le> 2147483648, max int_min (- digits_value (a * 10 + d) s))"
      using rest Cons.prems d True by (intro Cons.IH) auto
    finally show ?thesis by (simp add: val)
  next
    case False
    then have "\<not> at_begin" using Cons.prems d by auto
    moreover have "2147483648 < digits_value (a * 10 + d) s"
      using digits_value_mono [OF rest, of "a * 10 + d"] Cons.prems d False by simp
    ultimately show ?thesis using False d by (simp add: val negative_fits_iff max_def)
  qed
qed (simp add: digits_value_def)

lemma is_digits_uint_digits: "is_digits (uint_digits n)" "uint_digits n \<noteq> []"
  by (induction n rule: uint_digits.induct) (subst uint_digits.simps, simp add: is_digits_def)+

lemma digits_value_uint_digits: "digits_value 0 (uint_digits n) = int n"
proof (induction n rule: uint_digits.induct)
  case (1 n)
  have n: "int (n div 10) * 10 + int (n mod 10) = int n"
    by (metis div_mult_mod_eq of_nat_add of_nat_mult of_nat_numeral)
  have d: "the (char_to_digit (digit_char (n mod 10))) = int (n mod 10)" by simp
  show ?case
  proof (cases "n div 10 = 0")
    case True
    with n d show ?thesis by (subst uint_digits.simps) (simp add: digits_value_def del: of_nat_mod)
  next
    case False
    with n d 1 show ?thesis
      by (subst uint_digits.simps) (simp add: digits_value_def del: of_nat_mod of_nat_div)
  qed
qed

lemma space_not_digit: "char_to_digit c \<noteq> None \<Longrightarrow> \<not> is_space c"
proof -
  assume "char_to_digit c \<noteq> None"
  then have "48 \<le> (of_char c :: int)" by (auto simp: char_to_digit_def split: if_splits)
  then have "48 \<le> (of_char c :: nat)" by (metis of_nat_of_char of_nat_le_iff of_nat_numeral)
  then show ?thesis by (auto simp: is_space_def)
qed

lemma sign_chars: "\<not> is_space CHR ''-''" "char_to_digit CHR ''-'' = None" "char_to_digit CHR ''+'' = None"
  "\<not> is_space CHR '':''"
  by code_simp+

lemma is_digits_hd:
  assumes "is_digits s" and "s \<noteq> []"
  shows "hd s \<noteq> CHR ''-''" "hd s \<noteq> CHR ''+''" "takeWhile is_space s = []" "dropWhile is_space s = s"
  using assms sign_chars space_not_digit by (cases s; auto simp: is_digits_def)+

text \<open>
  C20: converting a string of decimal digits, with or without a minus sign, gives the number
  when it fits into an \<^verbatim>\<open>int\<close>, and otherwise reports failure with the output at the nearest
  limit; no intermediate value leaves the range.
\<close>

theorem string_to_int_digits:
  assumes "is_digits s" and "s \<noteq> []"
  shows "StringToInt s = (digits_value 0 s \<le> int_max, min int_max (digits_value 0 s)) \<and>
    StringToInt (CHR ''-'' # s) = (digits_value 0 s \<le> 2147483648, max int_min (- digits_value 0 s))"
  using assms digits_loop_positive [OF assms(1), of 0 True] digits_loop_negative [OF assms(1), of 0 True]
  by (simp add: StringToInt_def Let_def base_invoke_def is_digits_hd sign_chars)

theorem string_to_int_digits_witness:
  "is_digits ''2147483648'' \<and> StringToInt ''2147483648'' = (False, 2147483647) \<and>
   StringToInt ''-2147483648'' = (True, -2147483648)"
proof -
  have d: "is_digits ''2147483648''" "digits_value 0 ''2147483648'' = 2147483648" by code_simp+
  then show ?thesis using string_to_int_digits [OF d(1)] by simp
qed

lemma StringToInt_IntToString:
  assumes "in_int32 i"
  shows "StringToInt (IntToString i) = (True, i)"
proof (cases "i < 0")
  case True
  let ?s = "uint_digits (nat (- i))"
  have "IntToString i = CHR ''-'' # ?s" using True assms by (simp add: IntToString_def Let_def in_int32_def)
  moreover have "is_digits ?s" "?s \<noteq> []" by (rule is_digits_uint_digits)+
  ultimately show ?thesis
    using digits_loop_negative [of ?s 0 True] digits_value_uint_digits [of "nat (- i)"] True assms
    by (simp add: StringToInt_def Let_def base_invoke_def sign_chars in_int32_def)
next
  case False
  let ?s = "uint_digits (nat i)"
  have "IntToString i = ?s" using False assms by (simp add: IntToString_def Let_def in_int32_def)
  moreover have "is_digits ?s" "?s \<noteq> []" by (rule is_digits_uint_digits)+
  ultimately show ?thesis
    using digits_loop_positive [of ?s 0 True] digits_value_uint_digits [of "nat i"] False assms
    by (simp add: StringToInt_def Let_def base_invoke_def is_digits_hd in_int32_def)
qed

text \<open>
  C21: every \<^verbatim>\<open>int\<close> survives the way to a string and back.
\<close>

theorem int_string_round_trip:
  assumes "in_int32 i"
  shows "StringToInt (IntToString i) = (True, i)"
  using assms by (rule StringToInt_IntToString)

theorem int_string_round_trip_witness:
  "in_int32 (-2147483648) \<and> StringToInt (IntToString (-2147483648)) = (True, -2147483648)"
proof -
  have "in_int32 (-2147483648)" by (simp add: in_int32_def)
  with int_string_round_trip [of "-2147483648"] show ?thesis by simp
qed

subsection \<open>Splitting a joined string\<close>

definition trimmed :: "string \<Rightarrow> bool" where
  "trimmed s \<longleftrightarrow> s = [] \<or> \<not> is_space (hd s) \<and> \<not> is_space (last s)"

lemma TrimWhitespace_trimmed [simp]: "trimmed s \<Longrightarrow> TrimWhitespace s = s"
proof (cases "s = []")
  case False
  assume "trimmed s"
  with False have "\<not> is_space (hd s)" "\<not> is_space (hd (rev s))" by (auto simp: trimmed_def hd_rev)
  then have "dropWhile is_space s = s" "dropWhile is_space (rev s) = rev s"
    using False by (cases s, simp_all) (cases "rev s", simp_all)
  then show ?thesis by (simp add: TrimWhitespace_def)
qed (simp add: TrimWhitespace_def)

fun join_with :: "char \<Rightarrow> string list \<Rightarrow> string" where
  "join_with s [] = []"
| "join_with s [p] = p"
| "join_with s (p # ps) = p @ s # join_with s ps"

lemma split_loop_piece: "s \<notin> set p \<Longrightarrow> split_loop s tmp r (p @ str) = split_loop s (tmp @ p) r str"
  by (induction p arbitrary: tmp) auto

lemma split_loop_join:
  assumes "ps \<noteq> []" and "\<forall>p \<in> set ps. s \<notin> set p \<and> trimmed p" and "r \<noteq> [] \<or> ps \<noteq> [[]]"
  shows "split_loop s [] r (join_with s ps) = r @ ps"
  using assms
proof (induction s ps arbitrary: r rule: join_with.induct)
  case (2 s p)
  then show ?case using split_loop_piece [of s p "[]" r "[]"] by auto
next
  case (3 s p q ps)
  have "split_loop s [] r (join_with s (p # q # ps)) = split_loop s [] (r @ [p]) (join_with s (q # ps))"
    using "3.prems"(2) by (simp add: split_loop_piece)
  also have "\<dots> = (r @ [p]) @ q # ps" using "3.prems" by (intro "3.IH") auto
  finally show ?case by simp
qed simp

text \<open>
  C22: splitting what was joined with a separator gives back the pieces, provided they do not
  contain the separator and carry no white space at their ends, with the one exception the
  code makes: a single empty piece disappears.
\<close>

theorem split_join_round_trip:
  assumes "ps \<noteq> []" and "\<forall>p \<in> set ps. s \<notin> set p \<and> trimmed p" and "ps \<noteq> [[]]"
  shows "SplitString (join_with s ps) s = ps"
  using split_loop_join [of ps s "[]"] assms by (simp add: SplitString_def)

theorem split_join_round_trip_witness:
  "SplitString (join_with CHR '':'' [''10.0.0.1'', ''8000'']) CHR '':'' = [''10.0.0.1'', ''8000'']"
proof -
  have "\<forall>p \<in> set [''10.0.0.1'', ''8000'']. CHR '':'' \<notin> set p \<and> trimmed p" by code_simp
  with split_join_round_trip [of "[''10.0.0.1'', ''8000'']" "CHR '':''"] show ?thesis by simp
qed

end
