(* ===== verification/Butil_Hash.thy ===== *)
theory Butil_Hash
  imports Nori_Prelude "HOL-Library.Word"
begin

text \<open>
  \<^verbatim>\<open>butil::Hash\<close> (\<^verbatim>\<open>net/butil/hash.h\<close>): Hsieh's SuperFastHash of
  \<^verbatim>\<open>net/butil/third_party/superfasthash/superfasthash.c\<close> on 32-bit words. The storage
  code places every key by this hash.
\<close>

unbundle bit_operations_syntax

definition get16bits :: "char \<Rightarrow> char \<Rightarrow> 32 word" where
  "get16bits d0 d1 = push_bit 8 (of_nat (of_char d1)) + of_nat (of_char d0)"

text \<open>\<^verbatim>\<open>(signed char) c\<close>, converted to the 32-bit word it is combined with.\<close>

definition signed_char :: "char \<Rightarrow> 32 word" where
  "signed_char c = (let n = int (of_char c) in word_of_int (if n < 128 then n else n - 256))"

fun sfh_loop :: "32 word \<Rightarrow> string \<Rightarrow> 32 word \<times> string" where
  "sfh_loop hash (a # b # c # d # data) =
     (let hash = hash + get16bits a b;
          tmp = push_bit 11 (get16bits c d) XOR hash;
          hash = push_bit 16 hash XOR tmp;
          hash = hash + drop_bit 11 hash
      in sfh_loop hash data)"
| "sfh_loop hash data = (hash, data)"

fun sfh_tail :: "32 word \<Rightarrow> string \<Rightarrow> 32 word" where
  "sfh_tail hash [a, b, c] =
     (let hash = hash + get16bits a b;
          hash = hash XOR push_bit 16 hash;
          hash = hash XOR push_bit 18 (signed_char c)
      in hash + drop_bit 11 hash)"
| "sfh_tail hash [a, b] =
     (let hash = hash + get16bits a b;
          hash = hash XOR push_bit 11 hash
      in hash + drop_bit 17 hash)"
| "sfh_tail hash [a] =
     (let hash = hash + signed_char a;
          hash = hash XOR push_bit 10 hash
      in hash + drop_bit 1 hash)"
| "sfh_tail hash _ = hash"

definition sfh_avalanche :: "32 word \<Rightarrow> 32 word" where
  "sfh_avalanche hash =
     (let hash = hash XOR push_bit 3 hash;
          hash = hash + drop_bit 5 hash;
          hash = hash XOR push_bit 4 hash;
          hash = hash + drop_bit 17 hash;
          hash = hash XOR push_bit 25 hash
      in hash + drop_bit 6 hash)"

definition SuperFastHash :: "string \<Rightarrow> 32 word" where
  "SuperFastHash data =
     (if data = [] then 0
      else let (hash, rest) = sfh_loop (of_nat (length data)) data
           in sfh_avalanche (sfh_tail hash rest))"

definition Hash :: "string \<Rightarrow> nat" where
  "Hash s = (if length s > 2147483647 then 0 else unat (SuperFastHash s))"

lemma sfh_loop_rest: "length (snd (sfh_loop h s)) = length s mod 4"
  by (induction h s rule: sfh_loop.induct) (simp_all add: Let_def)

lemma Hash_bound: "Hash s < 4294967296"
  using unsigned_less [of "SuperFastHash s", where 'a = nat] by (simp add: Hash_def)

end
