(* ===== verification/Noah_Entity.thy ===== *)
theory Noah_Entity
  imports Butil_Strings Butil_Hash Nori_Ordered_Map "HOL-Library.Char_ord" "HOL-Library.List_Lexorder"
begin

text \<open>
  The entities of \<^verbatim>\<open>noah/common/entity.h\<close> and \<^verbatim>\<open>entity.cc\<close> with the protobuf messages of
  \<^verbatim>\<open>noah/meta/meta.proto\<close> they are made from: nodes and their text form, partitions, tables
  and the choice of the partition of a key, and versions. A message field that may be
  unset is an option; reading an unset message gives its default.
\<close>

subsection \<open>Nodes\<close>

datatype node = Node (n_ip: string) (n_port: int)

definition node_less :: "node \<Rightarrow> node \<Rightarrow> bool" where
  "node_less a b \<longleftrightarrow> n_ip a < n_ip b \<or> (n_ip a = n_ip b \<and> n_port a < n_port b)"

instantiation node :: linorder
begin

definition less_node :: "node \<Rightarrow> node \<Rightarrow> bool" where
  "less_node a b \<longleftrightarrow> node_less a b"

definition less_eq_node :: "node \<Rightarrow> node \<Rightarrow> bool" where
  "less_eq_node a b \<longleftrightarrow> a = b \<or> node_less a b"

instance
  by standard (auto simp: less_node_def less_eq_node_def node_less_def intro: node.expand)

end

definition default_node :: node where
  "default_node = Node [] 0"

definition Node_of_string :: "string \<Rightarrow> node" where
  "Node_of_string ip_and_port =
     (let ip_info = SplitString ip_and_port CHR '':''
      in if length ip_info \<noteq> 2 then Node [] 0
         else Node (ip_info ! 0) (snd (StringToInt (ip_info ! 1))))"

definition Node_ToString :: "node \<Rightarrow> string" where
  "Node_ToString n = n_ip n @ '':'' @ IntToString (n_port n)"

text \<open>What an address must look like for its text form to be readable.\<close>

definition node_ok :: "node \<Rightarrow> bool" where
  "node_ok n \<longleftrightarrow> CHR '':'' \<notin> set (n_ip n) \<and> trimmed (n_ip n) \<and> in_int32 (n_port n)"

lemma digit_chars_no_colon:
  assumes "is_digits s"
  shows "CHR '':'' \<notin> set s"
proof
  assume "CHR '':'' \<in> set s"
  moreover have "char_to_digit CHR '':'' = None" by code_simp
  ultimately show False using assms by (auto simp: is_digits_def list_all_iff)
qed

lemma IntToString_shape:
  "CHR '':'' \<notin> set (IntToString i)" "trimmed (IntToString i)" "IntToString i \<noteq> []"
proof -
  let ?s = "uint_digits (nat ((if i < 0 then - i else i) mod 4294967296))"
  note d = is_digits_uint_digits [of "nat ((if i < 0 then - i else i) mod 4294967296)"]
  have last: "\<not> is_space (last ?s)" "\<not> is_space (hd ?s)"
    using d space_not_digit by (auto simp: is_digits_def list_all_iff)
  show "CHR '':'' \<notin> set (IntToString i)"
    using digit_chars_no_colon [OF d(1)] by (auto simp: IntToString_def Let_def)
  show "trimmed (IntToString i)" "IntToString i \<noteq> []"
    using last d(2) sign_chars(1) by (auto simp: IntToString_def Let_def trimmed_def)
qed

lemma SplitString_node:
  assumes "CHR '':'' \<notin> set ip" and "trimmed ip"
  shows "SplitString (ip @ '':'' @ IntToString p) CHR '':'' = [ip, IntToString p]"
  using split_loop_join [of "[ip, IntToString p]" "CHR '':''" "[]"] assms IntToString_shape
  by (simp add: SplitString_def)

lemma Node_round_trip: "node_ok n \<Longrightarrow> Node_of_string (Node_ToString n) = n"
proof -
  assume "node_ok n"
  then have ip: "CHR '':'' \<notin> set (n_ip n)" "trimmed (n_ip n)" and p: "in_int32 (n_port n)"
    by (auto simp: node_ok_def)
  show ?thesis
    using SplitString_node [OF ip, of "n_port n"] StringToInt_IntToString [OF p]
    by (simp add: Node_of_string_def Node_ToString_def Let_def)
qed

subsection \<open>The messages of the meta server\<close>

datatype p_status = ACTIVE | SLOWDOWN | STUCK

record meta_partition =
  mp_id :: int
  mp_status :: p_status
  mp_master :: "node option"
  mp_slaves :: "node list"

record meta_table =
  mt_name :: string
  mt_partitions :: "meta_partition list"
  mt_duplicate_num :: int
  mt_capacity :: int
  mt_version :: int

text \<open>\<^verbatim>\<open>partition.master()\<close>: the default node when the field is not set.\<close>

definition master_of :: "meta_partition \<Rightarrow> node" where
  "master_of p = (case mp_master p of None \<Rightarrow> default_node | Some n \<Rightarrow> n)"

datatype node_state = UP | DOWN

record version_info =
  v_epoch :: int
  v_version :: int

subsection \<open>Partitions and tables of a client\<close>

datatype partition_state = kActive | kSlowDown | kStuck | kUnknow

record partition =
  p_id :: int
  p_state :: partition_state
  p_master :: node
  p_slaves :: "node list"

definition Partition_new :: partition where
  "Partition_new = \<lparr>p_id = -1, p_state = kUnknow, p_master = Node [] 0, p_slaves = []\<rparr>"

definition Partition_of_meta :: "meta_partition \<Rightarrow> partition" where
  "Partition_of_meta m =
     \<lparr>p_id = mp_id m,
      p_state = (case mp_status m of ACTIVE \<Rightarrow> kActive | STUCK \<Rightarrow> kStuck | SLOWDOWN \<Rightarrow> kSlowDown),
      p_master = master_of m,
      p_slaves = foldl (\<lambda>ss s. ss @ [s]) [] (mp_slaves m)\<rparr>"

definition SetMaster :: "node \<Rightarrow> partition \<Rightarrow> partition" where
  "SetMaster new_master p = p\<lparr>p_master := Node (n_ip new_master) (n_port new_master)\<rparr>"

record table =
  partition_num :: int
  t_version :: int
  t_table_name :: string
  t_partitions :: "(int, partition) omap"
  t_capacity :: int

definition Table_new :: table where
  "Table_new = \<lparr>partition_num = 0, t_version = 0, t_table_name = [], t_partitions = [], t_capacity = 0\<rparr>"

definition Table_of_meta :: "meta_table \<Rightarrow> table" where
  "Table_of_meta m =
     \<lparr>partition_num = int (length (mt_partitions m)), t_version = mt_version m,
      t_table_name = mt_name m,
      t_partitions = foldl (\<lambda>ps p. omap_insert (mp_id p) (Partition_of_meta p) ps) [] (mt_partitions m),
      t_capacity = mt_capacity m\<rparr>"

definition GetPartitionById :: "int \<Rightarrow> table \<Rightarrow> partition option" where
  "GetPartitionById par_num t = (if t_partitions t = [] then None else map_of (t_partitions t) par_num)"

definition GetPartition :: "string \<Rightarrow> table \<Rightarrow> partition option" where
  "GetPartition key t =
     (if t_partitions t = [] then None
      else GetPartitionById (int (Hash key mod length (t_partitions t))) t)"

definition GetAllMasters_vec :: "table \<Rightarrow> node list \<Rightarrow> node list" where
  "GetAllMasters_vec t nodes = foldl (\<lambda>ns par. ns @ [p_master (snd par)]) nodes (t_partitions t)"

definition GetAllMasters_set :: "table \<Rightarrow> node set \<Rightarrow> node set" where
  "GetAllMasters_set t nodes = foldl (\<lambda>ns par. insert (p_master (snd par)) ns) nodes (t_partitions t)"

definition GetAllNodes :: "table \<Rightarrow> node set \<Rightarrow> node set" where
  "GetAllNodes t nodes =
     foldl (\<lambda>ns par. foldl (\<lambda>ns s. insert s ns) (insert (p_master (snd par)) ns) (p_slaves (snd par)))
       nodes (t_partitions t)"

subsection \<open>Every key has a partition\<close>

text \<open>The partitions of a table as the meta server makes them: numbered from 0.\<close>

definition numbered :: "meta_table \<Rightarrow> bool" where
  "numbered m \<longleftrightarrow> map mp_id (mt_partitions m) = map int [0..<length (mt_partitions m)]"

lemma foldl_snoc: "foldl (\<lambda>ss s. ss @ [s]) acc xs = acc @ xs"
  by (induction xs arbitrary: acc) auto

lemma omap_put_last: "\<forall>k' \<in> fst ` set m. k' < k \<Longrightarrow> omap_put k v m = m @ [(k, v)]"
  by (induction k v m rule: omap_put.induct) auto

lemma insert_ascending:
  assumes "sorted_wrt (<) (map mp_id ps)" and "\<forall>k \<in> fst ` set m. \<forall>p \<in> set ps. k < mp_id p"
  shows "foldl (\<lambda>ms p. omap_insert (mp_id p) (f p) ms) m ps = m @ map (\<lambda>p. (mp_id p, f p)) ps"
  using assms
proof (induction ps arbitrary: m)
  case (Cons p ps)
  have "map_of m (mp_id p) = None" using Cons.prems(2) by (force simp: map_of_eq_None_iff)
  then have "omap_insert (mp_id p) (f p) m = m @ [(mp_id p, f p)]"
    using Cons.prems(2) by (simp add: omap_insert_def omap_put_last)
  then show ?case using Cons.IH [of "m @ [(mp_id p, f p)]"] Cons.prems by auto
qed simp

lemma numbered_sorted: "numbered m \<Longrightarrow> sorted_wrt (<) (map mp_id (mt_partitions m))"
  by (simp add: numbered_def sorted_wrt_iff_nth_less)

lemma Table_of_meta_partitions:
  "numbered m \<Longrightarrow> t_partitions (Table_of_meta m) =
    map (\<lambda>p. (mp_id p, Partition_of_meta p)) (mt_partitions m)"
  by (simp add: Table_of_meta_def insert_ascending numbered_sorted)

lemma Partition_of_meta_slaves [simp]: "p_slaves (Partition_of_meta m) = mp_slaves m"
  by (simp add: Partition_of_meta_def foldl_snoc)

lemma Table_of_meta_lookup:
  assumes "numbered m" and "i < length (mt_partitions m)"
  shows "GetPartitionById (int i) (Table_of_meta m) = Some (Partition_of_meta (mt_partitions m ! i))"
proof -
  let ?f = "\<lambda>p. (mp_id p, Partition_of_meta p)" and ?ps = "mt_partitions m"
  have "?ps \<noteq> []" using assms(2) by auto
  have id: "mp_id (?ps ! i) = int i"
    using assms by (metis (no_types) add_0 length_map length_upt minus_nat.diff_0 nth_map nth_upt numbered_def)
  have "distinct (map fst (map ?f ?ps))"
    using numbered_sorted [OF assms(1)] by (simp add: comp_def strict_sorted_iff)
  moreover have "(int i, Partition_of_meta (?ps ! i)) \<in> set (map ?f ?ps)"
    using assms(2) id by (force simp: in_set_conv_nth)
  ultimately have "map_of (map ?f ?ps) (int i) = Some (Partition_of_meta (?ps ! i))"
    by (rule map_of_is_SomeI)
  with assms(1) \<open>?ps \<noteq> []\<close> show ?thesis
    by (simp add: GetPartitionById_def Table_of_meta_partitions)
qed

text \<open>
  C23: in a table whose partitions are numbered from 0, as the meta server makes them, every key
  has a partition: the one at position hash of the key modulo the number of partitions, with
  the id, master and slaves the meta server gave it.
\<close>

theorem every_key_has_partition:
  assumes "numbered m" and "mt_partitions m \<noteq> []"
  shows "GetPartition key (Table_of_meta m) =
      Some (Partition_of_meta (mt_partitions m ! (Hash key mod length (mt_partitions m)))) \<and>
    p_id (Partition_of_meta (mt_partitions m ! (Hash key mod length (mt_partitions m)))) =
      int (Hash key mod length (mt_partitions m))"
proof -
  let ?n = "length (mt_partitions m)"
  have lt: "Hash key mod ?n < ?n" using assms(2) by simp
  have "mp_id (mt_partitions m ! (Hash key mod ?n)) = int (Hash key mod ?n)"
    using assms(1) lt unfolding numbered_def
    by (metis (no_types) add_0 length_map length_upt minus_nat.diff_0 nth_map nth_upt)
  with Table_of_meta_lookup [OF assms(1) lt] assms show ?thesis
    by (simp add: GetPartition_def Table_of_meta_partitions Partition_of_meta_def)
qed

definition ex_table :: meta_table where
  "ex_table = \<lparr>mt_name = ''t'',
     mt_partitions = [\<lparr>mp_id = 0, mp_status = ACTIVE, mp_master = Some (Node ''a'' 1), mp_slaves = []\<rparr>,
                      \<lparr>mp_id = 1, mp_status = ACTIVE, mp_master = Some (Node ''b'' 1), mp_slaves = []\<rparr>],
     mt_duplicate_num = 1, mt_capacity = 0, mt_version = 1\<rparr>"

theorem every_key_has_partition_witness:
  "numbered ex_table \<and> map_option p_id (GetPartition ''key'' (Table_of_meta ex_table)) =
     Some (int (Hash ''key'' mod 2))"
proof -
  have "numbered ex_table" "mt_partitions ex_table \<noteq> []" "length (mt_partitions ex_table) = 2" by code_simp+
  with every_key_has_partition [of ex_table "''key''"] show ?thesis by simp
qed

text \<open>
  C24: the text form of a node address reads back as the same node, so the meta server may use
  it as the key of its maps.
\<close>

theorem node_string_round_trip:
  assumes "node_ok n"
  shows "Node_of_string (Node_ToString n) = n"
  using assms by (rule Node_round_trip)

theorem node_string_round_trip_witness:
  "node_ok (Node ''10.0.0.1'' 8000) \<and>
   Node_of_string (Node_ToString (Node ''10.0.0.1'' 8000)) = Node ''10.0.0.1'' 8000"
proof -
  have "node_ok (Node ''10.0.0.1'' 8000)" by code_simp
  with node_string_round_trip [of "Node ''10.0.0.1'' 8000"] show ?thesis by simp
qed

end
