(* ===== verification/Noah_Meta_Info.thy ===== *)
theory Noah_Meta_Info
  imports Noah_Entity "HOL-Library.FSet"
begin

text \<open>
  \<^verbatim>\<open>class MetaInfo\<close> (\<^verbatim>\<open>noah/meta/meta_info.h\<close>, \<^verbatim>\<open>meta_info.cc\<close>), the definitions: the
  tables, the nodes with the time they were last heard of, the index from nodes to tables,
  the version, and every operation on them. The read-write lock makes each operation atomic;
  \<open>rhn\<close> and \<open>rht\<close> are the rearrangements of the hash maps of nodes and tables, the clock is in
  microseconds. The index from nodes to tables is only read by key and is a map.
\<close>

subsection \<open>State\<close>

type_synonym node_table_map = "string \<Rightarrow> string fset option"

record meta_info =
  mi_version :: version_info
  table_info :: "(string, meta_table) umap"
  node_table :: node_table_map
  mi_nodes :: "(string, nat) umap"

definition VersionInfo :: "int \<Rightarrow> int \<Rightarrow> version_info" where
  "VersionInfo e v = \<lparr>v_epoch = e, v_version = v\<rparr>"

datatype role = MASTER | SLAVE

record migrate_task =
  mg_table_name :: string
  mg_partition_id :: int
  mg_fault_node :: node
  mg_fault_role :: role

record processor =
  pr_task :: migrate_task
  pr_src :: node
  pr_dst :: node

definition MetaInfo_new :: meta_info where
  "MetaInfo_new = \<lparr>mi_version = VersionInfo (-1) (-1), table_info = [],
     node_table = (\<lambda>_. None), mi_nodes = []\<rparr>"

subsection \<open>Node addresses as keys\<close>

definition Node2String :: "node \<Rightarrow> string" where
  "Node2String n = n_ip n @ '':'' @ IntToString (n_port n)"

text \<open>The message is left as it was when the text does not have two parts.\<close>

definition String2Node :: "string \<Rightarrow> node \<Rightarrow> node" where
  "String2Node ip_and_port n =
     (let ip_info = SplitString ip_and_port CHR '':''
      in if length ip_info \<noteq> 2 then n
         else Node (ip_info ! 0) (snd (StringToInt (ip_info ! 1))))"

definition UpdateNodeTable :: "node \<Rightarrow> string \<Rightarrow> node_table_map \<Rightarrow> node_table_map" where
  "UpdateNodeTable n table_name nt =
     (let node_str = Node2String n
      in case nt node_str of
           Some tables \<Rightarrow> nt(node_str \<mapsto> finsert table_name tables)
         | None \<Rightarrow> nt(node_str \<mapsto> {|table_name|}))"

definition SetNodeTable :: "meta_table \<Rightarrow> node_table_map \<Rightarrow> node_table_map" where
  "SetNodeTable t nt =
     foldl (\<lambda>nt p. foldl (\<lambda>nt n. UpdateNodeTable n (mt_name t) nt)
                     (UpdateNodeTable (master_of p) (mt_name t) nt) (mp_slaves p))
       nt (mt_partitions t)"

definition ClearNodeTable :: "node \<Rightarrow> string \<Rightarrow> node_table_map \<Rightarrow> node_table_map" where
  "ClearNodeTable n table_name nt =
     (let node_str = Node2String n
      in case nt node_str of
           Some tables \<Rightarrow> nt(node_str \<mapsto> tables |-| {|table_name|})
         | None \<Rightarrow> nt)"

definition DropNodeTable :: "meta_table \<Rightarrow> node_table_map \<Rightarrow> node_table_map" where
  "DropNodeTable t nt =
     foldl (\<lambda>nt p. foldl (\<lambda>nt n. ClearNodeTable n (mt_name t) nt)
                     (ClearNodeTable (master_of p) (mt_name t) nt) (mp_slaves p))
       nt (mt_partitions t)"

subsection \<open>Snapshots and simple reads\<close>

text \<open>\<^verbatim>\<open>MetaInfoSnapshot\<close> has the same fields. The pairs are visited in iteration order; the
  subtraction is on \<^verbatim>\<open>uint64_t\<close>.\<close>

definition node_expired :: "nat \<Rightarrow> int \<Rightarrow> nat \<Rightarrow> bool" where
  "node_expired now node_timeout_ms last_alive_time \<longleftrightarrow>
     last_alive_time > 0 \<and>
     (int now - int last_alive_time) mod 2 ^ 64 > (node_timeout_ms mod 2 ^ 64 * 1000) mod 2 ^ 64"

definition CheckExpiredNodes :: "nat \<Rightarrow> int \<Rightarrow> meta_info \<Rightarrow> bool \<times> string list \<times> meta_info" where
  "CheckExpiredNodes now node_timeout_ms s =
     (let dead = filter (\<lambda>p. node_expired now node_timeout_ms (snd p)) (mi_nodes s)
      in (dead \<noteq> [], map fst dead,
          s\<lparr>mi_nodes := map (\<lambda>p. if node_expired now node_timeout_ms (snd p) then (fst p, 0) else p)
               (mi_nodes s)\<rparr>))"

text \<open>One message object serves all entries, so a malformed key repeats the node before it.\<close>

definition GetAliveNodes :: "meta_info \<Rightarrow> node fset" where
  "GetAliveNodes s =
     snd (foldl (\<lambda>(n, alive) p. if snd p > 0
                                then (let n = String2Node (fst p) n in (n, finsert n alive))
                                else (n, alive))
            (default_node, {||}) (mi_nodes s))"

definition MetaInfo_Init :: "meta_info \<Rightarrow> meta_info" where
  "MetaInfo_Init s =
     (if \<not> (v_epoch (mi_version s) > -1) then s\<lparr>mi_version := VersionInfo 0 0\<rparr> else s)"

definition RefreshNodes :: "nat \<Rightarrow> meta_info \<Rightarrow> meta_info" where
  "RefreshNodes now s =
     s\<lparr>mi_nodes := map (\<lambda>p. (fst p, if snd p = 0 then 0 else now)) (mi_nodes s)\<rparr>"

definition ExistTable :: "string \<Rightarrow> meta_info \<Rightarrow> bool" where
  "ExistTable table_name s \<longleftrightarrow> map_of (table_info s) table_name \<noteq> None"

definition MetaInfo_Changed :: "version_info \<Rightarrow> meta_info \<Rightarrow> bool" where
  "MetaInfo_Changed info s \<longleftrightarrow>
     v_epoch info < v_epoch (mi_version s) \<or> v_version info < v_version (mi_version s)"

definition LoadFromSnapshot :: "meta_info \<Rightarrow> meta_info \<Rightarrow> bool \<times> meta_info" where
  "LoadFromSnapshot snapshot s =
     (if v_epoch (mi_version snapshot) \<le> v_epoch (mi_version s) \<and>
         v_version (mi_version snapshot) \<le> v_version (mi_version s)
      then (False, s)
      else (True, s\<lparr>mi_version := mi_version snapshot, table_info := table_info snapshot,
                    node_table := node_table snapshot, mi_nodes := mi_nodes snapshot\<rparr>))"

definition GetSnapshot :: "meta_info \<Rightarrow> meta_info" where
  "GetSnapshot s = \<lparr>mi_version = mi_version s, table_info = table_info s,
     node_table = node_table s, mi_nodes = mi_nodes s\<rparr>"

subsection \<open>Nodes that come back\<close>

text \<open>The innermost loop of \<open>UpdatePartNodeMS\<close>: replica \<open>j\<close> of partition \<open>i\<close>.\<close>

definition ms_replica ::
  "node \<Rightarrow> node list \<Rightarrow> nat \<Rightarrow> string \<Rightarrow> nat
     \<Rightarrow> meta_partition \<times> bool \<times> node_table_map \<Rightarrow> nat \<Rightarrow> meta_partition \<times> bool \<times> node_table_map" where
  "ms_replica n nodes start_index table_name i = (\<lambda>(p, change, nt) j.
     let node_id = (start_index + i + j) mod length nodes;
         part_node = String2Node (Node_ToString (nodes ! node_id)) default_node;
         (p, change) =
           (if n = part_node
            then (if j = 0
                  then (case mp_master p of
                          None \<Rightarrow> (p\<lparr>mp_master := Some n\<rparr>, change)
                        | Some node_master \<Rightarrow>
                            (if n \<noteq> node_master
                             then (p\<lparr>mp_master := Some n, mp_slaves := mp_slaves p @ [node_master]\<rparr>, True)
                             else (p, change)))
                  else (p\<lparr>mp_slaves := mp_slaves p @ [n]\<rparr>, True))
            else (p, change))
     in (p, change, UpdateNodeTable n table_name nt))"

definition ms_status :: "nat \<Rightarrow> meta_partition \<Rightarrow> meta_partition" where
  "ms_status dup_size p =
     (let slave_size = length (mp_slaves p)
      in if mp_master p \<noteq> None \<and> 1 + slave_size = dup_size then p\<lparr>mp_status := ACTIVE\<rparr>
         else if mp_master p \<noteq> None \<or> slave_size > 0 then p\<lparr>mp_status := SLOWDOWN\<rparr>
         else p\<lparr>mp_status := STUCK\<rparr>)"

definition ms_partition ::
  "node \<Rightarrow> node list \<Rightarrow> nat \<Rightarrow> string \<Rightarrow> int
     \<Rightarrow> meta_table \<times> bool \<times> node_table_map \<Rightarrow> nat \<Rightarrow> meta_table \<times> bool \<times> node_table_map" where
  "ms_partition n nodes start_index table_name ver = (\<lambda>(t, change, nt) i.
     let p = mt_partitions t ! i; dup_size = nat (mt_duplicate_num t mod 2 ^ 64)
     in if mp_status p = ACTIVE then (t, change, nt)
        else
          let (p, change, nt) = foldl (ms_replica n nodes start_index table_name i) (p, change, nt) [0..<dup_size];
              t = t\<lparr>mt_partitions := (mt_partitions t)[i := ms_status dup_size p]\<rparr>
          in (if change then t\<lparr>mt_version := ver\<rparr> else t, change, nt))"

definition UpdatePartNodeMS :: "node \<Rightarrow> meta_info \<Rightarrow> meta_info" where
  "UpdatePartNodeMS n s =
     (let nodes = map (\<lambda>p. String2Node (fst p) default_node) (mi_nodes s);
          (ts, change, nt) =
            foldl (\<lambda>(ts, change, nt) (table_name, t).
                     let start_index = Hash table_name mod length (mi_nodes s);
                         (t, change, nt) = foldl (ms_partition n nodes start_index table_name (v_version (mi_version s)))
                                             (t, change, nt) [0..<length (mt_partitions t)]
                     in (ts @ [(table_name, t)], change, nt))
              ([], False, node_table s) (table_info s)
      in s\<lparr>table_info := ts, node_table := nt\<rparr>)"

definition bump_epoch :: "meta_info \<Rightarrow> meta_info" where
  "bump_epoch s = s\<lparr>mi_version := (mi_version s)\<lparr>v_epoch := v_epoch (mi_version s) + 1\<rparr>\<rparr>"

definition bump_version :: "meta_info \<Rightarrow> meta_info" where
  "bump_version s = s\<lparr>mi_version := (mi_version s)\<lparr>v_version := v_version (mi_version s) + 1\<rparr>\<rparr>"

definition UpdateNode ::
  "((string \<times> nat) list \<Rightarrow> (string \<times> nat) list) \<Rightarrow> nat \<Rightarrow> node \<Rightarrow> meta_info \<Rightarrow> version_info \<times> meta_info" where
  "UpdateNode rhn now n s =
     (let ip_str = Node2String n;
          s = (case map_of (mi_nodes s) ip_str of
                 Some last_alive_time \<Rightarrow>
                   (let s = (if last_alive_time = 0
                             then bump_epoch (UpdatePartNodeMS n
                                    (s\<lparr>mi_nodes := AList.update ip_str now (mi_nodes s)\<rparr>))
                             else s)
                    in s\<lparr>mi_nodes := AList.update ip_str now (mi_nodes s)\<rparr>)
               | None \<Rightarrow> bump_epoch (s\<lparr>mi_nodes := umap_put rhn ip_str now (mi_nodes s)\<rparr>))
      in (mi_version s, s))"

subsection \<open>Tables\<close>

definition CreateTable ::
  "((string \<times> meta_table) list \<Rightarrow> (string \<times> meta_table) list) \<Rightarrow> version_info \<Rightarrow> meta_table
     \<Rightarrow> meta_info \<Rightarrow> version_info \<times> meta_info" where
  "CreateTable rht info t s =
     (if info \<noteq> mi_version s then (VersionInfo (-1) 0, s)
      else case map_of (table_info s) (mt_name t) of
        Some _ \<Rightarrow> (VersionInfo 0 0, s)
      | None \<Rightarrow>
          (let s = s\<lparr>node_table := SetNodeTable t (node_table s)\<rparr>;
               s = bump_version s;
               s = s\<lparr>table_info := umap_put rht (mt_name t)
                        (t\<lparr>mt_version := v_version (mi_version s)\<rparr>) (table_info s)\<rparr>
           in (mi_version s, s)))"

definition drop_one :: "bool \<times> meta_info \<Rightarrow> string \<Rightarrow> bool \<times> meta_info" where
  "drop_one = (\<lambda>(changed, s) name.
     case map_of (table_info s) name of
       Some t \<Rightarrow> (True, s\<lparr>node_table := DropNodeTable t (node_table s),
                          table_info := umap_erase name (table_info s)\<rparr>)
     | None \<Rightarrow> (changed, s))"

definition DropTable :: "version_info \<Rightarrow> string list \<Rightarrow> meta_info \<Rightarrow> version_info \<times> meta_info" where
  "DropTable info tables s =
     (if info \<noteq> mi_version s then (VersionInfo 0 0, s)
      else let (changed, s) = foldl drop_one (False, s) tables;
               s = (if changed then bump_version s else s)
           in (mi_version s, s))"

subsection \<open>Nodes that go down\<close>

definition migrate_partition :: "(string, nat) umap \<Rightarrow> node \<Rightarrow> meta_partition \<Rightarrow> bool \<times> meta_partition" where
  "migrate_partition nodes n p =
     (let (changed, p) =
        (if n = master_of p then (True, p\<lparr>mp_master := None\<rparr>)
         else (n \<in> set (mp_slaves p), p\<lparr>mp_slaves := filter (\<lambda>s. s \<noteq> n) (mp_slaves p)\<rparr>))
      in if \<not> changed then (False, p)
         else if mp_master p \<noteq> None \<or> mp_slaves p \<noteq> []
         then (let p = (if mp_master p = None
                        then (case List.extract (\<lambda>s. map_of nodes (Node2String s) \<noteq> None) (mp_slaves p) of
                                None \<Rightarrow> p
                              | Some (before, new_master, after) \<Rightarrow>
                                  p\<lparr>mp_master := Some new_master, mp_slaves := before @ after\<rparr>)
                        else p)
               in (True, if mp_master p = None then p\<lparr>mp_status := STUCK\<rparr> else p\<lparr>mp_status := SLOWDOWN\<rparr>))
         else (True, p\<lparr>mp_status := STUCK\<rparr>))"

definition MigrateFromTable :: "(string, nat) umap \<Rightarrow> int \<Rightarrow> node \<Rightarrow> meta_table \<Rightarrow> meta_table" where
  "MigrateFromTable nodes ver n t =
     (let r = map (migrate_partition nodes n) (mt_partitions t)
      in t\<lparr>mt_partitions := map snd r,
           mt_version := (if list_ex fst r then ver else mt_version t)\<rparr>)"

text \<open>No task is ever added to \<open>tasks\<close>, here or in the functions around it.\<close>

definition migrate_table :: "node \<Rightarrow> meta_info \<Rightarrow> string \<Rightarrow> meta_info" where
  "migrate_table n s name =
     (case map_of (table_info s) name of
        None \<Rightarrow> s
      | Some t \<Rightarrow> s\<lparr>table_info := AList.update name
                     (MigrateFromTable (mi_nodes s) (v_version (mi_version s)) n t) (table_info s)\<rparr>)"

definition MigrateFromNode ::
  "meta_info \<times> migrate_task list \<Rightarrow> node \<Rightarrow> meta_info \<times> migrate_task list" where
  "MigrateFromNode = (\<lambda>(s, tasks) n.
     let node_str = Node2String n;
         fault_tables = (case node_table s node_str of None \<Rightarrow> {||} | Some ts \<Rightarrow> ts);
         s = s\<lparr>node_table := (node_table s)(node_str := None)\<rparr>
     in (foldl (migrate_table n) s (sorted_list_of_fset fault_tables), tasks))"

definition down_one :: "bool \<times> meta_info \<Rightarrow> node \<Rightarrow> bool \<times> meta_info" where
  "down_one = (\<lambda>(node_change, s) n.
     let node_str = Node2String n
     in case map_of (mi_nodes s) node_str of
          Some _ \<Rightarrow> (True, s\<lparr>mi_nodes := AList.update node_str 0 (mi_nodes s)\<rparr>)
        | None \<Rightarrow> (node_change, s))"

definition DownNodes ::
  "int \<Rightarrow> node list \<Rightarrow> migrate_task list \<Rightarrow> meta_info \<Rightarrow> version_info \<times> migrate_task list \<times> meta_info" where
  "DownNodes epoch ns tasks s =
     (if epoch \<noteq> v_epoch (mi_version s) then (VersionInfo 0 0, tasks, s)
      else let (node_change, s) = foldl down_one (False, s) ns;
               (s, tasks) = (if node_change then foldl MigrateFromNode (bump_epoch s, tasks) ns else (s, tasks))
           in (mi_version s, tasks, s))"

subsection \<open>Committing a migration\<close>

definition commit_partition :: "processor \<Rightarrow> int \<Rightarrow> meta_partition \<Rightarrow> meta_partition" where
  "commit_partition pr dup p =
     (let p = (if mg_fault_role (pr_task pr) = MASTER
               then p\<lparr>mp_slaves := mp_slaves p @ [master_of p], mp_master := Some (pr_dst pr)\<rparr>
               else p\<lparr>mp_slaves := mp_slaves p @ [pr_dst pr]\<rparr>)
      in if 1 + int (length (mp_slaves p)) = dup then p\<lparr>mp_status := ACTIVE\<rparr> else p)"

text \<open>\<^verbatim>\<open>mutable_partitions\<close> does not check its index; \<open>None\<close> is an access out of range.\<close>

definition CommitMigrate :: "version_info \<Rightarrow> processor \<Rightarrow> meta_info \<Rightarrow> (version_info \<times> meta_info) option" where
  "CommitMigrate info pr s =
     (let name = mg_table_name (pr_task pr); i = mg_partition_id (pr_task pr); dst = pr_dst pr
      in if info \<noteq> mi_version s then Some (VersionInfo 0 0, s)
         else case map_of (table_info s) name of
           None \<Rightarrow> Some (VersionInfo 0 0, s)
         | Some t \<Rightarrow>
             (if i < 0 \<or> i \<ge> int (length (mt_partitions t)) then None
              else
                let p = mt_partitions t ! nat i
                in if master_of p = dst \<or> dst \<in> set (mp_slaves p) then Some (mi_version s, s)
                   else
                     let p = commit_partition pr (mt_duplicate_num t) p;
                         s = s\<lparr>node_table := UpdateNodeTable dst name (node_table s)\<rparr>;
                         s = bump_version s;
                         t = t\<lparr>mt_partitions := (mt_partitions t)[nat i := p], mt_version := v_version (mi_version s)\<rparr>
                     in Some (mi_version s, s\<lparr>table_info := AList.update name t (table_info s)\<rparr>)))"

end
