(* ===== verification/Noah_Meta_Migrate.thy ===== *)
theory Noah_Meta_Migrate
  imports Noah_Meta_Info
begin

text \<open>
  \<^verbatim>\<open>class MetaMigrate\<close> (\<^verbatim>\<open>noah/meta/meta_migrate.h\<close>, \<^verbatim>\<open>meta_migrate.cc\<close>): the migration
  tasks that wait, the ones in progress, and the choice of the node a partition is copied to.
  The choice is shown to be an alive node that does not hold the partition and carries the
  least load of its table.
\<close>

subsection \<open>State\<close>

type_synonym node_int_map = "(node, int) omap"

record meta_migrate =
  migrate_tasks :: "(string, migrate_task) omap"
  processor_info :: "(string, processor) omap"
  migrating_info :: "(string, node_int_map) omap"

definition MetaMigrate_new :: meta_migrate where
  "MetaMigrate_new = \<lparr>migrate_tasks = [], processor_info = [], migrating_info = []\<rparr>"

definition role_number :: "role \<Rightarrow> int" where
  "role_number r = (case r of MASTER \<Rightarrow> 0 | SLAVE \<Rightarrow> 1)"

definition Task2String :: "migrate_task \<Rightarrow> string" where
  "Task2String task =
     mg_table_name task @ ''_'' @ IntToString (mg_partition_id task) @ ''_'' @
     Node2String (mg_fault_node task) @ ''_'' @ IntToString (role_number (mg_fault_role task))"

definition ProcessorString :: "string \<Rightarrow> int \<Rightarrow> node \<Rightarrow> string" where
  "ProcessorString table_name i dst = table_name @ ''_'' @ IntToString i @ ''_'' @ Node2String dst"

definition HasMigrateTask :: "meta_migrate \<Rightarrow> bool" where
  "HasMigrateTask m \<longleftrightarrow> migrate_tasks m \<noteq> []"

definition AddMigrateTasks :: "migrate_task list \<Rightarrow> meta_migrate \<Rightarrow> meta_migrate" where
  "AddMigrateTasks tasks m =
     m\<lparr>migrate_tasks := foldl (\<lambda>ts task. omap_put (Task2String task) task ts) (migrate_tasks m) tasks\<rparr>"

subsection \<open>The choice of a node\<close>

definition GetMigratingNumber :: "string \<Rightarrow> node \<Rightarrow> meta_migrate \<Rightarrow> int" where
  "GetMigratingNumber table_name n m =
     (case map_of (migrating_info m) table_name of
        None \<Rightarrow> 0
      | Some infos \<Rightarrow> (case map_of infos n of None \<Rightarrow> 0 | Some number \<Rightarrow> number))"

text \<open>The alive nodes without the replicas, then without the nodes the partition is being
  copied to; the set is visited in its order.\<close>

definition candidate_nodes :: "meta_table \<Rightarrow> meta_partition \<Rightarrow> node fset \<Rightarrow> meta_migrate \<Rightarrow> node list" where
  "candidate_nodes t p alive_nodes m =
     (let candidate = foldl (\<lambda>c slave. c |-| {|slave|}) (alive_nodes |-| {|master_of p|}) (mp_slaves p)
      in filter (\<lambda>n. map_of (processor_info m) (ProcessorString (mt_name t) (mp_id p) n) = None)
           (sorted_list_of_fset candidate))"

definition count_replica :: "node list \<Rightarrow> node_int_map \<Rightarrow> node \<Rightarrow> node_int_map" where
  "count_replica candidate np n =
     (if n \<in> set candidate
      then (case map_of np n of None \<Rightarrow> omap_put n 1 np | Some k \<Rightarrow> omap_put n (k + 1) np)
      else np)"

definition count_partition :: "node list \<Rightarrow> node_int_map \<Rightarrow> meta_partition \<Rightarrow> node_int_map" where
  "count_partition candidate np p =
     foldl (count_replica candidate) (count_replica candidate np (master_of p)) (mp_slaves p)"

fun pick_least :: "node \<Rightarrow> node \<Rightarrow> int \<Rightarrow> node_int_map \<Rightarrow> node" where
  "pick_least fault_node dst cnt [] = dst"
| "pick_least fault_node dst cnt ((n, k) # np) =
     (if cnt > k then pick_least fault_node n k np
      else if cnt = k then pick_least fault_node (if fault_node = n then n else dst) cnt np
      else pick_least fault_node dst cnt np)"

definition FindCandidateNode ::
  "meta_table \<Rightarrow> meta_partition \<Rightarrow> node fset \<Rightarrow> node \<Rightarrow> meta_migrate \<Rightarrow> node option" where
  "FindCandidateNode t p alive_nodes fault_node m =
     (let candidate = candidate_nodes t p alive_nodes m;
          node_partitions = foldl (\<lambda>np n. omap_insert n (GetMigratingNumber (mt_name t) n m) np) [] candidate
      in if candidate = [] then None
         else if length candidate = 1 then Some (hd candidate)
         else
           case foldl (count_partition candidate) node_partitions (mt_partitions t) of
             [] \<Rightarrow> None
           | (n, cnt) # rest \<Rightarrow> Some (pick_least fault_node n cnt rest))"

subsection \<open>Handing out and committing tasks\<close>

definition start_processor :: "string \<Rightarrow> processor \<Rightarrow> meta_migrate \<Rightarrow> meta_migrate" where
  "start_processor task_key pr m =
     (let name = mg_table_name (pr_task pr); candidate = pr_dst pr;
          processor_str = ProcessorString name (mg_partition_id (pr_task pr)) candidate;
          info = (case map_of (migrating_info m) name of
                    None \<Rightarrow> omap_insert name (omap_insert candidate 1 []) (migrating_info m)
                  | Some ns \<Rightarrow>
                      (case map_of ns candidate of
                         Some k \<Rightarrow> omap_put name (omap_put candidate (k + 1) ns) (migrating_info m)
                       | None \<Rightarrow> omap_put name (omap_insert candidate 1 ns) (migrating_info m)))
      in m\<lparr>migrating_info := info,
           processor_info := omap_put processor_str pr (processor_info m),
           migrate_tasks := omap_erase task_key (migrate_tasks m)\<rparr>)"

text \<open>
  The range-for over the tasks. Erasing the current task and going on advances an iterator
  that is no longer valid, and an index outside the partitions is not checked: both are
  \<open>None\<close>, the undefined behaviour.
\<close>

fun task_loop ::
  "node \<Rightarrow> meta_info \<Rightarrow> node fset \<Rightarrow> (string \<times> migrate_task) list \<Rightarrow> meta_migrate
     \<Rightarrow> (processor option \<times> meta_migrate) option" where
  "task_loop n snapshot alive_nodes [] m = Some (None, m)"
| "task_loop n snapshot alive_nodes ((key, task) # tasks) m =
     (case map_of (table_info snapshot) (mg_table_name task) of
        None \<Rightarrow> None
      | Some t \<Rightarrow>
          (if mg_partition_id task < 0 \<or> mg_partition_id task \<ge> int (length (mt_partitions t)) then None
           else
             let p = mt_partitions t ! nat (mg_partition_id task)
             in if mp_master p = None then None
                else if master_of p \<noteq> n then task_loop n snapshot alive_nodes tasks m
                else case FindCandidateNode t p alive_nodes (mg_fault_node task) m of
                  None \<Rightarrow> task_loop n snapshot alive_nodes tasks m
                | Some candidate \<Rightarrow>
                    (let pr = \<lparr>pr_task = task, pr_src = master_of p, pr_dst = candidate\<rparr>
                     in Some (Some pr, start_processor key pr m))))"

definition GetMigrateTask ::
  "node \<Rightarrow> meta_info \<Rightarrow> meta_migrate \<Rightarrow> (processor option \<times> meta_migrate) option" where
  "GetMigrateTask n snapshot m =
     (if migrate_tasks m = [] then Some (None, m)
      else task_loop n snapshot (GetAliveNodes snapshot) (migrate_tasks m) m)"

definition MetaMigrate_CommitMigrate :: "processor \<Rightarrow> meta_migrate \<Rightarrow> meta_migrate" where
  "MetaMigrate_CommitMigrate pr m =
     (let name = mg_table_name (pr_task pr);
          processor_str = ProcessorString name (mg_partition_id (pr_task pr)) (pr_dst pr);
          m = m\<lparr>processor_info := omap_erase processor_str (processor_info m)\<rparr>;
          m = m\<lparr>migrate_tasks := omap_erase (Task2String (pr_task pr)) (migrate_tasks m)\<rparr>
      in case map_of (migrating_info m) name of
           None \<Rightarrow> m
         | Some ns \<Rightarrow>
             (case map_of ns (pr_dst pr) of
                None \<Rightarrow> m
              | Some k \<Rightarrow>
                  m\<lparr>migrating_info := omap_put name
                       (if k - 1 = 0 then omap_erase (pr_dst pr) (omap_put (pr_dst pr) (k - 1) ns)
                        else omap_put (pr_dst pr) (k - 1) ns) (migrating_info m)\<rparr>))"

subsection \<open>The load of a node\<close>

definition replicas :: "meta_partition \<Rightarrow> node list" where
  "replicas p = master_of p # mp_slaves p"

definition node_load :: "meta_table \<Rightarrow> meta_migrate \<Rightarrow> node \<Rightarrow> int" where
  "node_load t m n =
     GetMigratingNumber (mt_name t) n m + int (count_list (concat (map replicas (mt_partitions t))) n)"

lemma candidate_nodes_iff:
  "n \<in> set (candidate_nodes t p alive m) \<longleftrightarrow>
     n |\<in>| alive \<and> n \<notin> set (replicas p) \<and>
     map_of (processor_info m) (ProcessorString (mt_name t) (mp_id p) n) = None"
proof -
  have "x |\<in>| foldl (\<lambda>c slave. c |-| {|slave|}) c ss \<longleftrightarrow> x |\<in>| c \<and> x \<notin> set ss" for x :: node and c ss
    by (induction ss arbitrary: c) auto
  then show ?thesis by (auto simp: candidate_nodes_def replicas_def Let_def)
qed

lemma distinct_candidate_nodes: "distinct (candidate_nodes t p alive m)"
  by (simp add: candidate_nodes_def Let_def sorted_list_of_fset.rep_eq)

text \<open>Counting replicas adds to every candidate its number of occurrences.\<close>

definition counts :: "node list \<Rightarrow> (node \<Rightarrow> int) \<Rightarrow> node_int_map \<Rightarrow> bool" where
  "counts cand f np \<longleftrightarrow> omap_wf np \<and> map_of np = (\<lambda>n. if n \<in> set cand then Some (f n) else None)"

lemma counts_replica:
  assumes "counts cand f np"
  shows "counts cand (f(n := f n + 1)) (count_replica cand np n)"
  using assms by (auto simp: counts_def count_replica_def fun_eq_iff)

lemma counts_replicas:
  assumes "counts cand f np"
  shows "counts cand (\<lambda>n. f n + int (count_list ns n)) (foldl (count_replica cand) np ns)"
  using assms
proof (induction ns arbitrary: f np)
  case (Cons x ns)
  have eq: "(\<lambda>n. (f(x := f x + 1)) n + int (count_list ns n)) =
      (\<lambda>n. f n + int (count_list (x # ns) n))" by auto
  show ?case
    using Cons.IH [OF counts_replica [OF Cons.prems, of x]] unfolding eq by simp
qed simp

lemma counts_partitions:
  assumes "counts cand f np"
  shows "counts cand (\<lambda>n. f n + int (count_list (concat (map replicas ps)) n))
           (foldl (count_partition cand) np ps)"
  using assms
proof (induction ps arbitrary: f np)
  case (Cons p ps)
  have eq: "foldl (count_partition cand) np (p # ps) =
      foldl (count_partition cand) (foldl (count_replica cand) np (replicas p)) ps"
    by (simp add: count_partition_def replicas_def)
  show ?case
    unfolding eq using Cons.IH [OF counts_replicas [OF Cons.prems, of "replicas p"]]
    by (simp add: add.assoc)
qed simp

lemma counts_start:
  assumes "distinct cand"
  shows "counts cand f (foldl (\<lambda>np n. omap_insert n (f n) np) [] cand)"
  using assms
proof (induction cand rule: rev_induct)
  case (snoc x xs)
  let ?np = "foldl (\<lambda>np n. omap_insert n (f n) np) [] xs"
  have np: "omap_wf ?np" "map_of ?np = (\<lambda>n. if n \<in> set xs then Some (f n) else None)"
    using snoc by (auto simp: counts_def)
  then have "map_of ?np x = None" using snoc.prems by simp
  then show ?case using np by (auto simp: counts_def omap_insert_def fun_eq_iff)
qed (simp add: counts_def omap_wf_def)

lemma pick_least:
  assumes "omap_wf ((dst, cnt) # np)" and "r = pick_least fault dst cnt np"
  shows "\<exists>k. (r, k) \<in> set ((dst, cnt) # np) \<and> (\<forall>(n, j) \<in> set ((dst, cnt) # np). k \<le> j)"
proof -
  have "\<exists>k. (pick_least fault d c np, k) \<in> set ((d, c) # np) \<and> k \<le> c \<and> (\<forall>(n, j) \<in> set np. k \<le> j)"
    for d c
  proof (induction fault d c np rule: pick_least.induct)
    case (2 fault dst cnt n k np)
    consider "cnt > k" | "cnt = k" | "cnt < k" by linarith
    then show ?case
    proof cases
      case 1
      from "2.IH"(1) [OF 1] 1 show ?thesis by fastforce
    next
      case 2
      with "2.IH"(2) show ?thesis by fastforce
    next
      case 3
      with "2.IH"(3) show ?thesis by fastforce
    qed
  qed simp
  from this [of dst cnt] show ?thesis using assms(2) by fastforce
qed

lemma FindCandidateNode_least:
  assumes "FindCandidateNode t p alive fault m = Some dst"
  shows "dst \<in> set (candidate_nodes t p alive m)"
    and "\<forall>n \<in> set (candidate_nodes t p alive m). node_load t m dst \<le> node_load t m n"
proof -
  let ?c = "candidate_nodes t p alive m" and ?f = "\<lambda>n. GetMigratingNumber (mt_name t) n m"
  let ?np = "foldl (count_partition ?c) (foldl (\<lambda>np n. omap_insert n (?f n) np) [] ?c) (mt_partitions t)"
  have "counts ?c (node_load t m) ?np"
    using counts_partitions [OF counts_start [where f = ?f, OF distinct_candidate_nodes [of t p alive m]], of "mt_partitions t"]
    by (simp add: node_load_def [abs_def])
  then have np: "omap_wf ?np"
    "\<And>n j. (n, j) \<in> set ?np \<longleftrightarrow> n \<in> set ?c \<and> j = node_load t m n"
    by (auto simp: counts_def omap_mem_iff)
  have "dst \<in> set ?c \<and> (\<forall>n \<in> set ?c. node_load t m dst \<le> node_load t m n)"
  proof (cases "length ?c = 1")
    case True
    then obtain x where "?c = [x]" by (auto simp: length_Suc_conv)
    then show ?thesis using assms by (simp add: FindCandidateNode_def)
  next
    case False
    then obtain n0 k0 rest where c: "?np = (n0, k0) # rest" "dst = pick_least fault n0 k0 rest"
      using assms by (auto simp: FindCandidateNode_def Let_def split: if_splits list.splits)
    from pick_least [of n0 k0 rest dst fault] np(1) c obtain k where
      "(dst, k) \<in> set ?np" "\<forall>(n, j) \<in> set ?np. k \<le> j" by auto
    then show ?thesis using np(2) by auto
  qed
  then show "dst \<in> set ?c" and "\<forall>n \<in> set ?c. node_load t m dst \<le> node_load t m n" by auto
qed

lemma FindCandidateNode_None:
  assumes "FindCandidateNode t p alive fault m = None"
  shows "candidate_nodes t p alive m = []"
proof (rule ccontr)
  let ?c = "candidate_nodes t p alive m" and ?f = "\<lambda>n. GetMigratingNumber (mt_name t) n m"
  let ?np = "foldl (count_partition ?c) (foldl (\<lambda>np n. omap_insert n (?f n) np) [] ?c) (mt_partitions t)"
  assume ne: "?c \<noteq> []"
  have "counts ?c (\<lambda>n. ?f n + int (count_list (concat (map replicas (mt_partitions t))) n)) ?np"
    by (rule counts_partitions [OF counts_start [OF distinct_candidate_nodes]])
  then have "map_of ?np (hd ?c) \<noteq> None" using ne by (simp add: counts_def)
  moreover have "?np = []"
    using assms ne by (auto simp: FindCandidateNode_def Let_def split: if_splits list.splits)
  ultimately show False by simp
qed

text \<open>
  C32: \<open>FindCandidateNode\<close> finds a node exactly when some alive node neither holds a replica
  of the partition nor is receiving one; the node it finds is such a node, and no other
  such node carries a smaller load, the replicas of the table it holds plus the
  migrations of the table that are on their way to it.
\<close>

theorem find_candidate_least_loaded:
  "case FindCandidateNode t p alive_nodes fault_node m of
     None \<Rightarrow> \<forall>n. n |\<in>| alive_nodes \<longrightarrow> n \<in> set (replicas p) \<or>
       map_of (processor_info m) (ProcessorString (mt_name t) (mp_id p) n) \<noteq> None
   | Some dst \<Rightarrow>
       dst |\<in>| alive_nodes \<and> dst \<notin> set (replicas p) \<and>
       map_of (processor_info m) (ProcessorString (mt_name t) (mp_id p) dst) = None \<and>
       (\<forall>n. n |\<in>| alive_nodes \<and> n \<notin> set (replicas p) \<and>
            map_of (processor_info m) (ProcessorString (mt_name t) (mp_id p) n) = None
          \<longrightarrow> node_load t m dst \<le> node_load t m n)"
proof (cases "FindCandidateNode t p alive_nodes fault_node m")
  case None
  then have "n \<notin> set (candidate_nodes t p alive_nodes m)" for n
    by (simp add: FindCandidateNode_None)
  then show ?thesis using None by (auto simp: candidate_nodes_iff)
next
  case (Some dst)
  show ?thesis
    using FindCandidateNode_least [OF Some] Some by (auto simp: candidate_nodes_iff)
qed

definition ex_meta_table :: meta_table where
  "ex_meta_table = \<lparr>mt_name = ''t'',
     mt_partitions = [\<lparr>mp_id = 0, mp_status = SLOWDOWN, mp_master = Some (Node ''a'' 1), mp_slaves = []\<rparr>,
                      \<lparr>mp_id = 1, mp_status = ACTIVE, mp_master = Some (Node ''b'' 2),
                       mp_slaves = [Node ''a'' 1]\<rparr>],
     mt_duplicate_num = 2, mt_capacity = 0, mt_version = 1\<rparr>"

theorem find_candidate_least_loaded_witness:
  "FindCandidateNode ex_meta_table (mt_partitions ex_meta_table ! 0)
     {|Node ''a'' 1, Node ''b'' 2, Node ''c'' 3|} (Node ''b'' 2) MetaMigrate_new = Some (Node ''c'' 3) \<and>
   Node ''c'' 3 \<notin> set (replicas (mt_partitions ex_meta_table ! 0)) \<and>
   node_load ex_meta_table MetaMigrate_new (Node ''c'' 3) \<le> node_load ex_meta_table MetaMigrate_new (Node ''b'' 2)"
proof -
  let ?p = "mt_partitions ex_meta_table ! 0" and ?alive = "{|Node ''a'' 1, Node ''b'' 2, Node ''c'' 3|}"
  have f: "FindCandidateNode ex_meta_table ?p ?alive (Node ''b'' 2) MetaMigrate_new = Some (Node ''c'' 3)"
    by code_simp
  have b: "Node ''b'' 2 \<notin> set (replicas ?p)" by code_simp
  have n: "map_of (processor_info MetaMigrate_new) k = None" for k by (simp add: MetaMigrate_new_def)
  show ?thesis
    using find_candidate_least_loaded [where t = ex_meta_table and p = ?p and alive_nodes = ?alive
        and fault_node = "Node ''b'' 2" and m = MetaMigrate_new] f b n
    by simp
qed

subsection \<open>Handing out and committing\<close>

lemma commit_start_number:
  "GetMigratingNumber name n (MetaMigrate_CommitMigrate pr (start_processor key pr m)) =
   GetMigratingNumber name n m"
  by (auto simp: MetaMigrate_CommitMigrate_def start_processor_def GetMigratingNumber_def Let_def
      omap_insert_def split: option.splits)

lemma task_loop_Some:
  assumes "task_loop n snapshot alive tasks m = Some (Some pr, m')"
  shows "\<exists>key t. (key, pr_task pr) \<in> set tasks \<and>
    map_of (table_info snapshot) (mg_table_name (pr_task pr)) = Some t \<and>
    0 \<le> mg_partition_id (pr_task pr) \<and> nat (mg_partition_id (pr_task pr)) < length (mt_partitions t) \<and>
    mp_master (mt_partitions t ! nat (mg_partition_id (pr_task pr))) = Some n \<and> pr_src pr = n \<and>
    FindCandidateNode t (mt_partitions t ! nat (mg_partition_id (pr_task pr))) alive
      (mg_fault_node (pr_task pr)) m = Some (pr_dst pr) \<and>
    m' = start_processor key pr m"
  using assms
proof (induction n snapshot alive tasks m rule: task_loop.induct)
  case (2 n snapshot alive key task tasks m)
  from 2 show ?case
    by (fastforce simp: Let_def master_of_def split: option.splits if_splits)
qed simp

text \<open>What a task list and a snapshot have in every run: tasks are stored under their text,
  tables under their name, and partition \<open>i\<close> of a table has the id \<open>i\<close>.\<close>

definition tasks_keyed :: "meta_migrate \<Rightarrow> bool" where
  "tasks_keyed m \<longleftrightarrow> (\<forall>(key, task) \<in> set (migrate_tasks m). key = Task2String task)"

definition tables_keyed :: "meta_info \<Rightarrow> bool" where
  "tables_keyed s \<longleftrightarrow> (\<forall>(name, t) \<in> set (table_info s).
     mt_name t = name \<and> (\<forall>i < length (mt_partitions t). mp_id (mt_partitions t ! i) = int i))"

lemma migrate_task_facts:
  assumes "tasks_keyed m" and "tables_keyed snapshot"
    and "GetMigrateTask n snapshot m = Some (Some pr, m')"
    and "m'' = MetaMigrate_CommitMigrate pr m'"
  shows "Task2String (pr_task pr) \<in> fst ` set (migrate_tasks m)"
    and "\<exists>t. map_of (table_info snapshot) (mg_table_name (pr_task pr)) = Some t \<and>
           mp_master (mt_partitions t ! nat (mg_partition_id (pr_task pr))) = Some n \<and>
           pr_dst pr \<notin> set (replicas (mt_partitions t ! nat (mg_partition_id (pr_task pr))))"
    and "pr_dst pr |\<in>| GetAliveNodes snapshot"
    and "map_of (migrate_tasks m'') = (map_of (migrate_tasks m))(Task2String (pr_task pr) := None)"
    and "map_of (processor_info m'') = map_of (processor_info m)"
    and "GetMigratingNumber name d m'' = GetMigratingNumber name d m"
proof -
  let ?i = "mg_partition_id (pr_task pr)"
  from assms(3) have "task_loop n snapshot (GetAliveNodes snapshot) (migrate_tasks m) m = Some (Some pr, m')"
    by (simp add: GetMigrateTask_def split: if_splits)
  from task_loop_Some [OF this] obtain key t where
    key: "(key, pr_task pr) \<in> set (migrate_tasks m)" and
    t: "map_of (table_info snapshot) (mg_table_name (pr_task pr)) = Some t" and
    i: "0 \<le> ?i" "nat ?i < length (mt_partitions t)" and
    p: "mp_master (mt_partitions t ! nat ?i) = Some n" and
    f: "FindCandidateNode t (mt_partitions t ! nat ?i) (GetAliveNodes snapshot)
          (mg_fault_node (pr_task pr)) m = Some (pr_dst pr)" and
    m': "m' = start_processor key pr m" by blast
  have k: "key = Task2String (pr_task pr)" using key assms(1) by (auto simp: tasks_keyed_def)
  have "mt_name t = mg_table_name (pr_task pr)" "mp_id (mt_partitions t ! nat ?i) = ?i"
    using assms(2) map_of_SomeD [OF t] i by (auto simp: tables_keyed_def)
  with FindCandidateNode_least(1) [OF f] have c:
    "pr_dst pr |\<in>| GetAliveNodes snapshot" "pr_dst pr \<notin> set (replicas (mt_partitions t ! nat ?i))"
    "map_of (processor_info m) (ProcessorString (mg_table_name (pr_task pr)) ?i (pr_dst pr)) = None"
    by (auto simp: candidate_nodes_iff)
  show "Task2String (pr_task pr) \<in> fst ` set (migrate_tasks m)" using key k by force
  show "\<exists>t. map_of (table_info snapshot) (mg_table_name (pr_task pr)) = Some t \<and>
      mp_master (mt_partitions t ! nat ?i) = Some n \<and>
      pr_dst pr \<notin> set (replicas (mt_partitions t ! nat ?i))" using t p c by blast
  show "pr_dst pr |\<in>| GetAliveNodes snapshot" by (rule c)
  show "map_of (migrate_tasks m'') = (map_of (migrate_tasks m))(Task2String (pr_task pr) := None)"
    unfolding assms(4) m' k
    by (auto simp: MetaMigrate_CommitMigrate_def start_processor_def Let_def split: option.split)
  show "map_of (processor_info m'') = map_of (processor_info m)"
    unfolding assms(4) m' using c(3)
    by (auto simp: MetaMigrate_CommitMigrate_def start_processor_def Let_def fun_eq_iff split: option.split)
  show "GetMigratingNumber name d m'' = GetMigratingNumber name d m"
    unfolding assms(4) m' by (rule commit_start_number)
qed

text \<open>
  C33: a task that is handed out to a node is one that was waiting, the node is the master
  of its partition, and the destination is alive and holds no replica of the partition.
  Committing it removes the task and leaves the other tasks, the migrations in
  progress and the number of migrations per table and node as they were.
\<close>

theorem migrate_task_cycle:
  assumes "tasks_keyed m" and "tables_keyed snapshot"
    and "GetMigrateTask n snapshot m = Some (Some pr, m')"
    and "m'' = MetaMigrate_CommitMigrate pr m'"
  shows "Task2String (pr_task pr) \<in> fst ` set (migrate_tasks m) \<and>
    (\<exists>t. map_of (table_info snapshot) (mg_table_name (pr_task pr)) = Some t \<and>
       mp_master (mt_partitions t ! nat (mg_partition_id (pr_task pr))) = Some n \<and>
       pr_dst pr \<notin> set (replicas (mt_partitions t ! nat (mg_partition_id (pr_task pr))))) \<and>
    pr_dst pr |\<in>| GetAliveNodes snapshot \<and>
    map_of (migrate_tasks m'') = (map_of (migrate_tasks m))(Task2String (pr_task pr) := None) \<and>
    map_of (processor_info m'') = map_of (processor_info m) \<and>
    GetMigratingNumber name d m'' = GetMigratingNumber name d m"
  by (intro conjI) (rule migrate_task_facts [OF assms])+

definition ex_task :: migrate_task where
  "ex_task = \<lparr>mg_table_name = ''t'', mg_partition_id = 0, mg_fault_node = Node ''b'' 2, mg_fault_role = SLAVE\<rparr>"

definition ex_snapshot :: meta_info where
  "ex_snapshot = \<lparr>mi_version = VersionInfo 1 1, table_info = [(''t'', ex_meta_table)],
     node_table = (\<lambda>_. None), mi_nodes = [(''a:1'', 5), (''b:2'', 0), (''c:3'', 7)]\<rparr>"

definition ex_migrate :: meta_migrate where
  "ex_migrate = AddMigrateTasks [ex_task] MetaMigrate_new"

theorem migrate_task_cycle_witness:
  "\<exists>pr m'. GetMigrateTask (Node ''a'' 1) ex_snapshot ex_migrate = Some (Some pr, m') \<and>
     pr_dst pr = Node ''c'' 3 \<and> migrate_tasks ex_migrate \<noteq> [] \<and>
     map_of (migrate_tasks (MetaMigrate_CommitMigrate pr m')) (Task2String ex_task) = None \<and>
     GetMigratingNumber ''t'' (Node ''c'' 3) (MetaMigrate_CommitMigrate pr m') = 0"
proof -
  let ?r = "GetMigrateTask (Node ''a'' 1) ex_snapshot ex_migrate"
  let ?pr = "\<lparr>pr_task = ex_task, pr_src = Node ''a'' 1, pr_dst = Node ''c'' 3\<rparr>"
  have e: "map_option fst ?r = Some (Some ?pr)" by code_simp
  then obtain m' where r: "?r = Some (Some ?pr, m')" by (cases ?r) auto
  have k: "tasks_keyed ex_migrate" "tables_keyed ex_snapshot" "migrate_tasks ex_migrate \<noteq> []"
    "GetMigratingNumber ''t'' (Node ''c'' 3) ex_migrate = 0"
    by code_simp+
  show ?thesis
    using migrate_task_cycle [OF k(1,2) r refl, of "''t''" "Node ''c'' 3"] r k(3,4) by auto
qed

end
