(* ===== verification/Noah_Meta_Command.thy ===== *)
theory Noah_Meta_Command
  imports Noah_Meta_Migrate Raft_Configuration
begin

text \<open>
  \<^verbatim>\<open>class MetaCommand\<close> (\<^verbatim>\<open>noah/meta/meta_command.h\<close>, \<^verbatim>\<open>meta_command.cc\<close>) with the messages
  of \<^verbatim>\<open>meta.proto\<close>, and \<^verbatim>\<open>class MetaServer\<close> (\<^verbatim>\<open>meta_server.h\<close>, \<^verbatim>\<open>meta_server.cc\<close>), the
  replicated state machine around it, the definitions. \<^verbatim>\<open>MetaCommand\<close> holds pointers into the
  server, so both share one record; a \<^verbatim>\<open>NULL\<close> response is \<open>None\<close>.
\<close>

subsection \<open>Messages\<close>

datatype meta_type =
  PING | PULL | INIT | LISTTABLE | LISTNODE | LISTMETA | DROPTABLE | DOWNNODES |
  SETMASTER | ADDSLAVE | REMOVESLAVE | MIGRATE

datatype meta_status = OK | EEPOCH | ERROR | REDIRECT | NOTFOUND | EXIST | NOTSUPPORT | UNKNOWN

record node_status =
  ns_node :: node
  ns_state :: node_state

record migrate_unit =
  mu_name :: string
  mu_id :: int
  mu_fault :: node
  mu_src :: node
  mu_dst :: node
  mu_role :: role

record meta_nodes =
  mn_leader :: node
  mn_followers :: "node list"

record meta_cmd_request =
  rq_type :: meta_type
  rq_version :: version_info
  rq_ping_node :: node
  rq_pull_node :: "node option"
  rq_pull_names :: "string list"
  rq_pull_all :: bool
  rq_init_table :: meta_table
  rq_drop_names :: "string list"
  rq_down_nodes :: "node list"
  rq_migrate_unit :: migrate_unit

record meta_cmd_response =
  rs_version :: version_info
  rs_status :: meta_status
  rs_redirect :: string
  rs_ping_migrate :: "migrate_unit option"
  rs_pull_info :: "meta_table list"
  rs_pull_nodes :: "node_status list"
  rs_tables :: "string list"
  rs_nodes :: "node_status list"
  rs_meta :: "meta_nodes option"

definition default_migrate_unit :: migrate_unit where
  "default_migrate_unit = \<lparr>mu_name = [], mu_id = 0, mu_fault = default_node, mu_src = default_node,
     mu_dst = default_node, mu_role = MASTER\<rparr>"

definition default_meta_table :: meta_table where
  "default_meta_table = \<lparr>mt_name = [], mt_partitions = [], mt_duplicate_num = 0, mt_capacity = 0, mt_version = 0\<rparr>"

definition default_request :: meta_cmd_request where
  "default_request = \<lparr>rq_type = PING, rq_version = VersionInfo 0 0, rq_ping_node = default_node,
     rq_pull_node = None, rq_pull_names = [], rq_pull_all = False, rq_init_table = default_meta_table,
     rq_drop_names = [], rq_down_nodes = [], rq_migrate_unit = default_migrate_unit\<rparr>"

definition default_response :: meta_cmd_response where
  "default_response = \<lparr>rs_version = VersionInfo 0 0, rs_status = OK, rs_redirect = [],
     rs_ping_migrate = None, rs_pull_info = [], rs_pull_nodes = [], rs_tables = [], rs_nodes = [],
     rs_meta = None\<rparr>"

subsection \<open>The state of the server\<close>

record meta_server =
  ms_migrate :: meta_migrate
  ms_info :: meta_info
  ms_snapshot :: "meta_info option"
  ms_leader_term :: int

definition MetaServer_new :: meta_server where
  "MetaServer_new = \<lparr>ms_migrate = MetaMigrate_new, ms_info = MetaInfo_new, ms_snapshot = None, ms_leader_term = -1\<rparr>"

definition Processor_of_unit :: "migrate_unit \<Rightarrow> processor" where
  "Processor_of_unit u =
     \<lparr>pr_task = \<lparr>mg_table_name = mu_name u, mg_partition_id = mu_id u, mg_fault_node = mu_fault u,
                 mg_fault_role = mu_role u\<rparr>,
      pr_src = mu_src u, pr_dst = mu_dst u\<rparr>"

definition set_result :: "meta_status \<Rightarrow> version_info \<Rightarrow> meta_cmd_response \<Rightarrow> meta_cmd_response" where
  "set_result st info r = r\<lparr>rs_status := st, rs_version := info\<rparr>"

subsection \<open>The shared snapshot and the epoch check\<close>

definition GetMetaInfoSnapshot :: "meta_server \<Rightarrow> meta_info \<times> meta_server" where
  "GetMetaInfoSnapshot m =
     (case ms_snapshot m of
        Some snapshot \<Rightarrow>
          (if \<not> MetaInfo_Changed (mi_version snapshot) (ms_info m) then (snapshot, m)
           else (let snapshot = GetSnapshot (ms_info m) in (snapshot, m\<lparr>ms_snapshot := Some snapshot\<rparr>)))
      | None \<Rightarrow> (let snapshot = GetSnapshot (ms_info m) in (snapshot, m\<lparr>ms_snapshot := Some snapshot\<rparr>)))"

definition CheckEpoch ::
  "version_info \<Rightarrow> meta_cmd_request \<Rightarrow> meta_cmd_response option \<Rightarrow> bool \<times> meta_cmd_response option" where
  "CheckEpoch info request response =
     (if rq_type request = PING \<or> rq_type request = PULL then (True, response)
      else if v_epoch info \<noteq> v_epoch (rq_version request)
      then (False, map_option (set_result EEPOCH info) response)
      else if rq_type request = INIT \<and> v_version info \<noteq> v_version (rq_version request)
      then (True, map_option (set_result EEPOCH info) response)
      else (True, response))"

subsection \<open>Handlers of the applied commands\<close>

text \<open>\<open>None\<close> is the undefined behaviour of the operations called.\<close>

definition DealPing ::
  "((string \<times> nat) list \<Rightarrow> (string \<times> nat) list) \<Rightarrow> nat \<Rightarrow> meta_cmd_request
     \<Rightarrow> meta_cmd_response option \<Rightarrow> meta_server \<Rightarrow> (meta_cmd_response option \<times> meta_server) option" where
  "DealPing rhn now request response m =
     (let (snapshot, m) = GetMetaInfoSnapshot m;
          (ok, response) = CheckEpoch (mi_version snapshot) request response
      in if \<not> ok then Some (response, m)
         else
           let (info, mi) = UpdateNode rhn now (rq_ping_node request) (ms_info m);
               m = m\<lparr>ms_info := mi\<rparr>
           in map_option (\<lambda>(response, m). (map_option (set_result OK info) response, m))
                (if HasMigrateTask (ms_migrate m)
                 then (let (snapshot, m) = GetMetaInfoSnapshot m
                       in case GetMigrateTask (rq_ping_node request) snapshot (ms_migrate m) of
                            None \<Rightarrow> None
                          | Some (None, mm) \<Rightarrow> Some (response, m\<lparr>ms_migrate := mm\<rparr>)
                          | Some (Some pr, mm) \<Rightarrow>
                              Some (map_option (\<lambda>r. r\<lparr>rs_ping_migrate := Some
                                       \<lparr>mu_name = mg_table_name (pr_task pr), mu_id = mg_partition_id (pr_task pr),
                                        mu_fault = mg_fault_node (pr_task pr), mu_src = pr_src pr,
                                        mu_dst = pr_dst pr, mu_role = mg_fault_role (pr_task pr)\<rparr>\<rparr>) response,
                                    m\<lparr>ms_migrate := mm\<rparr>))
                 else Some (response, m)))"

definition DealInit ::
  "((string \<times> meta_table) list \<Rightarrow> (string \<times> meta_table) list) \<Rightarrow> meta_cmd_request
     \<Rightarrow> meta_cmd_response option \<Rightarrow> meta_server \<Rightarrow> meta_cmd_response option \<times> meta_server" where
  "DealInit rht request response m =
     (let (info, mi) = CreateTable rht (rq_version request) (rq_init_table request) (ms_info m)
      in (map_option (\<lambda>r. if v_epoch info > 0 then set_result OK info r
                          else if v_epoch info = 0 then r\<lparr>rs_status := EXIST\<rparr>
                          else r\<lparr>rs_status := EEPOCH\<rparr>) response,
          m\<lparr>ms_info := mi\<rparr>))"

definition set_committed :: "version_info \<Rightarrow> meta_info \<Rightarrow> meta_cmd_response \<Rightarrow> meta_cmd_response" where
  "set_committed info mi r =
     (if v_epoch info \<noteq> 0 then set_result OK info r else set_result EEPOCH (mi_version mi) r)"

definition DealDropTable ::
  "meta_cmd_request \<Rightarrow> meta_cmd_response option \<Rightarrow> meta_server \<Rightarrow> meta_cmd_response option \<times> meta_server" where
  "DealDropTable request response m =
     (let (info, mi) = DropTable (rq_version request) (rq_drop_names request) (ms_info m)
      in (map_option (set_committed info mi) response, m\<lparr>ms_info := mi\<rparr>))"

definition DealDownNodes ::
  "meta_cmd_request \<Rightarrow> meta_cmd_response option \<Rightarrow> meta_server \<Rightarrow> meta_cmd_response option \<times> meta_server" where
  "DealDownNodes request response m =
     (let (info, tasks, mi) = DownNodes (v_epoch (rq_version request)) (rq_down_nodes request) [] (ms_info m);
          m = m\<lparr>ms_info := mi\<rparr>;
          m = (if v_epoch info \<noteq> 0 then m\<lparr>ms_migrate := AddMigrateTasks tasks (ms_migrate m)\<rparr> else m)
      in (map_option (set_committed info mi) response, m))"

definition DealMigrate ::
  "meta_cmd_request \<Rightarrow> meta_cmd_response option \<Rightarrow> meta_server
     \<Rightarrow> (meta_cmd_response option \<times> meta_server) option" where
  "DealMigrate request response m =
     (let pr = Processor_of_unit (rq_migrate_unit request)
      in case CommitMigrate (rq_version request) pr (ms_info m) of
           None \<Rightarrow> None
         | Some (info, mi) \<Rightarrow>
             (let m = m\<lparr>ms_info := mi\<rparr>;
                  m = (if v_epoch info \<noteq> 0 then m\<lparr>ms_migrate := MetaMigrate_CommitMigrate pr (ms_migrate m)\<rparr> else m)
              in Some (map_option (set_committed info mi) response, m)))"

record layout =
  lay_nodes :: "(string \<times> nat) list \<Rightarrow> (string \<times> nat) list"
  lay_tables :: "(string \<times> meta_table) list \<Rightarrow> (string \<times> meta_table) list"

text \<open>\<open>DealRequest\<close> is what every replica runs on a committed log entry.\<close>

definition DealRequest ::
  "layout \<Rightarrow> nat \<Rightarrow> meta_cmd_request \<Rightarrow> meta_cmd_response option \<Rightarrow> meta_server
     \<Rightarrow> (meta_cmd_response option \<times> meta_server) option" where
  "DealRequest l now request response m =
     (case rq_type request of
        PING \<Rightarrow> DealPing (lay_nodes l) now request response m
      | INIT \<Rightarrow> Some (DealInit (lay_tables l) request response m)
      | DROPTABLE \<Rightarrow> Some (DealDropTable request response m)
      | DOWNNODES \<Rightarrow> Some (DealDownNodes request response m)
      | MIGRATE \<Rightarrow> DealMigrate request response m
      | _ \<Rightarrow> Some (map_option (\<lambda>r. r\<lparr>rs_status := NOTSUPPORT\<rparr>) response, m))"

subsection \<open>Handlers of the reading commands\<close>

definition node_statuses :: "(string, nat) umap \<Rightarrow> node_status list" where
  "node_statuses nodes =
     map (\<lambda>p. \<lparr>ns_node = String2Node (fst p) default_node,
               ns_state = (if snd p = 0 then DOWN else UP)\<rparr>) nodes"

text \<open>Reading \<^verbatim>\<open>node_table[node_str]\<close> adds an empty set to the shared snapshot.\<close>

definition pull_tables :: "meta_cmd_request \<Rightarrow> meta_info \<Rightarrow> meta_table list \<times> meta_info" where
  "pull_tables request snapshot =
     (case rq_pull_node request of
        Some n \<Rightarrow>
          (let node_str = Node2String n;
               nt = (case node_table snapshot node_str of
                       None \<Rightarrow> (node_table snapshot)(node_str \<mapsto> {||}) | Some _ \<Rightarrow> node_table snapshot)
           in (List.map_filter (map_of (table_info snapshot)) (sorted_list_of_fset (the (nt node_str))),
               snapshot\<lparr>node_table := nt\<rparr>))
      | None \<Rightarrow>
          (if rq_pull_names request \<noteq> []
           then (List.map_filter (map_of (table_info snapshot)) (rq_pull_names request), snapshot)
           else if rq_pull_all request then (map snd (table_info snapshot), snapshot)
           else ([], snapshot)))"

definition DealPull ::
  "meta_cmd_request \<Rightarrow> meta_cmd_response \<Rightarrow> meta_server \<Rightarrow> meta_cmd_response \<times> meta_server" where
  "DealPull request response m =
     (let (snapshot, m) = GetMetaInfoSnapshot m
      in case CheckEpoch (mi_version snapshot) request (Some response) of
           (False, r) \<Rightarrow> (the r, m)
         | (True, r) \<Rightarrow>
             (let (tables, snapshot) = pull_tables request snapshot;
                  r = (the r)\<lparr>rs_version := mi_version snapshot\<rparr>
              in (r\<lparr>rs_pull_info := rs_pull_info r @ tables,
                    rs_pull_nodes := rs_pull_nodes r @ node_statuses (mi_nodes snapshot),
                    rs_status := OK\<rparr>,
                  m\<lparr>ms_snapshot := Some snapshot\<rparr>)))"

definition list_reply ::
  "(meta_info \<Rightarrow> meta_cmd_response \<Rightarrow> meta_cmd_response) \<Rightarrow> meta_cmd_request \<Rightarrow> meta_cmd_response
     \<Rightarrow> meta_server \<Rightarrow> meta_cmd_response \<times> meta_server" where
  "list_reply fill request response m =
     (let (snapshot, m) = GetMetaInfoSnapshot m
      in case CheckEpoch (mi_version snapshot) request (Some response) of
           (False, r) \<Rightarrow> (the r, m)
         | (True, r) \<Rightarrow> (fill snapshot (set_result OK (mi_version snapshot) (the r)), m))"

definition DealListTable ::
  "meta_cmd_request \<Rightarrow> meta_cmd_response \<Rightarrow> meta_server \<Rightarrow> meta_cmd_response \<times> meta_server" where
  "DealListTable = list_reply (\<lambda>snapshot r. r\<lparr>rs_tables := rs_tables r @ map fst (table_info snapshot)\<rparr>)"

definition DealListNode ::
  "meta_cmd_request \<Rightarrow> meta_cmd_response \<Rightarrow> meta_server \<Rightarrow> meta_cmd_response \<times> meta_server" where
  "DealListNode = list_reply (\<lambda>snapshot r. r\<lparr>rs_nodes := rs_nodes r @ node_statuses (mi_nodes snapshot)\<rparr>)"

text \<open>The four bytes of an address in memory order, printed by \<^verbatim>\<open>inet_ntop\<close>.\<close>

definition ip2str :: "32 word \<Rightarrow> string" where
  "ip2str w =
     (let byte = (\<lambda>i. IntToString (uint w div 256 ^ i mod 256))
      in byte 0 @ ''.'' @ byte 1 @ ''.'' @ byte 2 @ ''.'' @ byte 3)"

definition node_of_peer :: "peer_id \<Rightarrow> node" where
  "node_of_peer p = Node (ip2str (ip p)) (port p)"

text \<open>\<open>list_peers\<close> and \<open>leader_id\<close> of the raft node are arguments.\<close>

definition ListMeta :: "peer_id list option \<Rightarrow> peer_id \<Rightarrow> meta_nodes option" where
  "ListMeta peers leader =
     map_option (\<lambda>ps. \<lparr>mn_leader = node_of_peer leader,
                       mn_followers = map node_of_peer (filter (\<lambda>peer. peer \<noteq> leader) ps)\<rparr>) peers"

definition DealListMeta ::
  "peer_id list option \<Rightarrow> peer_id \<Rightarrow> meta_cmd_response \<Rightarrow> meta_server \<Rightarrow> meta_cmd_response \<times> meta_server" where
  "DealListMeta peers leader response m =
     (let (snapshot, m) = GetMetaInfoSnapshot m;
          r = response\<lparr>rs_version := mi_version snapshot\<rparr>
      in (case ListMeta peers leader of
            Some nodes \<Rightarrow> r\<lparr>rs_meta := Some nodes, rs_status := OK\<rparr>
          | None \<Rightarrow> r\<lparr>rs_meta := Some \<lparr>mn_leader = default_node, mn_followers = []\<rparr>, rs_status := ERROR\<rparr>, m))"

definition PreDealRequest ::
  "peer_id list option \<Rightarrow> peer_id \<Rightarrow> meta_cmd_request \<Rightarrow> meta_cmd_response \<Rightarrow> meta_server
     \<Rightarrow> bool \<times> meta_cmd_response \<times> meta_server" where
  "PreDealRequest peers leader request response m =
     (case rq_type request of
        PULL \<Rightarrow> (True, DealPull request response m)
      | LISTTABLE \<Rightarrow> (True, DealListTable request response m)
      | LISTNODE \<Rightarrow> (True, DealListNode request response m)
      | LISTMETA \<Rightarrow> (True, DealListMeta peers leader response m)
      | _ \<Rightarrow> (False, response, m))"

end
