(* ===== verification/Noah_Meta_Server.thy ===== *)
theory Noah_Meta_Server
  imports Noah_Meta_Command
begin

text \<open>
  \<^verbatim>\<open>class MetaServer\<close> (\<^verbatim>\<open>noah/meta/meta_server.h\<close>, \<^verbatim>\<open>meta_server.cc\<close>): the raft state machine
  of the meta service. Committed log entries are applied by \<open>on_apply\<close>, snapshots are saved and
  loaded, the leader looks for expired nodes. The text of requests in the log (protobuf) is a
  parameter, as is what the file system answers.
\<close>

subsection \<open>Applying log entries\<close>

text \<open>An entry has the data of the log and, on the server that proposed it, the closure with
  its request and response; \<open>now\<close> is the clock of the server when it applies the entry.\<close>

record 'd log_task =
  tk_data :: 'd
  tk_done :: "(meta_cmd_request \<times> meta_cmd_response) option"
  tk_now :: nat

definition task_request :: "('d \<Rightarrow> meta_cmd_request) \<Rightarrow> 'd log_task \<Rightarrow> meta_cmd_request" where
  "task_request par task = (case tk_done task of Some (request, _) \<Rightarrow> request | None \<Rightarrow> par (tk_data task))"

fun on_apply ::
  "layout \<Rightarrow> ('d \<Rightarrow> meta_cmd_request) \<Rightarrow> 'd log_task list \<Rightarrow> meta_server
     \<Rightarrow> (meta_cmd_response option list \<times> meta_server) option" where
  "on_apply l par [] m = Some ([], m)"
| "on_apply l par (task # tasks) m =
     (case DealRequest l (tk_now task) (task_request par task) (map_option snd (tk_done task)) m of
        None \<Rightarrow> None
      | Some (response, m) \<Rightarrow> map_option (map_prod ((#) response) id) (on_apply l par tasks m))"

subsection \<open>Receiving requests\<close>

definition IsLeader :: "meta_server \<Rightarrow> bool" where
  "IsLeader m \<longleftrightarrow> ms_leader_term m > 0"

definition peer_to_string :: "peer_id \<Rightarrow> string" where
  "peer_to_string p = ip2str (ip p) @ '':'' @ IntToString (port p) @ '':'' @ IntToString (idx p)"

definition Redirect :: "peer_id \<Rightarrow> meta_cmd_response \<Rightarrow> meta_cmd_response" where
  "Redirect leader r =
     (let r = r\<lparr>rs_status := REDIRECT\<rparr>
      in if \<not> peer_is_empty leader then r\<lparr>rs_redirect := peer_to_string leader\<rparr> else r)"

text \<open>A request is answered at once or proposed to raft with the term it is expected in.\<close>

datatype 'd apply_result = Replied meta_cmd_response | Proposed 'd "int option"

definition MetaServer_Apply ::
  "(meta_cmd_request \<Rightarrow> 'd option) \<Rightarrow> bool \<Rightarrow> peer_id list option \<Rightarrow> peer_id \<Rightarrow> meta_cmd_request
     \<Rightarrow> meta_cmd_response \<Rightarrow> meta_server \<Rightarrow> 'd apply_result \<times> meta_server" where
  "MetaServer_Apply ser check_term peers leader request response m =
     (if ms_leader_term m < 0 then (Replied (Redirect leader response), m)
      else case PreDealRequest peers leader request response m of
        (True, response, m) \<Rightarrow> (Replied response, m)
      | (False, response, m) \<Rightarrow>
          (case ser request of
             None \<Rightarrow> (Replied (response\<lparr>rs_status := ERROR\<rparr>), m)
           | Some log \<Rightarrow> (Proposed log (if check_term then Some (ms_leader_term m) else None), m)))"

definition CheckNodesStatus :: "nat \<Rightarrow> int \<Rightarrow> meta_server \<Rightarrow> meta_cmd_request option" where
  "CheckNodesStatus now node_timeout_ms m =
     (let snapshot = GetSnapshot (ms_info m);
          (_, expired_nodes, snapshot) = CheckExpiredNodes now node_timeout_ms snapshot
      in if expired_nodes = [] then None
         else Some (default_request\<lparr>rq_version := mi_version snapshot, rq_type := DOWNNODES,
                      rq_down_nodes := map (\<lambda>n. String2Node n default_node) expired_nodes\<rparr>))"

subsection \<open>Leadership\<close>

definition MetaServer_Start :: "meta_server \<Rightarrow> meta_server" where
  "MetaServer_Start m = m\<lparr>ms_info := MetaInfo_Init (ms_info m)\<rparr>"

definition on_leader_start :: "nat \<Rightarrow> int \<Rightarrow> meta_server \<Rightarrow> meta_server" where
  "on_leader_start now leader_term m = m\<lparr>ms_info := RefreshNodes now (ms_info m), ms_leader_term := leader_term\<rparr>"

definition on_leader_stop :: "meta_server \<Rightarrow> meta_server" where
  "on_leader_stop m = m\<lparr>ms_leader_term := -1\<rparr>"

subsection \<open>Snapshots\<close>

record snapshot_files =
  sf_nodes :: "node_status list"
  sf_tables :: "(string, meta_table) umap"
  sf_version :: version_info

definition ConvertTableSnap ::
  "((string \<times> meta_table) list \<Rightarrow> (string \<times> meta_table) list) \<Rightarrow> (string, meta_table) umap
     \<Rightarrow> (string, meta_table) umap" where
  "ConvertTableSnap rhg table_map = foldl (\<lambda>ts v. umap_put rhg (fst v) (snd v) ts) [] table_map"

definition ConvertNodeSnap :: "(string, nat) umap \<Rightarrow> node_status list" where
  "ConvertNodeSnap node_map =
     map (\<lambda>v. \<lparr>ns_node = String2Node (fst v) default_node,
               ns_state = (if snd v = 0 then DOWN else UP)\<rparr>) node_map"

definition SetMetaInfoSnapshot ::
  "layout \<Rightarrow> nat \<Rightarrow> node_status list \<Rightarrow> (string, meta_table) umap \<Rightarrow> meta_info \<Rightarrow> meta_info" where
  "SetMetaInfoSnapshot l now node_snap table_snap snapshot =
     (let snapshot = foldl (\<lambda>s v. s\<lparr>table_info := umap_put (lay_tables l) (fst v) (snd v) (table_info s),
                                     node_table := SetNodeTable (snd v) (node_table s)\<rparr>) snapshot table_snap
      in foldl (\<lambda>s ns. s\<lparr>mi_nodes := umap_put (lay_nodes l) (Node2String (ns_node ns))
                                       (if ns_state ns = DOWN then 0 else now) (mi_nodes s)\<rparr>)
           snapshot node_snap)"

text \<open>The three files are written one after the other; \<open>save\<close> and \<open>add\<close> say for each name
  whether writing it and adding it to the snapshot succeeds. \<open>None\<close> is the error \<^verbatim>\<open>EIO\<close>.\<close>

definition kNodeInfo :: string where "kNodeInfo = ''nodes''"

definition kTableInfo :: string where "kTableInfo = ''tables''"

definition kEpoch :: string where "kEpoch = ''version''"

definition SaveSnapshot ::
  "((string \<times> meta_table) list \<Rightarrow> (string \<times> meta_table) list) \<Rightarrow> (string \<Rightarrow> bool) \<Rightarrow> (string \<Rightarrow> bool)
     \<Rightarrow> meta_server \<Rightarrow> snapshot_files option" where
  "SaveSnapshot rhg save add m =
     (let snapshot = GetSnapshot (ms_info m);
          node_snap = ConvertNodeSnap (mi_nodes snapshot)
      in if \<not> save kNodeInfo then None
         else if \<not> add kNodeInfo then None
         else
           let table_snap = ConvertTableSnap rhg (table_info snapshot)
           in if \<not> save kTableInfo then None
              else if \<not> add kTableInfo then None
              else if \<not> add kEpoch then None
              else Some \<lparr>sf_nodes = node_snap, sf_tables = table_snap, sf_version = mi_version snapshot\<rparr>)"

text \<open>A file that cannot be read makes the load fail before anything is changed.\<close>

definition on_snapshot_load ::
  "layout \<Rightarrow> nat \<Rightarrow> version_info \<Rightarrow> (string, meta_table) umap option \<Rightarrow> node_status list option
     \<Rightarrow> meta_server \<Rightarrow> int \<times> meta_server" where
  "on_snapshot_load l now ver table_file node_file m =
     (case table_file of
        None \<Rightarrow> (-1, m)
      | Some table_snap \<Rightarrow>
          (case node_file of
             None \<Rightarrow> (-1, m)
           | Some node_snap \<Rightarrow>
               (let snapshot = SetMetaInfoSnapshot l now node_snap table_snap
                      \<lparr>mi_version = ver, table_info = [], node_table = (\<lambda>_. None), mi_nodes = []\<rparr>;
                    (_, mi) = LoadFromSnapshot snapshot (ms_info m)
                in (0, m\<lparr>ms_info := mi\<rparr>))))"

end
