(* ===== verification/Noah_Meta_Invariant.thy ===== *)
theory Noah_Meta_Invariant
  imports Noah_Meta_Server
begin

text \<open>
  The invariant of the meta information: tables are stored under their name, no partition
  lists a node twice, the index from nodes to tables covers every replica, and a node that is
  marked down is a replica of nothing. One lemma per operation of \<^verbatim>\<open>MetaInfo\<close> shows that it
  is kept when the request names sensible nodes.
\<close>

subsection \<open>Good nodes and partitions\<close>

definition good_node :: "node \<Rightarrow> bool" where
  "good_node n \<longleftrightarrow> node_ok n \<and> n \<noteq> default_node"

definition real_replicas :: "meta_partition \<Rightarrow> node list" where
  "real_replicas p = (case mp_master p of None \<Rightarrow> [] | Some n \<Rightarrow> [n]) @ mp_slaves p"

definition good_part :: "meta_partition \<Rightarrow> bool" where
  "good_part p \<longleftrightarrow> distinct (real_replicas p) \<and> (\<forall>n \<in> set (real_replicas p). good_node n)"

definition indexed :: "node_table_map \<Rightarrow> node \<Rightarrow> string \<Rightarrow> bool" where
  "indexed nt n name \<longleftrightarrow> (\<exists>S. nt (Node2String n) = Some S \<and> name |\<in>| S)"

definition table_good :: "node_table_map \<Rightarrow> nat \<Rightarrow> string \<Rightarrow> meta_table \<Rightarrow> bool" where
  "table_good nt k name t \<longleftrightarrow>
     mt_name t = name \<and> 0 \<le> mt_duplicate_num t \<and> mt_duplicate_num t \<le> int k \<and>
     (\<forall>p \<in> set (mt_partitions t). good_part p \<and> (\<forall>n \<in> set (real_replicas p). indexed nt n name))"

definition absent :: "node \<Rightarrow> meta_table \<Rightarrow> bool" where
  "absent n t \<longleftrightarrow> (\<forall>p \<in> set (mt_partitions t). n \<notin> set (real_replicas p))"

definition nodes_good :: "(string, nat) umap \<Rightarrow> bool" where
  "nodes_good ns \<longleftrightarrow> umap_wf ns \<and> (\<forall>k \<in> fst ` set ns. \<exists>n. good_node n \<and> k = Node2String n)"

definition node_down :: "(string, nat) umap \<Rightarrow> node \<Rightarrow> bool" where
  "node_down ns n \<longleftrightarrow> good_node n \<and> map_of ns (Node2String n) = Some 0"

definition meta_inv :: "meta_info \<Rightarrow> bool" where
  "meta_inv s \<longleftrightarrow>
     umap_wf (table_info s) \<and> nodes_good (mi_nodes s) \<and>
     (\<forall>(name, t) \<in> set (table_info s). table_good (node_table s) (length (mi_nodes s)) name t) \<and>
     (\<forall>n. node_down (mi_nodes s) n \<longrightarrow> (\<forall>(name, t) \<in> set (table_info s). absent n t))"

lemma Node2String_eq: "Node2String n = Node_ToString n"
  by (simp add: Node2String_def Node_ToString_def)

lemma String2Node_round_trip [simp]: "node_ok n \<Longrightarrow> String2Node (Node2String n) d = n"
proof -
  assume ok: "node_ok n"
  then have ip: "CHR '':'' \<notin> set (n_ip n)" "trimmed (n_ip n)" and p: "in_int32 (n_port n)"
    by (auto simp: node_ok_def)
  show ?thesis
    using SplitString_node [OF ip, of "n_port n"] StringToInt_IntToString [OF p]
    by (simp add: String2Node_def Node2String_def Let_def)
qed

lemma Node2String_inj: "node_ok a \<Longrightarrow> node_ok b \<Longrightarrow> Node2String a = Node2String b \<longleftrightarrow> a = b"
  by (metis String2Node_round_trip)

lemma good_node_ok [simp]: "good_node n \<Longrightarrow> node_ok n"
  by (simp add: good_node_def)

lemma real_replicas_simps [simp]:
  "real_replicas (p\<lparr>mp_status := st\<rparr>) = real_replicas p"
  "real_replicas (p\<lparr>mp_slaves := ss\<rparr>) = (case mp_master p of None \<Rightarrow> [] | Some n \<Rightarrow> [n]) @ ss"
  "real_replicas (p\<lparr>mp_master := None\<rparr>) = mp_slaves p"
  "real_replicas (p\<lparr>mp_master := Some n\<rparr>) = n # mp_slaves p"
  "real_replicas (p\<lparr>mp_master := Some n, mp_slaves := ss\<rparr>) = n # ss"
  "real_replicas (p\<lparr>mp_slaves := ss, mp_master := Some n\<rparr>) = n # ss"
  by (simp_all add: real_replicas_def)

subsection \<open>The index only grows\<close>

definition nt_le :: "node_table_map \<Rightarrow> node_table_map \<Rightarrow> bool" where
  "nt_le nt nt' \<longleftrightarrow> (\<forall>n name. indexed nt n name \<longrightarrow> indexed nt' n name)"

lemma nt_le_refl [simp]: "nt_le nt nt"
  by (simp add: nt_le_def)

lemma nt_le_trans: "nt_le a b \<Longrightarrow> nt_le b c \<Longrightarrow> nt_le a c"
  by (simp add: nt_le_def)

lemma UpdateNodeTable_indexed: "indexed (UpdateNodeTable n name nt) n name"
  by (simp add: UpdateNodeTable_def indexed_def Let_def split: option.split)

lemma UpdateNodeTable_le: "nt_le nt (UpdateNodeTable n name nt)"
  by (auto simp: UpdateNodeTable_def nt_le_def indexed_def Let_def split: option.split)

lemma foldl_nt_le:
  assumes "\<And>nt x. nt_le nt (f nt x)"
  shows "nt_le nt (foldl f nt xs)"
  by (induction xs arbitrary: nt) (auto intro: nt_le_trans assms)

lemma foldl_UpdateNodeTable_indexed:
  "m \<in> set ns \<Longrightarrow> indexed (foldl (\<lambda>nt n. UpdateNodeTable n name nt) nt ns) m name"
proof (induction ns arbitrary: nt)
  case (Cons n ns)
  have le: "nt_le (UpdateNodeTable n name nt) (foldl (\<lambda>nt n. UpdateNodeTable n name nt) (UpdateNodeTable n name nt) ns)"
    by (intro foldl_nt_le UpdateNodeTable_le)
  show ?case
  proof (cases "m \<in> set ns")
    case True
    then show ?thesis using Cons.IH by simp
  next
    case False
    then have "m = n" using Cons.prems by simp
    then show ?thesis using le UpdateNodeTable_indexed by (simp add: nt_le_def)
  qed
qed simp

lemma SetNodeTable_eq:
  "SetNodeTable t nt = foldl (\<lambda>nt p. foldl (\<lambda>nt n. UpdateNodeTable n (mt_name t) nt) nt (replicas p)) nt (mt_partitions t)"
  by (simp add: SetNodeTable_def replicas_def)

lemma SetNodeTable_le: "nt_le nt (SetNodeTable t nt)"
  unfolding SetNodeTable_eq by (intro foldl_nt_le UpdateNodeTable_le)

lemma SetNodeTable_indexed:
  assumes "p \<in> set (mt_partitions t)" and "n \<in> set (replicas p)"
  shows "indexed (SetNodeTable t nt) n (mt_name t)"
proof -
  let ?f = "\<lambda>nt p. foldl (\<lambda>nt n. UpdateNodeTable n (mt_name t) nt) nt (replicas p)"
  have "p \<in> set ps \<Longrightarrow> indexed (foldl ?f nt ps) n (mt_name t)" for ps nt
  proof (induction ps arbitrary: nt)
    case (Cons q ps)
    have le: "nt_le (?f nt q) (foldl ?f (?f nt q) ps)" by (intro foldl_nt_le UpdateNodeTable_le)
    show ?case
    proof (cases "p \<in> set ps")
      case True
      then show ?thesis using Cons.IH by simp
    next
      case False
      then have "p = q" using Cons.prems by simp
      then show ?thesis
        using le foldl_UpdateNodeTable_indexed [OF assms(2), of "mt_name t" nt] by (simp add: nt_le_def)
    qed
  qed simp
  then show ?thesis using assms(1) unfolding SetNodeTable_eq by blast
qed

lemma real_replicas_subset: "set (real_replicas p) \<subseteq> set (replicas p)"
  by (auto simp: real_replicas_def replicas_def master_of_def split: option.splits)

lemma ClearNodeTable_other:
  "indexed nt n name \<Longrightarrow> name \<noteq> dropped \<Longrightarrow> indexed (ClearNodeTable m dropped nt) n name"
  by (auto simp: indexed_def ClearNodeTable_def Let_def split: option.split)

lemma DropNodeTable_other:
  assumes "indexed nt n name" and "name \<noteq> mt_name t"
  shows "indexed (DropNodeTable t nt) n name"
  unfolding DropNodeTable_def using assms
  by (intro foldl_invariant [where P = "\<lambda>nt. indexed nt n name"]) (auto intro: ClearNodeTable_other)

lemma table_good_mono:
  "table_good nt k name t \<Longrightarrow> nt_le nt nt' \<Longrightarrow> k \<le> k' \<Longrightarrow> table_good nt' k' name t"
  by (auto simp: table_good_def nt_le_def)

lemma table_good_version [simp]: "table_good nt k name (t\<lparr>mt_version := v\<rparr>) = table_good nt k name t"
  by (simp add: table_good_def)

lemma absent_version [simp]: "absent n (t\<lparr>mt_version := v\<rparr>) = absent n t"
  by (simp add: absent_def)

subsection \<open>Nodes\<close>

lemma meta_invI:
  assumes "umap_wf (table_info s)" and "nodes_good (mi_nodes s)"
    and "\<And>name t. (name, t) \<in> set (table_info s) \<Longrightarrow> table_good (node_table s) (length (mi_nodes s)) name t"
    and "\<And>n name t. node_down (mi_nodes s) n \<Longrightarrow> (name, t) \<in> set (table_info s) \<Longrightarrow> absent n t"
  shows "meta_inv s"
  using assms unfolding meta_inv_def by blast

lemma meta_invD:
  assumes "meta_inv s"
  shows "umap_wf (table_info s)" "nodes_good (mi_nodes s)"
    "\<And>name t. (name, t) \<in> set (table_info s) \<Longrightarrow> table_good (node_table s) (length (mi_nodes s)) name t"
    "\<And>n name t. node_down (mi_nodes s) n \<Longrightarrow> (name, t) \<in> set (table_info s) \<Longrightarrow> absent n t"
  using assms unfolding meta_inv_def by blast+

lemma meta_inv_version [simp]:
  "meta_inv (bump_epoch s) = meta_inv s" "meta_inv (bump_version s) = meta_inv s"
  "meta_inv (s\<lparr>mi_version := v\<rparr>) = meta_inv s"
  by (simp_all add: meta_inv_def bump_epoch_def bump_version_def)

lemma meta_inv_nodes:
  assumes "meta_inv s" and "nodes_good ns" and "length (mi_nodes s) \<le> length ns"
    and "\<And>n. node_down ns n \<Longrightarrow> node_down (mi_nodes s) n"
  shows "meta_inv (s\<lparr>mi_nodes := ns\<rparr>)"
proof (rule meta_invI)
  show "table_good (node_table (s\<lparr>mi_nodes := ns\<rparr>)) (length (mi_nodes (s\<lparr>mi_nodes := ns\<rparr>))) name t"
    if "(name, t) \<in> set (table_info (s\<lparr>mi_nodes := ns\<rparr>))" for name t
    using table_good_mono [OF meta_invD(3) [OF assms(1)] nt_le_refl assms(3)] that by simp
qed (use assms meta_invD [OF assms(1)] in auto)

lemma meta_inv_new: "meta_inv MetaInfo_new"
  by (simp add: meta_inv_def MetaInfo_new_def nodes_good_def)

lemma meta_inv_Init: "meta_inv s \<Longrightarrow> meta_inv (MetaInfo_Init s)"
  by (simp add: MetaInfo_Init_def)

lemma meta_inv_RefreshNodes:
  assumes "meta_inv s" and "now > 0"
  shows "meta_inv (RefreshNodes now s)"
proof -
  let ?f = "\<lambda>x :: nat. if x = 0 then 0 else now"
  have m: "map_of (map (\<lambda>p. (fst p, ?f (snd p))) ns) k = map_option ?f (map_of ns k)"
    for ns :: "(string \<times> nat) list" and k
    by (induction ns) auto
  have "nodes_good (map (\<lambda>p. (fst p, ?f (snd p))) (mi_nodes s))"
    using meta_invD(2) [OF assms(1)] by (auto simp: nodes_good_def umap_wf_def comp_def image_image)
  then show ?thesis
    unfolding RefreshNodes_def using assms
    by (intro meta_inv_nodes) (auto simp: node_down_def m split: if_splits)
qed

subsection \<open>Nodes that come back\<close>

lemma ms_replica_cases:
  assumes "ms_replica n nodes st name i (p, ch, nt) j = (p', ch', nt')"
    and "\<forall>m \<in> set nodes. node_ok m" and "nodes \<noteq> []"
  shows "nt' = UpdateNodeTable n name nt" and "nodes ! ((st + i + j) mod length nodes) \<noteq> n \<Longrightarrow> p' = p"
    and "set (real_replicas p') \<subseteq> insert n (set (real_replicas p))"
    and "n \<notin> set (real_replicas p) \<Longrightarrow> distinct (real_replicas p) \<Longrightarrow> distinct (real_replicas p')"
proof -
  let ?m = "nodes ! ((st + i + j) mod length nodes)"
  have "?m \<in> set nodes" using assms(3) by simp
  then have m: "String2Node (Node_ToString ?m) default_node = ?m"
    using assms(2) by (metis Node2String_eq String2Node_round_trip)
  show "nt' = UpdateNodeTable n name nt"
    and "?m \<noteq> n \<Longrightarrow> p' = p"
    and "set (real_replicas p') \<subseteq> insert n (set (real_replicas p))"
    and "n \<notin> set (real_replicas p) \<Longrightarrow> distinct (real_replicas p) \<Longrightarrow> distinct (real_replicas p')"
    using assms(1) by (auto simp: ms_replica_def Let_def m real_replicas_def split: if_splits option.splits)
qed

text \<open>A node occurs once in the list of nodes, so as long as there are no more replicas than
  nodes one of the replicas of a partition at most is given to it.\<close>

lemma ms_replicas_good:
  assumes "foldl (ms_replica n nodes st name i) (p, ch, nt) js = (p', ch', nt')"
    and "\<forall>m \<in> set nodes. node_ok m" and "distinct nodes" and "nodes \<noteq> []"
    and "distinct js" and "\<forall>j \<in> set js. j < length nodes" and "good_node n" and "good_part p"
    and "n \<notin> set (real_replicas p) \<or> (\<forall>j \<in> set js. nodes ! ((st + i + j) mod length nodes) \<noteq> n)"
  shows "good_part p' \<and> set (real_replicas p') \<subseteq> insert n (set (real_replicas p)) \<and> nt_le nt nt' \<and>
    (js \<noteq> [] \<longrightarrow> indexed nt' n name) \<and> (js = [] \<longrightarrow> p' = p)"
  using assms(1,5,6,8,9)
proof (induction js arbitrary: p ch nt)
  case (Cons j js)
  obtain p1 ch1 nt1 where s: "ms_replica n nodes st name i (p, ch, nt) j = (p1, ch1, nt1)"
    by (metis prod_cases3)
  note c = ms_replica_cases [OF s assms(2,4)]
  let ?hit = "\<lambda>j. nodes ! ((st + i + j) mod length nodes) = n"
  have one: "j' = j" if "?hit j" "?hit j'" "j' < length nodes" "j < length nodes" for j'
  proof -
    have "(st + i + j) mod length nodes = (st + i + j') mod length nodes"
      using that assms(3,4) by (simp add: nth_eq_iff_index_eq flip: that(1))
    then show ?thesis using that(3,4) by (rule shift_mod_inj [symmetric])
  qed
  have j: "j \<notin> set js" "j < length nodes" "\<And>j'. j' \<in> set js \<Longrightarrow> j' < length nodes"
    using Cons.prems(2,3) by auto
  have later: "\<forall>j' \<in> set js. \<not> ?hit j'" if "?hit j" using one [OF that] j by blast
  have g1: "good_part p1 \<and> (n \<notin> set (real_replicas p1) \<or> (\<forall>j' \<in> set js. \<not> ?hit j'))"
  proof (cases "?hit j")
    case True
    then have "n \<notin> set (real_replicas p)" using Cons.prems(5) by auto
    then have "good_part p1" using c(3,4) Cons.prems(4) assms(7) by (auto simp: good_part_def)
    with later True show ?thesis by blast
  next
    case False
    then show ?thesis using c(2) Cons.prems(4,5) by auto
  qed
  have f: "foldl (ms_replica n nodes st name i) (p1, ch1, nt1) js = (p', ch', nt')"
    using Cons.prems(1) s by simp
  have ih: "good_part p'" "set (real_replicas p') \<subseteq> insert n (set (real_replicas p1))" "nt_le nt1 nt'"
    using Cons.IH [OF f] Cons.prems(2,3) g1 by auto
  have nt: "indexed nt1 n name" "nt_le nt nt1"
    unfolding c(1) by (rule UpdateNodeTable_indexed, rule UpdateNodeTable_le)
  have "indexed nt' n name" "nt_le nt nt'"
    using nt ih(3) by (auto simp: nt_le_def)
  moreover have "set (real_replicas p') \<subseteq> insert n (set (real_replicas p))" using ih(2) c(3) by auto
  ultimately show ?case using ih(1) by blast
qed auto

definition grown :: "node \<Rightarrow> meta_table \<Rightarrow> meta_table \<Rightarrow> bool" where
  "grown n t t' \<longleftrightarrow>
     mt_name t' = mt_name t \<and> mt_duplicate_num t' = mt_duplicate_num t \<and>
     list_all2 (\<lambda>p p'. good_part p' \<and> set (real_replicas p') \<subseteq> insert n (set (real_replicas p)))
       (mt_partitions t) (mt_partitions t')"

lemma grown_refl: "\<forall>p \<in> set (mt_partitions t). good_part p \<Longrightarrow> grown n t t"
  by (auto simp: grown_def list_all2_conv_all_nth)

lemma grownD:
  assumes "grown n t t'" and "p' \<in> set (mt_partitions t')"
  shows "good_part p'" and "\<exists>p \<in> set (mt_partitions t). set (real_replicas p') \<subseteq> insert n (set (real_replicas p))"
  using list_all2_in_set2 [OF conjunct2 [OF conjunct2 [OF assms(1) [unfolded grown_def]]] assms(2)] by blast+

lemma grown_absent:
  assumes "grown n t t'" and "absent m t" and "m \<noteq> n"
  shows "absent m t'"
  unfolding absent_def
proof
  fix p' assume "p' \<in> set (mt_partitions t')"
  from grownD(2) [OF assms(1) this] obtain p where
    "p \<in> set (mt_partitions t)" "set (real_replicas p') \<subseteq> insert n (set (real_replicas p))" by blast
  then show "m \<notin> set (real_replicas p')" using assms(2,3) by (auto simp: absent_def)
qed

lemma ms_status_replicas [simp]: "real_replicas (ms_status k p) = real_replicas p"
  by (simp add: ms_status_def Let_def)

lemma good_part_status [simp]: "good_part (ms_status k p) = good_part p"
  by (simp add: good_part_def)

lemma ms_partitions_good:
  assumes "foldl (ms_partition n nodes st name ver) (t, ch, nt) [0..<m] = (t', ch', nt')"
    and "m \<le> length (mt_partitions t)"
    and nodes: "\<forall>m \<in> set nodes. node_ok m" "distinct nodes" "nodes \<noteq> []"
    and good: "table_good nt (length nodes) name t" "good_node n" "absent n t"
  shows "grown n t t' \<and> nt_le nt nt' \<and> (absent n t' \<or> indexed nt' n name) \<and>
    (\<forall>i < length (mt_partitions t). i \<ge> m \<longrightarrow> mt_partitions t' ! i = mt_partitions t ! i)"
  using assms(1,2)
proof (induction m arbitrary: t' ch' nt')
  case 0
  then show ?case using good by (auto simp: table_good_def intro: grown_refl)
next
  case (Suc m)
  obtain t1 ch1 nt1 where s1: "foldl (ms_partition n nodes st name ver) (t, ch, nt) [0..<m] = (t1, ch1, nt1)"
    by (metis prod_cases3)
  have ih: "grown n t t1" "nt_le nt nt1" "absent n t1 \<or> indexed nt1 n name"
    "\<forall>i < length (mt_partitions t). i \<ge> m \<longrightarrow> mt_partitions t1 ! i = mt_partitions t ! i"
    using Suc.IH [OF s1] Suc.prems(2) by auto
  have step: "ms_partition n nodes st name ver (t1, ch1, nt1) m = (t', ch', nt')"
    using Suc.prems(1) s1 by simp
  have len: "length (mt_partitions t1) = length (mt_partitions t)" and m: "m < length (mt_partitions t)"
    using ih(1) Suc.prems(2) by (auto simp: grown_def list_all2_lengthD)
  have pm: "mt_partitions t1 ! m = mt_partitions t ! m" using ih(4) m by simp
  let ?p = "mt_partitions t ! m" and ?d = "nat (mt_duplicate_num t1 mod 2 ^ 64)"
  have p: "good_part ?p" "n \<notin> set (real_replicas ?p)"
    using good(1,3) m by (auto simp: table_good_def absent_def)
  show ?case
  proof (cases "mp_status ?p = ACTIVE")
    case True
    then have "t' = t1" "nt' = nt1" using step pm by (auto simp: ms_partition_def Let_def)
    then show ?thesis using ih by auto
  next
    case False
    obtain p' ch2 nt2 where f: "foldl (ms_replica n nodes st name m) (?p, ch1, nt1) [0..<?d] = (p', ch2, nt2)"
      by (metis prod_cases3)
    let ?ps = "(mt_partitions t1)[m := ms_status ?d p']"
    have t': "mt_partitions t' = ?ps" "mt_name t' = mt_name t1" "mt_duplicate_num t' = mt_duplicate_num t1"
      "nt' = nt2"
      using step False f pm by (auto simp: ms_partition_def Let_def split: if_splits)
    have "mt_duplicate_num t1 = mt_duplicate_num t" using ih(1) by (simp add: grown_def)
    then have d: "?d \<le> length nodes" using good(1) zmod_le_nonneg_dividend [of "mt_duplicate_num t" "2 ^ 64"]
      by (auto simp: table_good_def nat_le_iff)
    have r: "good_part p' \<and> set (real_replicas p') \<subseteq> insert n (set (real_replicas ?p)) \<and> nt_le nt1 nt2 \<and>
        ([0..<?d] \<noteq> [] \<longrightarrow> indexed nt2 n name) \<and> ([0..<?d] = [] \<longrightarrow> p' = ?p)"
      by (rule ms_replicas_good [OF f nodes(1,2,3) _ _ good(2) p(1)]) (use d p(2) in auto)
    have "grown n t t'"
      using ih(1) r len m pm unfolding grown_def t' by (auto simp: list_all2_conv_all_nth nth_list_update)
    moreover have "nt_le nt nt'" using ih(2) r t'(4) nt_le_trans by blast
    moreover have "absent n t' \<or> indexed nt' n name"
    proof (cases "?d = 0")
      case True
      then have "p' = ?p" using r by simp
      then have "absent n t1 \<Longrightarrow> absent n t'"
        using p(2) len m by (auto simp: absent_def t' set_conv_nth nth_list_update split: if_splits)
      then show ?thesis using ih(3) r t'(4) by (auto simp: nt_le_def)
    next
      case False
      then show ?thesis using r t'(4) by auto
    qed
    ultimately show ?thesis using ih(4) t'(1) by auto
  qed
qed

text \<open>The tables one after the other.\<close>

definition ms_table ::
  "node \<Rightarrow> node list \<Rightarrow> int \<Rightarrow> (string \<times> meta_table) list \<times> bool \<times> node_table_map \<Rightarrow> string \<times> meta_table
     \<Rightarrow> (string \<times> meta_table) list \<times> bool \<times> node_table_map" where
  "ms_table n nodes ver = (\<lambda>(ts, change, nt) (table_name, t).
     let start_index = Hash table_name mod length nodes;
         (t, change, nt) = foldl (ms_partition n nodes start_index table_name ver)
                             (t, change, nt) [0..<length (mt_partitions t)]
     in (ts @ [(table_name, t)], change, nt))"

lemma UpdatePartNodeMS_eq:
  "UpdatePartNodeMS n s =
     (let nodes = map (\<lambda>p. String2Node (fst p) default_node) (mi_nodes s);
          (ts, change, nt) = foldl (ms_table n nodes (v_version (mi_version s))) ([], False, node_table s) (table_info s)
      in s\<lparr>table_info := ts, node_table := nt\<rparr>)"
  by (simp add: UpdatePartNodeMS_def ms_table_def)

lemma ms_tables_good:
  assumes "foldl (ms_table n nodes ver) (ts, ch, nt) tables = (ts', ch', nt')"
    and nodes: "\<forall>m \<in> set nodes. node_ok m" "distinct nodes" "nodes \<noteq> []" and n: "good_node n"
    and "\<forall>(name, t) \<in> set tables. table_good nt (length nodes) name t \<and> absent n t"
    and "\<forall>(name, t) \<in> set ts. table_good nt (length nodes) name t"
  shows "nt_le nt nt' \<and> (\<forall>(name, t) \<in> set ts'. table_good nt' (length nodes) name t) \<and>
    (\<exists>new. ts' = ts @ new \<and> list_all2 (\<lambda>p p'. fst p' = fst p \<and> grown n (snd p) (snd p')) tables new)"
  using assms(1,6,7)
proof (induction tables arbitrary: ts ch nt)
  case (Cons p tables)
  obtain name t where p: "p = (name, t)" by (cases p)
  obtain t1 ch1 nt1 where s1: "foldl (ms_partition n nodes (Hash name mod length nodes) name ver) (t, ch, nt)
      [0..<length (mt_partitions t)] = (t1, ch1, nt1)"
    by (metis prod_cases3)
  have t: "table_good nt (length nodes) name t" "absent n t" using Cons.prems(2) p by auto
  from ms_partitions_good [OF s1 order.refl nodes t(1) n t(2)] have
    g: "grown n t t1" "nt_le nt nt1" "absent n t1 \<or> indexed nt1 n name" by auto
  have t1: "table_good nt1 (length nodes) name t1"
  proof -
    have "indexed nt1 m name" if q': "q' \<in> set (mt_partitions t1)" and m: "m \<in> set (real_replicas q')" for q' m
    proof (cases "m = n")
      case True
      then show ?thesis using g(3) q' m by (auto simp: absent_def)
    next
      case False
      then obtain q where "q \<in> set (mt_partitions t)" "m \<in> set (real_replicas q)"
        using grownD(2) [OF g(1) q'] m by auto
      then show ?thesis using t(1) g(2) by (auto simp: table_good_def nt_le_def)
    qed
    moreover have "good_part q'" if "q' \<in> set (mt_partitions t1)" for q'
      by (rule grownD(1) [OF g(1) that])
    ultimately show ?thesis using t(1) g(1) by (auto simp: table_good_def grown_def)
  qed
  have f: "foldl (ms_table n nodes ver) (ts @ [(name, t1)], ch1, nt1) tables = (ts', ch', nt')"
    using Cons.prems(1) s1 by (simp add: p ms_table_def)
  have "nt_le nt1 nt' \<and> (\<forall>(name, t) \<in> set ts'. table_good nt' (length nodes) name t) \<and>
    (\<exists>new. ts' = (ts @ [(name, t1)]) @ new \<and>
       list_all2 (\<lambda>p p'. fst p' = fst p \<and> grown n (snd p) (snd p')) tables new)"
    using Cons.prems(2,3) t1 g(2) by (intro Cons.IH [OF f]) (auto intro: table_good_mono)
  then obtain new where new: "ts' = (ts @ [(name, t1)]) @ new" "nt_le nt1 nt'"
    "list_all2 (\<lambda>p p'. fst p' = fst p \<and> grown n (snd p) (snd p')) tables new"
    "\<forall>(name, t) \<in> set ts'. table_good nt' (length nodes) name t" by blast
  have "ts' = ts @ (name, t1) # new" using new(1) by simp
  moreover have "list_all2 (\<lambda>p p'. fst p' = fst p \<and> grown n (snd p) (snd p')) (p # tables) ((name, t1) # new)"
    using new(3) g(1) p by simp
  ultimately show ?case using new(2,4) g(2) nt_le_trans by blast
qed auto

lemma meta_inv_UpdatePartNodeMS:
  assumes "meta_inv s" and "good_node n" and "mi_nodes s \<noteq> []"
    and "\<forall>(name, t) \<in> set (table_info s). absent n t" and "\<not> node_down (mi_nodes s) n"
  shows "meta_inv (UpdatePartNodeMS n s)" and "mi_nodes (UpdatePartNodeMS n s) = mi_nodes s"
proof -
  note inv = meta_invD [OF assms(1)]
  let ?nodes = "map (\<lambda>p. String2Node (fst p) default_node) (mi_nodes s)"
  obtain ts ch nt where f: "foldl (ms_table n ?nodes (v_version (mi_version s))) ([], False, node_table s) (table_info s) = (ts, ch, nt)"
    by (metis prod_cases3)
  have key: "Node2String (String2Node k default_node) = k \<and> node_ok (String2Node k default_node)"
    if "k \<in> fst ` set (mi_nodes s)" for k
    using inv(2) that by (auto simp: nodes_good_def)
  have ok: "\<forall>m \<in> set ?nodes. node_ok m" using key by auto
  have "inj_on (\<lambda>k. String2Node k default_node) (fst ` set (mi_nodes s))"
    using key by (metis inj_onI)
  then have "distinct (map (\<lambda>k. String2Node k default_node) (map fst (mi_nodes s)))"
    using inv(2) by (subst distinct_map) (simp add: nodes_good_def umap_wf_def)
  then have dist: "distinct ?nodes" by (simp add: comp_def)
  have s': "UpdatePartNodeMS n s = s\<lparr>table_info := ts, node_table := nt\<rparr>"
    by (simp add: UpdatePartNodeMS_eq f Let_def)
  then show "mi_nodes (UpdatePartNodeMS n s) = mi_nodes s" by simp
  have tabs: "\<forall>(name, t) \<in> set (table_info s). table_good (node_table s) (length ?nodes) name t \<and> absent n t"
    using inv(3) assms(4) by auto
  from ms_tables_good [OF f ok dist _ assms(2) tabs] obtain new where
    new: "\<forall>(name, t) \<in> set ts. table_good nt (length ?nodes) name t"
      "ts = new" "list_all2 (\<lambda>p p'. fst p' = fst p \<and> grown n (snd p) (snd p')) (table_info s) new"
    using assms(3) by auto
  have "map fst ts = map fst (table_info s)"
    using new(3) unfolding new(2) by (induction rule: list_all2_induct) auto
  then have wf: "umap_wf ts" using inv(1) by (simp add: umap_wf_def)
  have abs: "absent m t'" if "node_down (mi_nodes s) m" "(name, t') \<in> set ts" for m name t'
  proof -
    from list_all2_in_set2 [OF new(3)] that(2) new(2) obtain q where
      "q \<in> set (table_info s)" "grown n (snd q) t'" by fastforce
    moreover from this have "absent m (snd q)" using inv(4) [OF that(1), of "fst q" "snd q"] by simp
    ultimately show ?thesis using that(1) assms(5) by (auto intro: grown_absent)
  qed
  show "meta_inv (UpdatePartNodeMS n s)"
    unfolding s' by (rule meta_invI) (use wf inv(2) new(1) abs in auto)
qed

lemma nodes_good_put:
  assumes "nodes_good ns" and "good_node n" and "rearranges rhn"
  shows "nodes_good (umap_put rhn (Node2String n) now ns)" and "nodes_good (AList.update (Node2String n) now ns)"
  using assms by (auto simp: nodes_good_def dom_update)

lemma meta_inv_UpdateNode:
  assumes "meta_inv s" and "good_node n" and "now > 0" and "rearranges rhn"
  shows "meta_inv (snd (UpdateNode rhn now n s))"
proof -
  note inv = meta_invD [OF assms(1)]
  let ?k = "Node2String n"
  have len: "length (rhn ns) = length ns" for ns
    using assms(4) unfolding rearranges_def by (metis size_mset)
  have up: "meta_inv (s\<lparr>mi_nodes := AList.update ?k now (mi_nodes s)\<rparr>)"
    if "meta_inv s" "?k \<in> fst ` set (mi_nodes s)" for s
    using that nodes_good_put(2) [OF meta_invD(2) [OF that(1)] assms(2,4)] assms(3)
    by (intro meta_inv_nodes) (auto simp: length_update_present node_down_def update_conv' split: if_splits)
  show ?thesis
  proof (cases "map_of (mi_nodes s) ?k")
    case None
    then have "?k \<notin> fst ` set (mi_nodes s)" by (simp add: map_of_eq_None_iff)
    then have len: "length (mi_nodes s) \<le> length (umap_put rhn ?k now (mi_nodes s))"
      by (simp add: umap_put_def len)
    have m: "map_of (umap_put rhn ?k now (mi_nodes s)) = (map_of (mi_nodes s))(?k \<mapsto> now)"
      using assms(4) inv(2) by (simp add: nodes_good_def)
    have "meta_inv (s\<lparr>mi_nodes := umap_put rhn ?k now (mi_nodes s)\<rparr>)"
      by (rule meta_inv_nodes [OF assms(1) nodes_good_put(1) [OF inv(2) assms(2,4)] len])
        (use assms(3) m in \<open>auto simp: node_down_def split: if_splits\<close>)
    then show ?thesis using None by (simp add: UpdateNode_def Let_def)
  next
    case (Some last)
    then have k: "?k \<in> fst ` set (mi_nodes s)" by (metis domI dom_map_of_conv_image_fst)
    show ?thesis
    proof (cases "last = 0")
      case False
      then show ?thesis using Some up [OF assms(1) k] by (simp add: UpdateNode_def Let_def)
    next
      case True
      let ?s = "s\<lparr>mi_nodes := AList.update ?k now (mi_nodes s)\<rparr>"
      have abs: "\<forall>(name, t) \<in> set (table_info ?s). absent n t"
        using inv(4) [of n] Some True assms(2) by (auto simp: node_down_def)
      have nd: "\<not> node_down (mi_nodes ?s) n" using assms(3) by (simp add: node_down_def update_conv')
      have ne: "mi_nodes ?s \<noteq> []" using k by (cases "mi_nodes s") auto
      note ms = meta_inv_UpdatePartNodeMS [OF up [OF assms(1) k] assms(2) ne abs nd]
      let ?s' = "bump_epoch (UpdatePartNodeMS n ?s)"
      have "meta_inv ?s'" "?k \<in> fst ` set (mi_nodes ?s')"
        using ms by (simp_all add: bump_epoch_def dom_update)
      from up [OF this] show ?thesis using Some True by (simp add: UpdateNode_def Let_def)
    qed
  qed
qed

subsection \<open>Tables\<close>

text \<open>A table that a client may create: distinct replicas, none of them down, and no more
  of them than there are nodes.\<close>

definition creatable :: "meta_info \<Rightarrow> meta_table \<Rightarrow> bool" where
  "creatable s t \<longleftrightarrow>
     0 \<le> mt_duplicate_num t \<and> mt_duplicate_num t \<le> int (length (mi_nodes s)) \<and>
     (\<forall>p \<in> set (mt_partitions t). good_part p \<and> (\<forall>n \<in> set (real_replicas p). \<not> node_down (mi_nodes s) n))"

lemma meta_inv_CreateTable:
  assumes "meta_inv s" and "rearranges rht" and "creatable s t"
  shows "meta_inv (snd (CreateTable rht info t s))"
proof (cases "info = mi_version s \<and> map_of (table_info s) (mt_name t) = None")
  case False
  then show ?thesis using assms(1) by (auto simp: CreateTable_def split: option.splits)
next
  case True
  note inv = meta_invD [OF assms(1)]
  let ?nt = "SetNodeTable t (node_table s)"
  let ?t = "t\<lparr>mt_version := v_version (mi_version s) + 1\<rparr>"
  let ?ts = "umap_put rht (mt_name t) ?t (table_info s)"
  have res: "snd (CreateTable rht info t s) = bump_version (s\<lparr>node_table := ?nt, table_info := ?ts\<rparr>)"
    using True by (simp add: CreateTable_def Let_def bump_version_def)
  have mem: "(name, t') \<in> set ?ts \<Longrightarrow> (name, t') \<in> set (table_info s) \<or> name = mt_name t \<and> t' = ?t" for name t'
    using inv(1) assms(2) by (simp add: umap_mem_iff split: if_splits)
  have new: "table_good ?nt (length (mi_nodes s)) (mt_name t) ?t"
    using assms(3)
    by (auto simp: table_good_def creatable_def intro: SetNodeTable_indexed dest: real_replicas_subset [THEN subsetD])
  have abs: "absent n ?t" if "node_down (mi_nodes s) n" for n
    using that assms(3) by (auto simp: creatable_def absent_def)
  have "meta_inv (s\<lparr>node_table := ?nt, table_info := ?ts\<rparr>)"
  proof (rule meta_invI)
    fix name t' assume "(name, t') \<in> set (table_info (s\<lparr>node_table := ?nt, table_info := ?ts\<rparr>))"
    then have "(name, t') \<in> set ?ts" by simp
    from mem [OF this] show "table_good (node_table (s\<lparr>node_table := ?nt, table_info := ?ts\<rparr>))
        (length (mi_nodes (s\<lparr>node_table := ?nt, table_info := ?ts\<rparr>))) name t'"
      using new table_good_mono [OF inv(3) SetNodeTable_le order.refl] by auto
  next
    fix n name t' assume "node_down (mi_nodes (s\<lparr>node_table := ?nt, table_info := ?ts\<rparr>)) n"
      and "(name, t') \<in> set (table_info (s\<lparr>node_table := ?nt, table_info := ?ts\<rparr>))"
    then show "absent n t'" using mem abs inv(4) by fastforce
  qed (use inv assms(2) in auto)
  then show ?thesis unfolding res by simp
qed

lemma meta_inv_drop_one:
  assumes "meta_inv s"
  shows "meta_inv (snd (drop_one (c, s) name))"
proof (cases "map_of (table_info s) name")
  case None
  then show ?thesis using assms by (simp add: drop_one_def)
next
  case (Some t)
  note inv = meta_invD [OF assms]
  let ?s = "s\<lparr>node_table := DropNodeTable t (node_table s), table_info := umap_erase name (table_info s)\<rparr>"
  have t: "mt_name t = name" using inv(3) [OF map_of_SomeD [OF Some]] by (simp add: table_good_def)
  have sub: "(name', t') \<in> set (umap_erase name (table_info s)) \<longleftrightarrow>
      (name', t') \<in> set (table_info s) \<and> name' \<noteq> name" for name' t'
    by (auto simp: umap_erase_def)
  have keep: "table_good (DropNodeTable t (node_table s)) k name' t'"
    if "table_good (node_table s) k name' t'" "name' \<noteq> name" for k name' t'
    using that DropNodeTable_other t unfolding table_good_def by blast
  have "meta_inv ?s"
    by (rule meta_invI) (use inv keep sub in auto)
  then show ?thesis using Some by (simp add: drop_one_def)
qed

lemma meta_inv_DropTable:
  assumes "meta_inv s"
  shows "meta_inv (snd (DropTable info tables s))"
proof -
  have "meta_inv (snd (foldl drop_one (False, s) tables))"
  proof (rule foldl_invariant [where P = "\<lambda>cs. meta_inv (snd cs)"])
    show "meta_inv (snd (drop_one cs name))" if "meta_inv (snd cs)" for cs name
      using meta_inv_drop_one [OF that, of "fst cs" name] by simp
  qed (simp add: assms)
  then show ?thesis using assms by (auto simp: DropTable_def Let_def split: prod.splits)
qed

end
