(* ===== verification/Noah_Meta_Runs.thy ===== *)
theory Noah_Meta_Runs
  imports Noah_Meta_Invariant
begin

text \<open>
  Runs of the meta server: the remaining operations keep the invariant, the step relation of
  the server with its reachable states, and the properties of every run.
\<close>

subsection \<open>Nodes that go down\<close>

text \<open>While the nodes of a request are taken out of the tables, those still to come are exempt.\<close>

definition inv_except :: "node set \<Rightarrow> meta_info \<Rightarrow> bool" where
  "inv_except X s \<longleftrightarrow>
     umap_wf (table_info s) \<and> nodes_good (mi_nodes s) \<and>
     (\<forall>(name, t) \<in> set (table_info s). table_good (node_table s) (length (mi_nodes s)) name t) \<and>
     (\<forall>n. node_down (mi_nodes s) n \<and> n \<notin> X \<longrightarrow> (\<forall>(name, t) \<in> set (table_info s). absent n t))"

lemma inv_except_empty: "meta_inv s \<longleftrightarrow> inv_except {} s"
  by (simp add: meta_inv_def inv_except_def)

lemma inv_exceptI:
  assumes "umap_wf (table_info s)" and "nodes_good (mi_nodes s)"
    and "\<And>name t. (name, t) \<in> set (table_info s) \<Longrightarrow> table_good (node_table s) (length (mi_nodes s)) name t"
    and "\<And>n name t. node_down (mi_nodes s) n \<Longrightarrow> n \<notin> X \<Longrightarrow> (name, t) \<in> set (table_info s) \<Longrightarrow> absent n t"
  shows "inv_except X s"
  using assms unfolding inv_except_def by blast

lemma migrate_partition_replicas:
  assumes "good_part p" and "good_node n" and "migrate_partition nodes n p = (c, p')"
  shows "set (real_replicas p') = set (real_replicas p) - {n}" and "good_part p'"
proof -
  have "n \<noteq> default_node" using assms(2) by (simp add: good_node_def)
  let ?p = "if n = master_of p then p\<lparr>mp_master := None\<rparr>
            else p\<lparr>mp_slaves := filter (\<lambda>s. s \<noteq> n) (mp_slaves p)\<rparr>"
  have "set (real_replicas ?p) = set (real_replicas p) - {n}" "distinct (real_replicas ?p)"
    using assms(1) \<open>n \<noteq> default_node\<close>
    by (auto simp: good_part_def real_replicas_def master_of_def split: option.splits)
  moreover have "mset (real_replicas p') = mset (real_replicas ?p)"
    using assms(3)
    by (auto simp: migrate_partition_def Let_def real_replicas_def extract_Some_iff
        simp del: mset_filter split: if_splits option.splits)
  ultimately have eq: "set (real_replicas p') = set (real_replicas p) - {n}" "distinct (real_replicas p')"
    by (metis mset_eq_setD, metis mset_eq_imp_distinct_iff)
  then show "set (real_replicas p') = set (real_replicas p) - {n}" by simp
  show "good_part p'" using eq assms(1) by (auto simp: good_part_def)
qed

lemma MigrateFromTable_good:
  assumes "table_good nt k name t" and "good_node n"
    and "\<And>m. m \<noteq> n \<Longrightarrow> good_node m \<Longrightarrow> indexed nt m name \<Longrightarrow> indexed nt' m name"
  shows "table_good nt' k name (MigrateFromTable nodes v n t)" and "absent n (MigrateFromTable nodes v n t)"
    and "absent m t \<Longrightarrow> absent m (MigrateFromTable nodes v n t)"
proof -
  have p: "good_part (snd (migrate_partition nodes n p))"
    "set (real_replicas (snd (migrate_partition nodes n p))) = set (real_replicas p) - {n}"
    "\<forall>m \<in> set (real_replicas p). indexed nt m name \<and> good_node m"
    if "p \<in> set (mt_partitions t)" for p
  proof -
    have g: "good_part p" "\<forall>m \<in> set (real_replicas p). indexed nt m name"
      using assms(1) that by (auto simp: table_good_def)
    note m = migrate_partition_replicas [OF g(1) assms(2) prod.collapse [symmetric], of nodes]
    show "good_part (snd (migrate_partition nodes n p))" by (rule m)
    show "set (real_replicas (snd (migrate_partition nodes n p))) = set (real_replicas p) - {n}" by (rule m)
    show "\<forall>m \<in> set (real_replicas p). indexed nt m name \<and> good_node m"
      using g by (simp add: good_part_def)
  qed
  show "table_good nt' k name (MigrateFromTable nodes v n t)"
    using assms(1,3) p by (auto simp: table_good_def MigrateFromTable_def Let_def)
  show "absent n (MigrateFromTable nodes v n t)"
    and "absent m t \<Longrightarrow> absent m (MigrateFromTable nodes v n t)"
    using p by (auto simp: absent_def MigrateFromTable_def Let_def)
qed

lemma migrate_tables_fold:
  assumes "umap_wf (table_info s)" and "distinct names"
    and "s' = foldl (migrate_table n) s names"
  shows "mi_nodes s' = mi_nodes s \<and> mi_version s' = mi_version s \<and> node_table s' = node_table s \<and>
    umap_wf (table_info s') \<and>
    map_of (table_info s') = (\<lambda>name. if name \<in> set names
      then map_option (MigrateFromTable (mi_nodes s) (v_version (mi_version s)) n) (map_of (table_info s) name)
      else map_of (table_info s) name)"
  using assms
proof (induction names arbitrary: s)
  case (Cons name names)
  have wf: "umap_wf (table_info (migrate_table n s name))"
    using Cons.prems(1) by (simp add: migrate_table_def split: option.split)
  have d: "distinct names" "name \<notin> set names" and s': "s' = foldl (migrate_table n) (migrate_table n s name) names"
    using Cons.prems(2,3) by auto
  note ih = Cons.IH [OF wf d(1) s']
  show ?case
    using ih d(2) by (auto simp: migrate_table_def fun_eq_iff update_conv' split: option.splits)
qed auto

lemma MigrateFromNode_except:
  assumes "inv_except X s" and "good_node n"
    and "MigrateFromNode (s, tasks) n = (s', tasks')"
  shows "inv_except (X - {n}) s' \<and> mi_nodes s' = mi_nodes s \<and> tasks' = tasks \<and> mi_version s' = mi_version s"
proof -
  let ?k = "Node2String n"
  let ?S = "case node_table s ?k of None \<Rightarrow> {||} | Some ts \<Rightarrow> ts"
  let ?s = "s\<lparr>node_table := (node_table s)(?k := None)\<rparr>"
  let ?mig = "MigrateFromTable (mi_nodes s) (v_version (mi_version s)) n"
  have wf: "umap_wf (table_info s)" and ng: "nodes_good (mi_nodes s)"
    and tg: "\<And>name t. (name, t) \<in> set (table_info s) \<Longrightarrow> table_good (node_table s) (length (mi_nodes s)) name t"
    and ab: "\<And>m name t. node_down (mi_nodes s) m \<Longrightarrow> m \<notin> X \<Longrightarrow> (name, t) \<in> set (table_info s) \<Longrightarrow> absent m t"
    using assms(1) unfolding inv_except_def by blast+
  have ds: "distinct (sorted_list_of_fset ?S)" by (simp add: sorted_list_of_fset.rep_eq)
  have "umap_wf (table_info ?s)" using wf by simp
  have f: "s' = foldl (migrate_table n) ?s (sorted_list_of_fset ?S)" and tasks: "tasks' = tasks"
    using assms(3) by (simp_all add: MigrateFromNode_def Let_def)
  from migrate_tables_fold [OF \<open>umap_wf (table_info ?s)\<close> ds f]
  have s': "mi_nodes s' = mi_nodes s" "mi_version s' = mi_version s" "node_table s' = (node_table s)(?k := None)"
    "umap_wf (table_info s')"
    "map_of (table_info s') = (\<lambda>name. if name |\<in>| ?S then map_option ?mig (map_of (table_info s) name)
       else map_of (table_info s) name)"
    by (simp_all cong: if_cong)
  have idx: "indexed ((node_table s)(?k := None)) m name"
    if "m \<noteq> n" "good_node m" "indexed (node_table s) m name" for m name
    using that assms(2) Node2String_inj [of m n] by (auto simp: indexed_def)
  have tab: "table_good (node_table s') (length (mi_nodes s')) name t' \<and> absent n t' \<and> (\<forall>m. absent m t \<longrightarrow> absent m t')"
    if "(name, t') \<in> set (table_info s')" "map_of (table_info s) name = Some t" for name t t'
  proof (cases "name |\<in>| ?S")
    case True
    then have "t' = ?mig t" using that s'(4,5) by (simp add: umap_mem_iff)
    then show ?thesis
      using MigrateFromTable_good [OF tg [OF map_of_SomeD [OF that(2)]] assms(2) idx] s'(1,3) by simp
  next
    case False
    then have t': "t' = t" using that s'(4,5) by (simp add: umap_mem_iff)
    note g = tg [OF map_of_SomeD [OF that(2)]]
    have "\<not> indexed (node_table s) n name" using False by (auto simp: indexed_def)
    then have a: "absent n t" using g by (auto simp: table_good_def absent_def)
    then have "table_good (node_table s') (length (mi_nodes s')) name t"
      using g idx s'(1,3) unfolding table_good_def absent_def good_part_def by metis
    then show ?thesis using a t' by simp
  qed
  have ex: "\<exists>t. map_of (table_info s) name = Some t" if "(name, t') \<in> set (table_info s')" for name t'
    using that s'(4,5) by (auto simp: umap_mem_iff split: if_splits)
  have "inv_except (X - {n}) s'"
  proof (rule inv_exceptI)
    show "table_good (node_table s') (length (mi_nodes s')) name t'"
      if "(name, t') \<in> set (table_info s')" for name t'
      using that ex tab by blast
    show "absent m t'"
      if "node_down (mi_nodes s') m" "m \<notin> X - {n}" and mem: "(name, t') \<in> set (table_info s')" for m name t'
    proof -
      obtain t where t: "map_of (table_info s) name = Some t" using ex mem by blast
      have "absent n t' \<and> (\<forall>m. absent m t \<longrightarrow> absent m t')" using tab [OF mem t] by blast
      moreover have "m \<noteq> n \<Longrightarrow> absent m t" using ab that(1,2) s'(1) map_of_SomeD [OF t] by auto
      ultimately show ?thesis by blast
    qed
  qed (use s' ng in auto)
  then show ?thesis using s' tasks by simp
qed

lemma down_one_eq:
  "down_one (c, s) n =
     (c \<or> Node2String n \<in> fst ` set (mi_nodes s),
      s\<lparr>mi_nodes := (if Node2String n \<in> fst ` set (mi_nodes s)
                     then AList.update (Node2String n) 0 (mi_nodes s) else mi_nodes s)\<rparr>)"
proof (cases "map_of (mi_nodes s) (Node2String n)")
  case None
  then have "Node2String n \<notin> fst ` set (mi_nodes s)" by (simp add: map_of_eq_None_iff)
  then show ?thesis using None by (simp add: down_one_def Let_def)
next
  case (Some x)
  then have "Node2String n \<in> fst ` set (mi_nodes s)" by (metis domI dom_map_of_conv_image_fst)
  then show ?thesis using Some by (simp add: down_one_def Let_def)
qed

lemma down_one_except:
  assumes "inv_except X s" and "good_node n" and "down_one (c, s) n = (c', s')"
  shows "inv_except (insert n X) s'" and "\<And>m. node_down (mi_nodes s) m \<Longrightarrow> node_down (mi_nodes s') m"
    and "Node2String n \<in> fst ` set (mi_nodes s) \<Longrightarrow> node_down (mi_nodes s') n"
proof -
  let ?k = "Node2String n"
  let ?ns = "if ?k \<in> fst ` set (mi_nodes s) then AList.update ?k 0 (mi_nodes s) else mi_nodes s"
  have s': "s' = s\<lparr>mi_nodes := ?ns\<rparr>" using assms(3) unfolding down_one_eq by simp
  have ng: "nodes_good (mi_nodes s)" using assms(1) by (simp add: inv_except_def)
  have ns: "length ?ns = length (mi_nodes s)" "nodes_good ?ns"
    using ng nodes_good_put(2) [OF ng assms(2) rearranges_id(1), of 0] by (auto simp: length_update_present)
  have d: "node_down ?ns m \<Longrightarrow> m \<noteq> n \<Longrightarrow> node_down (mi_nodes s) m" for m
    using assms(2) Node2String_inj [of m n] by (auto simp: node_down_def update_conv' split: if_splits)
  show "inv_except (insert n X) s'"
    unfolding s' using assms(1) ns d unfolding inv_except_def by auto
  show "node_down (mi_nodes s') m" if "node_down (mi_nodes s) m" for m
    using that unfolding s' by (auto simp: node_down_def update_conv')
  show "node_down (mi_nodes s') n" if "?k \<in> fst ` set (mi_nodes s)"
    using that assms(2) unfolding s' by (simp add: node_down_def update_conv')
qed

lemma down_fold_except:
  assumes "inv_except X s" and "\<forall>n \<in> set ns. good_node n" and "foldl down_one (c, s) ns = (c', s')"
  shows "inv_except (X \<union> set ns) s'" and "\<not> c' \<Longrightarrow> s' = s"
proof -
  have "inv_except (X \<union> set ns) s' \<and> (c \<longrightarrow> c') \<and> (\<not> c' \<longrightarrow> s' = s)"
    using assms
  proof (induction ns arbitrary: X c s)
    case (Cons n ns)
    obtain c1 s1 where d: "down_one (c, s) n = (c1, s1)" by fastforce
    have "inv_except (insert n X) s1" using down_one_except(1) [OF Cons.prems(1) _ d] Cons.prems(2) by simp
    from Cons.IH [OF this, of c1] Cons.prems(2,3) d
    have "inv_except (insert n X \<union> set ns) s'" "c1 \<longrightarrow> c'" "\<not> c' \<longrightarrow> s' = s1" by auto
    moreover have "(c \<longrightarrow> c1) \<and> (\<not> c1 \<longrightarrow> s1 = s)" using d unfolding down_one_eq by auto
    ultimately show ?case by auto
  qed simp
  then show "inv_except (X \<union> set ns) s'" and "\<not> c' \<Longrightarrow> s' = s" by auto
qed

lemma migrate_fold_except:
  assumes "inv_except X s" and "\<forall>n \<in> set ns. good_node n"
    and "foldl MigrateFromNode (s, tasks) ns = (s', tasks')"
  shows "inv_except (X - set ns) s' \<and> mi_nodes s' = mi_nodes s \<and> tasks' = tasks \<and> mi_version s' = mi_version s"
  using assms
proof (induction ns arbitrary: X s tasks)
  case (Cons n ns)
  obtain s1 tasks1 where d: "MigrateFromNode (s, tasks) n = (s1, tasks1)" by fastforce
  have 1: "inv_except (X - {n}) s1 \<and> mi_nodes s1 = mi_nodes s \<and> tasks1 = tasks \<and> mi_version s1 = mi_version s"
    using MigrateFromNode_except [OF Cons.prems(1) _ d] Cons.prems(2) by simp
  have "X - {n} - set ns = X - set (n # ns)" by auto
  then show ?case using Cons.IH [of "X - {n}" s1 tasks1] 1 Cons.prems(2,3) d by auto
qed simp

lemma meta_inv_DownNodes:
  assumes "meta_inv s" and "\<forall>n \<in> set ns. good_node n" and "DownNodes e ns tasks s = (info, tasks', s')"
  shows "meta_inv s'" and "tasks' = tasks"
proof -
  obtain c s1 where d: "foldl down_one (False, s) ns = (c, s1)" by fastforce
  note 1 = down_fold_except [OF assms(1) [unfolded inv_except_empty] assms(2) d]
  have b: "inv_except (set ns) (bump_epoch s1)"
    using 1(1) by (simp add: inv_except_def bump_epoch_def)
  obtain s2 tasks2 where m: "foldl MigrateFromNode (bump_epoch s1, tasks) ns = (s2, tasks2)" by fastforce
  have 2: "meta_inv s2" "tasks2 = tasks"
    using migrate_fold_except [OF b assms(2) m] by (auto simp: inv_except_empty)
  show "meta_inv s'" and "tasks' = tasks"
    using assms(1,3) d m 1(2) 2 by (auto simp: DownNodes_def Let_def split: if_splits)
qed

subsection \<open>Committed migrations\<close>

text \<open>A migration that may be committed: its destination is a node that is not down, and a
  partition whose master is replaced has a master.\<close>

definition committable :: "meta_info \<Rightarrow> processor \<Rightarrow> bool" where
  "committable s pr \<longleftrightarrow>
     good_node (pr_dst pr) \<and> \<not> node_down (mi_nodes s) (pr_dst pr) \<and>
     (case map_of (table_info s) (mg_table_name (pr_task pr)) of
        None \<Rightarrow> True
      | Some t \<Rightarrow>
          mg_fault_role (pr_task pr) = MASTER \<and> 0 \<le> mg_partition_id (pr_task pr) \<and>
          mg_partition_id (pr_task pr) < int (length (mt_partitions t)) \<longrightarrow>
          mp_master (mt_partitions t ! nat (mg_partition_id (pr_task pr))) \<noteq> None)"

lemma commit_partition_replicas:
  assumes "good_part p" and "good_node (pr_dst pr)" and "master_of p \<noteq> pr_dst pr" and "pr_dst pr \<notin> set (mp_slaves p)"
    and "mg_fault_role (pr_task pr) = MASTER \<longrightarrow> mp_master p \<noteq> None"
  shows "set (real_replicas (commit_partition pr dup p)) = insert (pr_dst pr) (set (real_replicas p))"
    and "good_part (commit_partition pr dup p)"
proof -
  have r: "mset (real_replicas (commit_partition pr dup p)) = mset (pr_dst pr # real_replicas p)"
    using assms(5) by (auto simp: commit_partition_def Let_def real_replicas_def master_of_def split: option.splits)
  show eq: "set (real_replicas (commit_partition pr dup p)) = insert (pr_dst pr) (set (real_replicas p))"
    using mset_eq_setD [OF r] by simp
  have "distinct (pr_dst pr # real_replicas p)"
    using assms(1,3,4) by (auto simp: good_part_def real_replicas_def master_of_def split: option.splits)
  then have "distinct (real_replicas (commit_partition pr dup p))" using mset_eq_imp_distinct_iff [OF r] by simp
  then show "good_part (commit_partition pr dup p)"
    using assms(1,2) eq by (auto simp: good_part_def)
qed

lemma CommitMigrate_cases:
  assumes "CommitMigrate info pr s = Some (info', s')"
  obtains (same) "s' = s"
  | (moved) t i where "info = mi_version s" "map_of (table_info s) (mg_table_name (pr_task pr)) = Some t"
      "i < length (mt_partitions t)" "mg_partition_id (pr_task pr) = int i"
      "master_of (mt_partitions t ! i) \<noteq> pr_dst pr" "pr_dst pr \<notin> set (mp_slaves (mt_partitions t ! i))"
      "s' = bump_version (s\<lparr>node_table := UpdateNodeTable (pr_dst pr) (mg_table_name (pr_task pr)) (node_table s),
         table_info := AList.update (mg_table_name (pr_task pr))
           (t\<lparr>mt_partitions := (mt_partitions t)[i := commit_partition pr (mt_duplicate_num t) (mt_partitions t ! i)],
              mt_version := v_version (mi_version s) + 1\<rparr>) (table_info s)\<rparr>)"
      "info' = mi_version s'"
proof (cases "s' = s")
  case False
  let ?i = "mg_partition_id (pr_task pr)"
  obtain t where t: "info = mi_version s" "map_of (table_info s) (mg_table_name (pr_task pr)) = Some t"
    using assms False by (auto simp: CommitMigrate_def Let_def split: if_splits option.splits)
  moreover from t have i: "0 \<le> ?i" "?i < int (length (mt_partitions t))"
    using assms by (auto simp: CommitMigrate_def Let_def split: if_splits)
  ultimately show ?thesis
    using assms False by (intro moved [of t "nat ?i"]) (auto simp: CommitMigrate_def Let_def bump_version_def split: if_splits)
qed (use same in simp)

lemma meta_inv_CommitMigrate:
  assumes "meta_inv s" and "committable s pr" and "CommitMigrate info pr s = Some (info', s')"
  shows "meta_inv s'"
  using assms(3)
proof (cases rule: CommitMigrate_cases)
  case same
  then show ?thesis using assms(1) by simp
next
  case (moved t i)
  note inv = meta_invD [OF assms(1)]
  let ?name = "mg_table_name (pr_task pr)" and ?dst = "pr_dst pr"
  let ?nt = "UpdateNodeTable ?dst ?name (node_table s)"
  let ?p = "commit_partition pr (mt_duplicate_num t) (mt_partitions t ! i)"
  let ?t = "t\<lparr>mt_partitions := (mt_partitions t)[i := ?p], mt_version := v_version (mi_version s) + 1\<rparr>"
  let ?s = "s\<lparr>node_table := ?nt, table_info := AList.update ?name ?t (table_info s)\<rparr>"
  have t: "table_good (node_table s) (length (mi_nodes s)) ?name t" by (rule inv(3) [OF map_of_SomeD [OF moved(2)]])
  have dst: "good_node ?dst" "\<not> node_down (mi_nodes s) ?dst"
    and m: "mg_fault_role (pr_task pr) = MASTER \<longrightarrow> mp_master (mt_partitions t ! i) \<noteq> None"
    using assms(2) moved(2,3,4) by (auto simp: committable_def)
  have gp: "good_part (mt_partitions t ! i)" using t moved(3) by (simp add: table_good_def)
  note p = commit_partition_replicas [OF gp dst(1) moved(5,6) m, of "mt_duplicate_num t"]
  have parts: "q = ?p \<or> q \<in> set (mt_partitions t)" if "q \<in> set (mt_partitions ?t)" for q
    using that set_update_subset_insert by fastforce
  have t1: "table_good ?nt (length (mi_nodes s)) ?name ?t"
  proof -
    have "indexed ?nt n ?name" if "n \<in> set (real_replicas q)" "q = ?p \<or> q \<in> set (mt_partitions t)" for n q
      using that p(1) t moved(3) UpdateNodeTable_indexed UpdateNodeTable_le
      unfolding table_good_def nt_le_def by (metis insertE nth_mem)
    then show ?thesis using t p(2) parts unfolding table_good_def by auto
  qed
  have a1: "absent n ?t" if "node_down (mi_nodes s) n" "absent n t" for n
    using that p(1) parts dst(2) moved(3) unfolding absent_def by (metis insertE nth_mem)
  have mem: "(name, t') \<in> set (AList.update ?name ?t (table_info s)) \<Longrightarrow>
      name = ?name \<and> t' = ?t \<or> (name, t') \<in> set (table_info s)" for name t'
    using inv(1) by (simp add: umap_mem_iff update_conv' split: if_splits)
  have "meta_inv ?s"
  proof (rule meta_invI)
    fix name t' assume "(name, t') \<in> set (table_info ?s)"
    with mem [of name t'] show "table_good (node_table ?s) (length (mi_nodes ?s)) name t'"
      using t1 table_good_mono [OF inv(3) UpdateNodeTable_le order.refl] by auto
  next
    fix n name t' assume "node_down (mi_nodes ?s) n" "(name, t') \<in> set (table_info ?s)"
    with mem [of name t'] show "absent n t'"
      using a1 inv(4) map_of_SomeD [OF moved(2)] by auto
  qed (use inv in auto)
  then show ?thesis unfolding moved(7) by simp
qed

subsection \<open>Snapshots\<close>

lemma SetMetaInfoSnapshot_fields:
  "SetMetaInfoSnapshot l now node_snap table_snap s =
     s\<lparr>table_info := foldl (\<lambda>m v. umap_put (lay_tables l) (fst v) (snd v) m) (table_info s) table_snap,
       node_table := foldl (\<lambda>nt v. SetNodeTable (snd v) nt) (node_table s) table_snap,
       mi_nodes := foldl (\<lambda>m v. umap_put (lay_nodes l) (fst v) (snd v) m) (mi_nodes s)
         (map (\<lambda>ns. (Node2String (ns_node ns), if ns_state ns = DOWN then 0 else now)) node_snap)\<rparr>"
proof -
  have 1: "foldl (\<lambda>s v. s\<lparr>table_info := umap_put (lay_tables l) (fst v) (snd v) (table_info s),
        node_table := SetNodeTable (snd v) (node_table s)\<rparr>) s ts =
      s\<lparr>table_info := foldl (\<lambda>m v. umap_put (lay_tables l) (fst v) (snd v) m) (table_info s) ts,
        node_table := foldl (\<lambda>nt v. SetNodeTable (snd v) nt) (node_table s) ts\<rparr>" for ts and s :: meta_info
    by (induction ts arbitrary: s) simp_all
  have 2: "foldl (\<lambda>s ns. s\<lparr>mi_nodes := umap_put (lay_nodes l) (Node2String (ns_node ns))
        (if ns_state ns = DOWN then 0 else now) (mi_nodes s)\<rparr>) s nss =
      s\<lparr>mi_nodes := foldl (\<lambda>m v. umap_put (lay_nodes l) (fst v) (snd v) m) (mi_nodes s)
         (map (\<lambda>ns. (Node2String (ns_node ns), if ns_state ns = DOWN then 0 else now)) nss)\<rparr>"
    for nss and s :: meta_info
    by (induction nss arbitrary: s) simp_all
  show ?thesis by (simp add: SetMetaInfoSnapshot_def 1 2)
qed

definition layout_ok :: "layout \<Rightarrow> bool" where
  "layout_ok l \<longleftrightarrow> rearranges (lay_nodes l) \<and> rearranges (lay_tables l)"

lemma umap_length: "umap_wf m \<Longrightarrow> length m = card (dom (map_of m))"
  unfolding umap_wf_def dom_map_of_conv_image_fst by (metis distinct_card length_map list.set_map)

lemma foldl_SetNodeTable_indexed:
  assumes "(name, t) \<in> set ts" and "p \<in> set (mt_partitions t)" and "n \<in> set (real_replicas p)"
  shows "indexed (foldl (\<lambda>nt v. SetNodeTable (snd v) nt) nt ts) n (mt_name t)"
  using assms(1)
proof (induction ts arbitrary: nt)
  case (Cons v ts)
  let ?nt = "SetNodeTable (snd v) nt"
  have le: "nt_le ?nt (foldl (\<lambda>nt v. SetNodeTable (snd v) nt) ?nt ts)" by (intro foldl_nt_le SetNodeTable_le)
  show ?case
  proof (cases "(name, t) \<in> set ts")
    case True
    then show ?thesis using Cons.IH by simp
  next
    case False
    then have "snd v = t" using Cons.prems by auto
    then show ?thesis
      using le SetNodeTable_indexed [OF assms(2) real_replicas_subset [THEN subsetD, OF assms(3)], of nt]
      by (simp add: nt_le_def)
  qed
qed simp

lemma loaded_snapshot:
  assumes "meta_inv s" and "layout_ok l" and "rearranges rhg"
    and R: "R = SetMetaInfoSnapshot l now (ConvertNodeSnap (mi_nodes s)) (ConvertTableSnap rhg (table_info s))
           \<lparr>mi_version = ver, table_info = [], node_table = (\<lambda>_. None), mi_nodes = []\<rparr>"
  shows "mi_version R = ver" and "map_of (table_info R) = map_of (table_info s)" and "umap_wf (table_info R)"
    and "map_of (mi_nodes R) = (\<lambda>k. map_option (\<lambda>t. if t = 0 then 0 else now) (map_of (mi_nodes s) k))"
    and "umap_wf (mi_nodes R)"
    and "(name, t) \<in> set (table_info R) \<Longrightarrow> p \<in> set (mt_partitions t) \<Longrightarrow> n \<in> set (real_replicas p) \<Longrightarrow>
           indexed (node_table R) n name"
proof -
  note inv = meta_invD [OF assms(1)]
  let ?ts = "ConvertTableSnap rhg (table_info s)"
  let ?alive = "\<lambda>t :: nat. if t = 0 then 0 else now"
  let ?ns = "map (\<lambda>v. (fst v, ?alive (snd v))) (mi_nodes s)"
  have ts: "umap_wf ?ts" "map_of ?ts = map_of (table_info s)"
    using inv(1) foldl_umap_put [OF assms(3) umap_wf_Nil, where g = snd]
    by (auto simp: ConvertTableSnap_def umap_wf_def fun_eq_iff split: option.split)
  have key: "Node2String (String2Node k default_node) = k" if "k \<in> fst ` set (mi_nodes s)" for k
    using inv(2) that by (auto simp: nodes_good_def)
  have ns: "map (\<lambda>ns. (Node2String (ns_node ns), if ns_state ns = DOWN then 0 else now)) (ConvertNodeSnap (mi_nodes s)) = ?ns"
    using key by (auto simp: ConvertNodeSnap_def)
  have wf: "umap_wf ?ns" using inv(2) by (simp add: nodes_good_def umap_wf_def comp_def)
  have m: "map_of (map (\<lambda>v. (fst v, ?alive (snd v))) xs) k = map_option ?alive (map_of xs k)"
    for xs :: "(string \<times> nat) list" and k by (induction xs) auto
  have Req: "R = \<lparr>mi_version = ver, table_info = foldl (\<lambda>m v. umap_put (lay_tables l) (fst v) (snd v) m) [] ?ts,
      node_table = foldl (\<lambda>nt v. SetNodeTable (snd v) nt) (\<lambda>_. None) ?ts,
      mi_nodes = foldl (\<lambda>m v. umap_put (lay_nodes l) (fst v) (snd v) m) [] ?ns\<rparr>"
    unfolding R SetMetaInfoSnapshot_fields ns by simp
  have rt: "rearranges (lay_tables l)" "rearranges (lay_nodes l)" using assms(2) by (auto simp: layout_ok_def)
  show "mi_version R = ver" by (simp add: Req)
  show tabs: "map_of (table_info R) = map_of (table_info s)" and wft: "umap_wf (table_info R)"
    using ts foldl_umap_put [OF rt(1) umap_wf_Nil, where g = snd] by (auto simp: Req umap_wf_def fun_eq_iff split: option.split)
  show "map_of (mi_nodes R) = (\<lambda>k. map_option ?alive (map_of (mi_nodes s) k))" and "umap_wf (mi_nodes R)"
    using wf foldl_umap_put [OF rt(2) umap_wf_Nil, where g = snd and kvs = ?ns]
    by (auto simp: Req umap_wf_def m fun_eq_iff split: option.split)
  assume a: "(name, t) \<in> set (table_info R)" "p \<in> set (mt_partitions t)" "n \<in> set (real_replicas p)"
  then have "(name, t) \<in> set ?ts" using tabs wft ts by (simp add: umap_mem_iff)
  moreover have "mt_name t = name"
    using inv(1,3) a(1) tabs wft by (simp add: umap_mem_iff table_good_def)
  ultimately show "indexed (node_table R) n name"
    using foldl_SetNodeTable_indexed [OF _ a(2,3), of name ?ts "\<lambda>_. None"] by (simp add: Req)
qed

lemma meta_inv_loaded:
  assumes "meta_inv s" and "layout_ok l" and "rearranges rhg" and "now > 0"
    and R: "R = SetMetaInfoSnapshot l now (ConvertNodeSnap (mi_nodes s)) (ConvertTableSnap rhg (table_info s))
           \<lparr>mi_version = ver, table_info = [], node_table = (\<lambda>_. None), mi_nodes = []\<rparr>"
  shows "meta_inv R"
proof -
  note inv = meta_invD [OF assms(1)] and r = loaded_snapshot [OF assms(1,2,3) R]
  have dom: "dom (map_of (mi_nodes R)) = dom (map_of (mi_nodes s))" by (auto simp: r(4))
  have len: "length (mi_nodes R) = length (mi_nodes s)"
    using inv(2) r(5) dom by (simp add: nodes_good_def umap_length)
  have ng: "nodes_good (mi_nodes R)"
    using inv(2) r(5) dom unfolding nodes_good_def dom_map_of_conv_image_fst by simp
  have mem: "(name, t) \<in> set (table_info R) \<longleftrightarrow> (name, t) \<in> set (table_info s)" for name t
    using r(2,3) inv(1) by (simp add: umap_mem_iff)
  have down: "node_down (mi_nodes R) n \<longleftrightarrow> node_down (mi_nodes s) n" for n
    using assms(4) by (auto simp: node_down_def r(4))
  show ?thesis
  proof (rule meta_invI)
    show "table_good (node_table R) (length (mi_nodes R)) name t" if "(name, t) \<in> set (table_info R)" for name t
      using inv(3) [of name t] that mem r(6) len by (auto simp: table_good_def)
    show "absent n t" if "node_down (mi_nodes R) n" "(name, t) \<in> set (table_info R)" for n name t
      using inv(4) that mem down by blast
  qed (use r(3) ng in auto)
qed

subsection \<open>Versions\<close>

text \<open>What a client can see of the meta information: everything but the exact time a node was
  last heard of, and an unlisted node has no tables. An operation either changes nothing of
  this or moves the version forward.\<close>

definition tables_of :: "meta_info \<Rightarrow> string \<Rightarrow> string fset" where
  "tables_of s k = (case node_table s k of None \<Rightarrow> {||} | Some ts \<Rightarrow> ts)"

definition node_flags :: "(string, nat) umap \<Rightarrow> (string \<times> bool) list" where
  "node_flags ns = map (\<lambda>p. (fst p, snd p = 0)) ns"

definition same_meta :: "meta_info \<Rightarrow> meta_info \<Rightarrow> bool" where
  "same_meta s s' \<longleftrightarrow>
     mi_version s' = mi_version s \<and> table_info s' = table_info s \<and>
     node_flags (mi_nodes s') = node_flags (mi_nodes s) \<and> (\<forall>k. tables_of s' k = tables_of s k)"

definition newer :: "version_info \<Rightarrow> version_info \<Rightarrow> bool" where
  "newer v v' \<longleftrightarrow> v_epoch v \<le> v_epoch v' \<and> v_version v \<le> v_version v' \<and> v \<noteq> v'"

definition advances :: "meta_info \<Rightarrow> meta_info \<Rightarrow> bool" where
  "advances s s' \<longleftrightarrow> same_meta s s' \<or> newer (mi_version s) (mi_version s')"

lemma same_meta_refl [simp]: "same_meta s s"
  by (simp add: same_meta_def)

lemma advances_refl [simp]: "advances s s"
  by (simp add: advances_def)

lemma version_eq: "(v :: version_info) = v' \<longleftrightarrow> v_epoch v = v_epoch v' \<and> v_version v = v_version v'"
  by (cases v; cases v') simp

lemma newer_trans: "newer a b \<Longrightarrow> newer b c \<Longrightarrow> newer a c"
  by (auto simp: newer_def version_eq)

lemma same_meta_trans: "same_meta a b \<Longrightarrow> same_meta b c \<Longrightarrow> same_meta a c"
  by (simp add: same_meta_def)

lemma advances_trans: "advances a b \<Longrightarrow> advances b c \<Longrightarrow> advances a c"
  by (auto simp: advances_def same_meta_def intro: newer_trans)

lemma newer_bump:
  "newer (mi_version s) (mi_version (bump_epoch s))" "newer (mi_version s) (mi_version (bump_version s))"
  by (simp_all add: newer_def bump_epoch_def bump_version_def version_eq)

lemma advances_bump:
  "mi_version s' = mi_version (bump_epoch s) \<Longrightarrow> advances s s'"
  "mi_version s' = mi_version (bump_version s) \<Longrightarrow> advances s s'"
  using newer_bump by (simp_all add: advances_def)

lemma node_flags_update:
  "map_of ns k = Some x \<Longrightarrow> x \<noteq> 0 \<Longrightarrow> now > 0 \<Longrightarrow> node_flags (AList.update k now ns) = node_flags ns"
  by (induction ns) (auto simp: node_flags_def split: if_splits)

lemma mi_version_UpdatePartNodeMS [simp]: "mi_version (UpdatePartNodeMS n s) = mi_version s"
  by (simp add: UpdatePartNodeMS_eq Let_def split: prod.split)

lemma bump_cong: "mi_version s = mi_version s' \<Longrightarrow> mi_version (bump_epoch s) = mi_version (bump_epoch s')"
  "mi_version s = mi_version s' \<Longrightarrow> mi_version (bump_version s) = mi_version (bump_version s')"
  by (simp_all add: bump_epoch_def bump_version_def)

lemma advances_UpdateNode:
  assumes "now > 0"
  shows "advances s (snd (UpdateNode rhn now n s))"
proof (cases "map_of (mi_nodes s) (Node2String n)")
  case None
  then show ?thesis by (intro advances_bump(1)) (simp add: UpdateNode_def Let_def bump_epoch_def)
next
  case (Some last)
  show ?thesis
  proof (cases "last = 0")
    case True
    with Some show ?thesis
      by (intro advances_bump(1)) (simp add: UpdateNode_def Let_def bump_epoch_def)
  next
    case False
    with Some assms node_flags_update [OF Some False assms] show ?thesis
      by (simp add: advances_def same_meta_def UpdateNode_def Let_def tables_of_def)
  qed
qed

lemma advances_CreateTable: "advances s (snd (CreateTable rht info t s))"
proof (cases "info = mi_version s \<and> map_of (table_info s) (mt_name t) = None")
  case True
  then show ?thesis by (intro advances_bump(2)) (simp add: CreateTable_def Let_def bump_version_def)
qed (auto simp: CreateTable_def split: option.split)

lemma drop_fold:
  assumes "foldl drop_one (c, s) names = (c', s')"
  shows "mi_version s' = mi_version s \<and> (c \<longrightarrow> c') \<and> (\<not> c' \<longrightarrow> s' = s)"
  using assms
proof (induction names arbitrary: c s)
  case (Cons name names)
  obtain c1 s1 where d: "drop_one (c, s) name = (c1, s1)" by fastforce
  then have "mi_version s1 = mi_version s \<and> (c \<longrightarrow> c1) \<and> (\<not> c1 \<longrightarrow> s1 = s)"
    by (auto simp: drop_one_def split: option.splits)
  moreover have "mi_version s' = mi_version s1 \<and> (c1 \<longrightarrow> c') \<and> (\<not> c' \<longrightarrow> s' = s1)"
    by (rule Cons.IH) (use Cons.prems d in simp)
  ultimately show ?case by auto
qed simp

lemma advances_DropTable: "advances s (snd (DropTable info tables s))"
proof -
  obtain c s1 where d: "foldl drop_one (False, s) tables = (c, s1)" by fastforce
  note f = drop_fold [OF d]
  show ?thesis
  proof (cases "info = mi_version s \<and> c")
    case True
    then have "snd (DropTable info tables s) = bump_version s1" using d by (simp add: DropTable_def Let_def)
    then show ?thesis using f bump_cong(2) [of s1 s] by (intro advances_bump(2)) simp
  qed (use f d in \<open>auto simp: DropTable_def Let_def\<close>)
qed

lemma mi_version_down: "mi_version (snd (foldl down_one cs ns)) = mi_version (snd cs)"
  by (induction ns arbitrary: cs) (auto simp: down_one_def Let_def split: prod.split option.split)

lemma advances_DownNodes:
  assumes "meta_inv s" and "\<forall>n \<in> set ns. good_node n" and "DownNodes e ns tasks s = (info, tasks', s')"
  shows "advances s s'"
proof -
  obtain c s1 where d: "foldl down_one (False, s) ns = (c, s1)" by fastforce
  note 1 = down_fold_except [OF assms(1) [unfolded inv_except_empty] assms(2) d]
  have v1: "mi_version s1 = mi_version s" using mi_version_down [of "(False, s)" ns] d by simp
  have b: "inv_except (set ns) (bump_epoch s1)" using 1(1) by (simp add: inv_except_def bump_epoch_def)
  obtain s2 tasks2 where m: "foldl MigrateFromNode (bump_epoch s1, tasks) ns = (s2, tasks2)" by fastforce
  have v2: "mi_version s2 = mi_version (bump_epoch s1)" using migrate_fold_except [OF b assms(2) m] by simp
  show ?thesis
  proof (cases "e = v_epoch (mi_version s) \<and> c")
    case True
    then have "s' = s2" using assms(3) d m by (simp add: DownNodes_def Let_def)
    then show ?thesis using v1 v2 bump_cong(1) [of s1 s] by (intro advances_bump(1)) simp
  qed (use assms(3) d 1(2) in \<open>auto simp: DownNodes_def Let_def split: if_splits\<close>)
qed

lemma advances_CommitMigrate:
  assumes "CommitMigrate info pr s = Some (info', s')"
  shows "advances s s'"
  using assms
proof (cases rule: CommitMigrate_cases)
  case (moved t i)
  then show ?thesis by (intro advances_bump(2)) (simp add: bump_version_def)
qed simp

lemma advances_RefreshNodes: "now > 0 \<Longrightarrow> advances s (RefreshNodes now s)"
  by (simp add: advances_def same_meta_def RefreshNodes_def node_flags_def tables_of_def comp_def)

subsection \<open>The shared snapshot\<close>

definition cache_ok :: "meta_server \<Rightarrow> bool" where
  "cache_ok m \<longleftrightarrow> (case ms_snapshot m of None \<Rightarrow> True | Some sn \<Rightarrow> advances sn (ms_info m))"

lemma GetSnapshot_same [simp]: "same_meta (GetSnapshot s) s" "mi_version (GetSnapshot s) = mi_version s"
  by (simp_all add: GetSnapshot_def same_meta_def tables_of_def)

lemma not_changed_same: "advances sn s \<Longrightarrow> \<not> MetaInfo_Changed (mi_version sn) s \<Longrightarrow> same_meta sn s"
  by (auto simp: advances_def newer_def MetaInfo_Changed_def version_eq)

lemma GetMetaInfoSnapshot_ok:
  assumes "cache_ok m" and "GetMetaInfoSnapshot m = (sn, m')"
  shows "same_meta sn (ms_info m)" and "cache_ok m'" and "ms_info m' = ms_info m" and "ms_migrate m' = ms_migrate m"
    and "ms_snapshot m' = Some sn" and "ms_leader_term m' = ms_leader_term m"
proof -
  have "same_meta sn (ms_info m) \<and> ms_info m' = ms_info m \<and> ms_migrate m' = ms_migrate m \<and>
      ms_snapshot m' = Some sn \<and> ms_leader_term m' = ms_leader_term m"
    using assms not_changed_same
    by (auto simp: GetMetaInfoSnapshot_def cache_ok_def Let_def split: option.splits if_splits)
  then show "same_meta sn (ms_info m)" and "cache_ok m'" and "ms_info m' = ms_info m"
    and "ms_migrate m' = ms_migrate m" and "ms_snapshot m' = Some sn" and "ms_leader_term m' = ms_leader_term m"
    by (auto simp: cache_ok_def advances_def)
qed

lemma cache_ok_info: "cache_ok m \<Longrightarrow> advances (ms_info m) mi \<Longrightarrow> cache_ok (m\<lparr>ms_info := mi\<rparr>)"
  by (auto simp: cache_ok_def intro: advances_trans split: option.splits)

lemma cache_ok_frame [simp]:
  "cache_ok (m\<lparr>ms_migrate := mm\<rparr>) = cache_ok m" "cache_ok (m\<lparr>ms_leader_term := t\<rparr>) = cache_ok m"
  by (simp_all add: cache_ok_def split: option.split)

subsection \<open>Reachable states\<close>

text \<open>Requests that clients and servers send: nodes have usable addresses, a created table and
  a committed migration fit the version they name.\<close>

definition request_ok :: "meta_cmd_request \<Rightarrow> meta_info \<Rightarrow> bool" where
  "request_ok rq s \<longleftrightarrow>
     (case rq_type rq of
        PING \<Rightarrow> good_node (rq_ping_node rq)
      | INIT \<Rightarrow> rq_version rq = mi_version s \<longrightarrow> creatable s (rq_init_table rq)
      | DOWNNODES \<Rightarrow> (\<forall>n \<in> set (rq_down_nodes rq). good_node n)
      | MIGRATE \<Rightarrow> rq_version rq = mi_version s \<longrightarrow> committable s (Processor_of_unit (rq_migrate_unit rq))
      | _ \<Rightarrow> True)"

inductive meta_step :: "meta_server \<Rightarrow> meta_server \<Rightarrow> bool" where
  applied: "layout_ok l \<Longrightarrow> now > 0 \<Longrightarrow> request_ok rq (ms_info m) \<Longrightarrow>
    DealRequest l now rq response m = Some (response', m') \<Longrightarrow> meta_step m m'"
| read: "PreDealRequest peers leader rq response m = (True, response', m') \<Longrightarrow> meta_step m m'"
| leader_start: "now > 0 \<Longrightarrow> meta_step m (on_leader_start now t m)"
| leader_stop: "meta_step m (on_leader_stop m)"

text \<open>Raft loads a snapshot of another server of the group only when it is newer.\<close>

inductive meta_reachable :: "meta_server \<Rightarrow> bool" where
  start: "meta_reachable (MetaServer_Start MetaServer_new)"
| step: "meta_reachable m \<Longrightarrow> meta_step m m' \<Longrightarrow> meta_reachable m'"
| load: "meta_reachable m \<Longrightarrow> meta_reachable m0 \<Longrightarrow> layout_ok l \<Longrightarrow> rearranges rhg \<Longrightarrow> now > 0 \<Longrightarrow>
    SaveSnapshot rhg save add m0 = Some files \<Longrightarrow> newer (mi_version (ms_info m)) (sf_version files) \<Longrightarrow>
    on_snapshot_load l now (sf_version files) (Some (sf_tables files)) (Some (sf_nodes files)) m = (ret, m') \<Longrightarrow>
    meta_reachable m'"

inductive_cases meta_stepE: "meta_step m m'"

definition server_inv :: "meta_server \<Rightarrow> bool" where
  "server_inv m \<longleftrightarrow> meta_inv (ms_info m) \<and> cache_ok m \<and> migrate_tasks (ms_migrate m) = []"

lemma server_inv_info:
  "server_inv m \<Longrightarrow> meta_inv mi \<Longrightarrow> advances (ms_info m) mi \<Longrightarrow> server_inv (m\<lparr>ms_info := mi\<rparr>)"
  by (simp add: server_inv_def cache_ok_info)

lemma CommitMigrate_tasks [simp]:
  "migrate_tasks m = [] \<Longrightarrow> migrate_tasks (MetaMigrate_CommitMigrate pr m) = []"
  by (simp add: MetaMigrate_CommitMigrate_def Let_def omap_erase_def split: option.split)

lemma DealPing_step:
  assumes "server_inv m" and "now > 0" and "rearranges rhn" and "good_node (rq_ping_node rq)"
    and "rq_type rq = PING"
  shows "\<exists>response' m1. GetMetaInfoSnapshot m = (fst (GetMetaInfoSnapshot m), m1) \<and>
    DealPing rhn now rq response m =
      Some (response', m1\<lparr>ms_info := snd (UpdateNode rhn now (rq_ping_node rq) (ms_info m))\<rparr>)"
proof -
  obtain sn m1 where g: "GetMetaInfoSnapshot m = (sn, m1)" by fastforce
  have c: "cache_ok m" "migrate_tasks (ms_migrate m) = []" using assms(1) by (auto simp: server_inv_def)
  note ok = GetMetaInfoSnapshot_ok [OF c(1) g]
  obtain info mi where u: "UpdateNode rhn now (rq_ping_node rq) (ms_info m) = (info, mi)" by fastforce
  show ?thesis
    using c(2) ok(3,4) u g assms(5) by (simp add: DealPing_def CheckEpoch_def HasMigrateTask_def Let_def)
qed

lemma meta_step_applied:
  assumes "server_inv m" and "layout_ok l" and "now > 0" and "request_ok rq (ms_info m)"
    and d: "DealRequest l now rq response m = Some (response', m')"
  shows "server_inv m' \<and> advances (ms_info m) (ms_info m')"
proof -
  have inv: "meta_inv (ms_info m)" "cache_ok m" "migrate_tasks (ms_migrate m) = []"
    using assms(1) by (auto simp: server_inv_def)
  have rh: "rearranges (lay_nodes l)" "rearranges (lay_tables l)" using assms(2) by (auto simp: layout_ok_def)
  show ?thesis
  proof (cases "rq_type rq")
    case PING
    obtain sn m1 where g: "GetMetaInfoSnapshot m = (sn, m1)" by fastforce
    note ok = GetMetaInfoSnapshot_ok [OF inv(2) g]
    have gn: "good_node (rq_ping_node rq)" using assms(4) PING by (simp add: request_ok_def)
    let ?mi = "snd (UpdateNode (lay_nodes l) now (rq_ping_node rq) (ms_info m))"
    have m': "m' = m1\<lparr>ms_info := ?mi\<rparr>"
      using DealPing_step [OF assms(1,3) rh(1) gn PING, of response] d PING g by (auto simp: DealRequest_def)
    have "server_inv m1" using inv ok by (simp add: server_inv_def)
    then show ?thesis
      unfolding m' using meta_inv_UpdateNode [OF inv(1) gn assms(3) rh(1)] advances_UpdateNode [OF assms(3)] ok(3)
      by (auto intro: server_inv_info)
  next
    case INIT
    then have m': "m' = m\<lparr>ms_info := snd (CreateTable (lay_tables l) (rq_version rq) (rq_init_table rq) (ms_info m))\<rparr>"
      using d by (auto simp: DealRequest_def DealInit_def split: prod.splits)
    have "meta_inv (snd (CreateTable (lay_tables l) (rq_version rq) (rq_init_table rq) (ms_info m)))"
    proof (cases "rq_version rq = mi_version (ms_info m)")
      case True
      then show ?thesis
        using assms(4) INIT by (intro meta_inv_CreateTable [OF inv(1) rh(2)]) (simp add: request_ok_def)
    next
      case False
      then show ?thesis using inv(1) by (simp add: CreateTable_def)
    qed
    then show ?thesis unfolding m' using advances_CreateTable by (auto intro: server_inv_info assms(1))
  next
    case DROPTABLE
    then have m': "m' = m\<lparr>ms_info := snd (DropTable (rq_version rq) (rq_drop_names rq) (ms_info m))\<rparr>"
      using d by (auto simp: DealRequest_def DealDropTable_def split: prod.splits)
    then show ?thesis
      unfolding m' using meta_inv_DropTable [OF inv(1)] advances_DropTable by (auto intro: server_inv_info assms(1))
  next
    case DOWNNODES
    obtain info tasks mi where dn:
      "DownNodes (v_epoch (rq_version rq)) (rq_down_nodes rq) [] (ms_info m) = (info, tasks, mi)"
      by (metis prod_cases3)
    have gn: "\<forall>n \<in> set (rq_down_nodes rq). good_node n" using assms(4) DOWNNODES by (simp add: request_ok_def)
    have t: "tasks = []" "meta_inv mi" using meta_inv_DownNodes [OF inv(1) gn dn] by auto
    have "m' = m\<lparr>ms_info := mi\<rparr>"
      using d DOWNNODES dn t(1) by (auto simp: DealRequest_def DealDownNodes_def Let_def AddMigrateTasks_def split: if_splits)
    then show ?thesis
      using t(2) advances_DownNodes [OF inv(1) gn dn] by (auto intro: server_inv_info assms(1))
  next
    case MIGRATE
    let ?pr = "Processor_of_unit (rq_migrate_unit rq)"
    obtain info mi where cm: "CommitMigrate (rq_version rq) ?pr (ms_info m) = Some (info, mi)"
      and m': "m' = (m\<lparr>ms_info := mi\<rparr>)\<lparr>ms_migrate := (if v_epoch info \<noteq> 0
        then MetaMigrate_CommitMigrate ?pr (ms_migrate m) else ms_migrate m)\<rparr>"
      using d MIGRATE by (auto simp: DealRequest_def DealMigrate_def Let_def split: option.splits if_splits)
    have "meta_inv mi"
    proof (cases "rq_version rq = mi_version (ms_info m)")
      case True
      then show ?thesis
        using assms(4) MIGRATE by (intro meta_inv_CommitMigrate [OF inv(1) _ cm]) (simp add: request_ok_def)
    next
      case False
      then show ?thesis using cm inv(1) by (simp add: CommitMigrate_def)
    qed
    then have "server_inv (m\<lparr>ms_info := mi\<rparr>)"
      using advances_CommitMigrate [OF cm] by (intro server_inv_info assms(1))
    then show ?thesis
      unfolding m' using advances_CommitMigrate [OF cm] by (auto simp: server_inv_def)
  qed (use d assms(1) in \<open>auto simp: DealRequest_def\<close>)
qed

end
