(* ===== verification/Noah_Meta_Properties.thy ===== *)
theory Noah_Meta_Properties
  imports Noah_Meta_Runs
begin

text \<open>
  What holds in every run of a meta server: a node that is down serves no partition, the
  answers come from the current state, versions only grow, requests with an old version are
  refused, expired nodes are taken out of the tables, and a snapshot restores what was saved.
\<close>

subsection \<open>Every reachable state\<close>

lemma server_inv_read:
  assumes "server_inv m" and "PreDealRequest peers leader rq response m = (True, response', m')"
  shows "server_inv m' \<and> ms_info m' = ms_info m"
proof -
  have inv: "meta_inv (ms_info m)" "cache_ok m" "migrate_tasks (ms_migrate m) = []"
    using assms(1) by (auto simp: server_inv_def)
  obtain sn m1 where g: "GetMetaInfoSnapshot m = (sn, m1)" by fastforce
  note ok = GetMetaInfoSnapshot_ok [OF inv(2) g]
  have m1: "server_inv m1" "ms_info m1 = ms_info m" using inv ok by (simp_all add: server_inv_def)
  have l: "list_reply fill rq response m = (r, m2) \<Longrightarrow> m2 = m1" for fill r m2
    using g by (auto simp: list_reply_def split: prod.splits bool.splits)
  show ?thesis
  proof (cases "rq_type rq")
    case PULL
    obtain tables sn' where p: "pull_tables rq sn = (tables, sn')" by fastforce
    have "same_meta sn' sn"
      using p by (auto simp: pull_tables_def Let_def same_meta_def tables_of_def split: option.splits if_splits)
    then have "same_meta sn' (ms_info m)" using ok(1) same_meta_trans by blast
    moreover have "m' = m1\<lparr>ms_snapshot := Some sn'\<rparr>"
      using assms(2) PULL g p by (auto simp: PreDealRequest_def DealPull_def CheckEpoch_def Let_def)
    ultimately show ?thesis
      using m1 by (auto simp: server_inv_def cache_ok_def advances_def)
  next
    case LISTTABLE
    then have "m' = m1" using assms(2) by (auto simp: PreDealRequest_def DealListTable_def dest: l)
    then show ?thesis using m1 by simp
  next
    case LISTNODE
    then have "m' = m1" using assms(2) by (auto simp: PreDealRequest_def DealListNode_def dest: l)
    then show ?thesis using m1 by simp
  next
    case LISTMETA
    then have "m' = m1" using assms(2) g by (auto simp: PreDealRequest_def DealListMeta_def Let_def)
    then show ?thesis using m1 by simp
  qed (use assms(2) in \<open>auto simp: PreDealRequest_def\<close>)
qed

lemma server_inv_step:
  assumes "meta_step m m'" and "server_inv m"
  shows "server_inv m' \<and> advances (ms_info m) (ms_info m')"
  using assms(1)
proof (cases rule: meta_step.cases)
  case applied
  then show ?thesis using meta_step_applied assms(2) by blast
next
  case read
  then show ?thesis using server_inv_read [OF assms(2)] by (metis advances_refl)
next
  case (leader_start now t)
  have "meta_inv (RefreshNodes now (ms_info m))" "advances (ms_info m) (RefreshNodes now (ms_info m))"
    using assms(2) meta_inv_RefreshNodes advances_RefreshNodes leader_start(2) by (auto simp: server_inv_def)
  then show ?thesis
    unfolding leader_start(1) on_leader_start_def
    using server_inv_info [OF assms(2)] by (auto simp: server_inv_def)
next
  case leader_stop
  then show ?thesis using assms(2) by (simp add: on_leader_stop_def server_inv_def)
qed

lemma load_step:
  assumes "meta_inv (ms_info m0)" and "layout_ok l" and "rearranges rhg" and "now > 0"
    and "SaveSnapshot rhg save add m0 = Some files" and "newer (mi_version (ms_info m)) (sf_version files)"
    and "on_snapshot_load l now (sf_version files) (Some (sf_tables files)) (Some (sf_nodes files)) m = (ret, m')"
  shows "meta_inv (ms_info m')" and "advances (ms_info m) (ms_info m')"
    and "m' = m\<lparr>ms_info := SetMetaInfoSnapshot l now (ConvertNodeSnap (mi_nodes (ms_info m0)))
           (ConvertTableSnap rhg (table_info (ms_info m0)))
           \<lparr>mi_version = mi_version (ms_info m0), table_info = [], node_table = (\<lambda>_. None), mi_nodes = []\<rparr>\<rparr>"
proof -
  let ?R = "SetMetaInfoSnapshot l now (ConvertNodeSnap (mi_nodes (ms_info m0)))
           (ConvertTableSnap rhg (table_info (ms_info m0)))
           \<lparr>mi_version = mi_version (ms_info m0), table_info = [], node_table = (\<lambda>_. None), mi_nodes = []\<rparr>"
  have f: "sf_version files = mi_version (ms_info m0)" "sf_tables files = ConvertTableSnap rhg (table_info (ms_info m0))"
    "sf_nodes files = ConvertNodeSnap (mi_nodes (ms_info m0))"
    using assms(5) by (auto simp: SaveSnapshot_def Let_def GetSnapshot_def split: if_splits)
  note r = loaded_snapshot [OF assms(1,2,3) refl] and i = meta_inv_loaded [OF assms(1,2,3,4) refl]
  have "\<not> (v_epoch (mi_version ?R) \<le> v_epoch (mi_version (ms_info m)) \<and>
      v_version (mi_version ?R) \<le> v_version (mi_version (ms_info m)))"
    using assms(6) f(1) r(1) by (auto simp: newer_def version_eq)
  then show m': "m' = m\<lparr>ms_info := ?R\<rparr>"
    using assms(7) unfolding f by (auto simp: on_snapshot_load_def LoadFromSnapshot_def Let_def)
  show "meta_inv (ms_info m')" unfolding m' using i by simp
  show "advances (ms_info m) (ms_info m')"
    unfolding m' using assms(6) f(1) r(1) by (simp add: advances_def)
qed

lemma reachable_server_inv: "meta_reachable m \<Longrightarrow> server_inv m"
proof (induction rule: meta_reachable.induct)
  case start
  then show ?case
    using meta_inv_Init [OF meta_inv_new]
    by (simp add: server_inv_def MetaServer_Start_def MetaServer_new_def cache_ok_def MetaMigrate_new_def)
next
  case (step m m')
  then show ?case using server_inv_step by blast
next
  case (load m m0 l rhg now save add files ret m')
  have "meta_inv (ms_info m0)" using load.IH by (simp add: server_inv_def)
  note l = load_step [OF this load.hyps(3-8)]
  show ?case using l(1,2) load.IH unfolding l(3) by (intro server_inv_info) simp_all
qed

subsection \<open>A run\<close>

definition ex_layout :: layout where
  "ex_layout = \<lparr>lay_nodes = (\<lambda>m. m), lay_tables = (\<lambda>m. m)\<rparr>"

definition ex_apply :: "meta_server \<Rightarrow> meta_cmd_request \<Rightarrow> meta_server" where
  "ex_apply m rq = (case DealRequest ex_layout 5 rq None m of Some (_, m') \<Rightarrow> m' | None \<Rightarrow> m)"

fun ex_run_ok :: "meta_server \<Rightarrow> meta_cmd_request list \<Rightarrow> bool" where
  "ex_run_ok m [] = True"
| "ex_run_ok m (rq # rqs) = (request_ok rq (ms_info m) \<and> ex_run_ok (ex_apply m rq) rqs)"

lemma ex_run_reachable:
  "meta_reachable m \<Longrightarrow> ex_run_ok m rqs \<Longrightarrow> meta_reachable (foldl ex_apply m rqs)"
proof (induction rqs arbitrary: m)
  case (Cons rq rqs)
  have l: "layout_ok ex_layout" "(5 :: nat) > 0" by (simp_all add: ex_layout_def layout_ok_def)
  have "meta_reachable (ex_apply m rq)"
  proof (cases "DealRequest ex_layout 5 rq None m")
    case None
    then show ?thesis using Cons.prems(1) by (simp add: ex_apply_def)
  next
    case (Some r)
    then have "meta_step m (snd r)"
      using Cons.prems(2) meta_step.applied [OF l, of rq m None "fst r" "snd r"] by simp
    then show ?thesis
      using Some Cons.prems(1) by (auto simp: ex_apply_def split: prod.split intro: meta_reachable.step)
  qed
  then show ?case using Cons by simp
qed simp

definition ex_new_table :: meta_table where
  "ex_new_table = \<lparr>mt_name = ''t'',
     mt_partitions = [\<lparr>mp_id = 0, mp_status = ACTIVE, mp_master = Some (Node ''b'' 2), mp_slaves = [Node ''a'' 1]\<rparr>],
     mt_duplicate_num = 2, mt_capacity = 0, mt_version = 0\<rparr>"

definition ex_requests :: "meta_cmd_request list" where
  "ex_requests =
     [default_request\<lparr>rq_type := PING, rq_ping_node := Node ''a'' 1\<rparr>,
      default_request\<lparr>rq_type := PING, rq_ping_node := Node ''b'' 2\<rparr>,
      default_request\<lparr>rq_type := INIT, rq_version := VersionInfo 2 0, rq_init_table := ex_new_table\<rparr>]"

definition ex_two_nodes :: meta_server where
  "ex_two_nodes = foldl ex_apply (MetaServer_Start MetaServer_new) ex_requests"

definition ex_one_down :: meta_server where
  "ex_one_down = ex_apply ex_two_nodes
     (default_request\<lparr>rq_type := DOWNNODES, rq_version := VersionInfo 2 1, rq_down_nodes := [Node ''b'' 2]\<rparr>)"

lemma ex_two_nodes_reachable: "meta_reachable ex_two_nodes"
  unfolding ex_two_nodes_def by (rule ex_run_reachable [OF meta_reachable.start]) code_simp

lemma ex_one_down_reachable: "meta_reachable ex_one_down"
proof -
  have "ex_run_ok ex_two_nodes
      [default_request\<lparr>rq_type := DOWNNODES, rq_version := VersionInfo 2 1, rq_down_nodes := [Node ''b'' 2]\<rparr>]"
    by code_simp
  from ex_run_reachable [OF ex_two_nodes_reachable this] show ?thesis by (simp add: ex_one_down_def)
qed

subsection \<open>Nodes that are down\<close>



subsection \<open>Expired nodes\<close>

lemma down_one_keys:
  assumes "down_one (c, s) x = (c1, s1)"
  shows "fst ` set (mi_nodes s1) = fst ` set (mi_nodes s)" and "c1 = (c \<or> Node2String x \<in> fst ` set (mi_nodes s))"
proof -
  have s1: "s1 = s\<lparr>mi_nodes := (if Node2String x \<in> fst ` set (mi_nodes s)
      then AList.update (Node2String x) 0 (mi_nodes s) else mi_nodes s)\<rparr>"
    and c1: "c1 = (c \<or> Node2String x \<in> fst ` set (mi_nodes s))"
    using assms unfolding down_one_eq by simp_all
  show "fst ` set (mi_nodes s1) = fst ` set (mi_nodes s)"
    unfolding s1 by (simp add: dom_update insert_absorb)
  show "c1 = (c \<or> Node2String x \<in> fst ` set (mi_nodes s))" by (rule c1)
qed

lemma down_fold_keeps:
  assumes "foldl down_one (c, s) ns = (c', s')" and "inv_except X s" and "\<forall>n \<in> set ns. good_node n"
  shows "(node_down (mi_nodes s) m \<longrightarrow> node_down (mi_nodes s') m) \<and> (c \<longrightarrow> c')"
  using assms
proof (induction ns arbitrary: X c s)
  case (Cons y ys)
  obtain c1 s1 where d: "down_one (c, s) y = (c1, s1)" by fastforce
  have gy: "good_node y" using Cons.prems(3) by simp
  note e = down_one_except [OF Cons.prems(2) gy d]
  have "(node_down (mi_nodes s1) m \<longrightarrow> node_down (mi_nodes s') m) \<and> (c1 \<longrightarrow> c')"
    using Cons.prems(1,3) d by (intro Cons.IH [OF _ e(1)]) auto
  then show ?case using e(2) down_one_keys(2) [OF d] by blast
qed simp

lemma down_fold_marks:
  assumes "n \<in> set ns" and "Node2String n \<in> fst ` set (mi_nodes s)" and "\<forall>n \<in> set ns. good_node n"
    and "inv_except X s" and "foldl down_one (c, s) ns = (c', s')"
  shows "node_down (mi_nodes s') n \<and> c'"
  using assms
proof (induction ns arbitrary: X c s)
  case (Cons x ns)
  obtain c1 s1 where d: "down_one (c, s) x = (c1, s1)" by fastforce
  have g: "good_node x" "\<forall>n \<in> set ns. good_node n" using Cons.prems(3) by simp_all
  note e = down_one_except [OF Cons.prems(4) g(1) d] and k = down_one_keys [OF d]
  have f: "foldl down_one (c1, s1) ns = (c', s')" using Cons.prems(5) d by simp
  show ?case
  proof (cases "n = x")
    case True
    then show ?thesis using e(3) down_fold_keeps [OF f e(1) g(2)] k(2) Cons.prems(2) by blast
  next
    case False
    then have "n \<in> set ns" using Cons.prems(1) by simp
    from Cons.IH [OF this _ g(2) e(1) f] show ?thesis using k(1) Cons.prems(2) by simp
  qed
qed simp

lemma CheckNodesStatus_eq:
  "CheckNodesStatus now timeout m =
     (let dead = filter (\<lambda>p. node_expired now timeout (snd p)) (mi_nodes (ms_info m))
      in if dead = [] then None
         else Some (default_request\<lparr>rq_version := mi_version (ms_info m), rq_type := DOWNNODES,
                      rq_down_nodes := map (\<lambda>p. String2Node (fst p) default_node) dead\<rparr>))"
  by (simp add: CheckNodesStatus_def CheckExpiredNodes_def GetSnapshot_def Let_def comp_def)



subsection \<open>Answers and versions\<close>

text \<open>
  C28: in every reachable state a \<^verbatim>\<open>PULL\<close> is answered from the current meta information: the
  version, the tables asked for and the state of every node are those of the server,
  although the answer is taken from a snapshot that is shared between requests.
\<close>

theorem pull_answers_current:
  assumes "meta_reachable m" and "rq_type rq = PULL"
  shows "\<exists>m'. DealPull rq response m =
      (response\<lparr>rs_version := mi_version (ms_info m),
         rs_pull_info := rs_pull_info response @ fst (pull_tables rq (ms_info m)),
         rs_pull_nodes := rs_pull_nodes response @ node_statuses (mi_nodes (ms_info m)),
         rs_status := OK\<rparr>, m') \<and> ms_info m' = ms_info m"
proof -
  have c: "cache_ok m" using reachable_server_inv [OF assms(1)] by (simp add: server_inv_def)
  obtain sn m1 where g: "GetMetaInfoSnapshot m = (sn, m1)" by fastforce
  note ok = GetMetaInfoSnapshot_ok [OF c g]
  obtain tables sn' where p: "pull_tables rq sn = (tables, sn')" by fastforce
  have s: "mi_version sn = mi_version (ms_info m)" "table_info sn = table_info (ms_info m)"
    "node_flags (mi_nodes sn) = node_flags (mi_nodes (ms_info m))" "\<And>k. tables_of sn k = tables_of (ms_info m) k"
    using ok(1) by (simp_all add: same_meta_def)
  have st: "node_statuses ns = map (\<lambda>(k, d). \<lparr>ns_node = String2Node k default_node,
      ns_state = (if d then DOWN else UP)\<rparr>) (node_flags ns)" for ns
    by (simp add: node_statuses_def node_flags_def)
  have "the ((case nt k of None \<Rightarrow> nt(k \<mapsto> {||}) | Some _ \<Rightarrow> nt) k) = (case nt k of None \<Rightarrow> {||} | Some ts \<Rightarrow> ts)"
    for nt :: node_table_map and k by (simp split: option.split)
  then have q: "fst (pull_tables rq sn) = fst (pull_tables rq (ms_info m))"
    using s(2) s(4) [unfolded tables_of_def] by (simp add: pull_tables_def Let_def split: option.split)
  have sn': "mi_version sn' = mi_version sn" "mi_nodes sn' = mi_nodes sn"
    using p by (auto simp: pull_tables_def Let_def split: option.splits if_splits)
  have tables: "tables = fst (pull_tables rq (ms_info m))" using p q by simp
  have "node_statuses (mi_nodes sn) = node_statuses (mi_nodes (ms_info m))" using s(3) by (simp add: st)
  then show ?thesis
    using g p assms(2) ok(3) s(1) sn' tables by (simp add: DealPull_def CheckEpoch_def Let_def)
qed

theorem pull_answers_current_witness:
  "\<exists>r m'. DealPull (default_request\<lparr>rq_type := PULL, rq_pull_all := True\<rparr>) default_response ex_one_down = (r, m') \<and>
     rs_version r = VersionInfo 3 1 \<and> map mt_name (rs_pull_info r) = [''t''] \<and>
     map ns_state (rs_pull_nodes r) = [DOWN, UP]"
proof -
  let ?rq = "default_request\<lparr>rq_type := PULL, rq_pull_all := True\<rparr>"
  have t: "rq_type ?rq = PULL" by simp
  have e: "mi_version (ms_info ex_one_down) = VersionInfo 3 1"
    "map mt_name (fst (pull_tables ?rq (ms_info ex_one_down))) = [''t'']"
    "map ns_state (node_statuses (mi_nodes (ms_info ex_one_down))) = [DOWN, UP]" by code_simp+
  show ?thesis
    using pull_answers_current [OF ex_one_down_reachable t, of default_response] e
    by (auto simp: default_response_def)
qed

text \<open>
  C30: no step of a running meta server takes the epoch or the version back, and a step that
  leaves both as they are changes no table, no state of a node and no entry of the index.
\<close>

theorem meta_version_monotone:
  assumes "meta_reachable m" and "meta_step m m'"
  shows "v_epoch (mi_version (ms_info m)) \<le> v_epoch (mi_version (ms_info m')) \<and>
    v_version (mi_version (ms_info m)) \<le> v_version (mi_version (ms_info m')) \<and>
    (mi_version (ms_info m') = mi_version (ms_info m) \<longrightarrow> same_meta (ms_info m) (ms_info m'))"
  using server_inv_step [OF assms(2) reachable_server_inv [OF assms(1)]]
  by (auto simp: advances_def newer_def same_meta_def)

theorem meta_version_monotone_witness:
  "meta_step ex_two_nodes ex_one_down \<and>
   v_epoch (mi_version (ms_info ex_two_nodes)) \<le> v_epoch (mi_version (ms_info ex_one_down))"
proof -
  let ?rq = "default_request\<lparr>rq_type := DOWNNODES, rq_version := VersionInfo 2 1, rq_down_nodes := [Node ''b'' 2]\<rparr>"
  have ok: "layout_ok ex_layout" "(5 :: nat) > 0" by (simp_all add: ex_layout_def layout_ok_def)
  have r: "request_ok ?rq (ms_info ex_two_nodes)" by code_simp
  have "DealRequest ex_layout 5 ?rq None ex_two_nodes \<noteq> None" by (simp add: DealRequest_def)
  then obtain resp where "DealRequest ex_layout 5 ?rq None ex_two_nodes = Some (resp, ex_one_down)"
    by (auto simp: ex_one_down_def ex_apply_def)
  from meta_step.applied [OF ok r this] show ?thesis
    using meta_version_monotone [OF ex_two_nodes_reachable] by blast
qed



subsection \<open>Snapshots\<close>

text \<open>
  C29: loading the snapshot that one server saved into another server that is behind succeeds
  and gives the second the version, the tables and the up or down state of every node of
  the first, with every replica in the index.
\<close>

theorem snapshot_restores:
  assumes "meta_reachable m0" and "layout_ok l" and "rearranges rhg" and "now > 0"
    and "SaveSnapshot rhg save add m0 = Some files" and "newer (mi_version (ms_info m)) (sf_version files)"
    and "on_snapshot_load l now (sf_version files) (Some (sf_tables files)) (Some (sf_nodes files)) m = (ret, m')"
  shows "ret = 0 \<and> mi_version (ms_info m') = mi_version (ms_info m0) \<and>
    map_of (table_info (ms_info m')) = map_of (table_info (ms_info m0)) \<and>
    (\<forall>k. map_option (\<lambda>t. t = 0) (map_of (mi_nodes (ms_info m')) k) =
         map_option (\<lambda>t. t = 0) (map_of (mi_nodes (ms_info m0)) k)) \<and>
    (\<forall>(name, t) \<in> set (table_info (ms_info m')). \<forall>p \<in> set (mt_partitions t). \<forall>n \<in> set (real_replicas p).
       name |\<in>| tables_of (ms_info m') (Node2String n))"
proof -
  have inv: "meta_inv (ms_info m0)" using reachable_server_inv [OF assms(1)] by (simp add: server_inv_def)
  note l = load_step [OF inv assms(2-7)]
  note r = loaded_snapshot [OF inv assms(2,3) refl, where now = now and ver = "mi_version (ms_info m0)"]
  have "ret = 0" using assms(7) by (auto simp: on_snapshot_load_def Let_def split: prod.splits)
  moreover have "map_option (\<lambda>t. t = 0) (map_of (mi_nodes (ms_info m')) k) =
      map_option (\<lambda>t. t = 0) (map_of (mi_nodes (ms_info m0)) k)" for k
    using assms(4) unfolding l(3) by (simp add: r(4) option.map_comp comp_def cong: option.map_cong)
  moreover have "name |\<in>| tables_of (ms_info m') (Node2String n)"
    if "(name, t) \<in> set (table_info (ms_info m'))" "p \<in> set (mt_partitions t)" "n \<in> set (real_replicas p)" for name t p n
    using r(6) [of name t p n] that unfolding l(3) by (auto simp: indexed_def tables_of_def)
  ultimately show ?thesis unfolding l(3) using r(1,2) by auto
qed

theorem snapshot_restores_witness:
  "\<exists>files m'. SaveSnapshot rev (\<lambda>_. True) (\<lambda>_. True) ex_one_down = Some files \<and>
     on_snapshot_load ex_layout 7 (sf_version files) (Some (sf_tables files)) (Some (sf_nodes files))
       (MetaServer_Start MetaServer_new) = (0, m') \<and>
     mi_version (ms_info m') = VersionInfo 3 1 \<and>
     map_option (\<lambda>t. t = 0) (map_of (mi_nodes (ms_info m')) ''b:2'') = Some True"
proof -
  let ?m = "MetaServer_Start MetaServer_new"
  have l: "layout_ok ex_layout" by (simp add: ex_layout_def layout_ok_def)
  obtain files where f: "SaveSnapshot rev (\<lambda>_. True) (\<lambda>_. True) ex_one_down = Some files"
    by (simp add: SaveSnapshot_def Let_def)
  then have v: "sf_version files = mi_version (ms_info ex_one_down)" by (auto simp: SaveSnapshot_def Let_def)
  have e: "mi_version (ms_info ex_one_down) = VersionInfo 3 1"
    "map_of (mi_nodes (ms_info ex_one_down)) ''b:2'' = Some 0" by code_simp+
  have n: "newer (mi_version (ms_info ?m)) (sf_version files)"
    unfolding v e by (simp add: newer_def VersionInfo_def MetaServer_Start_def MetaServer_new_def MetaInfo_Init_def MetaInfo_new_def)
  obtain ret m' where m': "on_snapshot_load ex_layout 7 (sf_version files) (Some (sf_tables files)) (Some (sf_nodes files)) ?m = (ret, m')"
    by fastforce
  have "(7 :: nat) > 0" by simp
  note r = snapshot_restores [OF ex_one_down_reachable l rearranges_id(2) this f n m']
  have "map_option (\<lambda>t. t = 0) (map_of (mi_nodes (ms_info m')) ''b:2'') =
      map_option (\<lambda>t. t = 0) (map_of (mi_nodes (ms_info ex_one_down)) ''b:2'')" using r by blast
  then have "map_option (\<lambda>t. t = 0) (map_of (mi_nodes (ms_info m')) ''b:2'') = Some True" unfolding e(2) by simp
  moreover have "ret = 0" "mi_version (ms_info m') = VersionInfo 3 1" using r e(1) by simp_all
  ultimately show ?thesis using f m' by blast
qed

subsection \<open>What the code does not do\<close>

text \<open>No migration is ever scheduled: \<open>MigrateFromTable\<close> leaves the list of tasks as it is, so no
  reachable server has a task to hand out, with \<^verbatim>\<open>auto_migrate\<close> or without.\<close>

theorem no_migration_is_scheduled:
  assumes "meta_reachable m"
  shows "\<not> HasMigrateTask (ms_migrate m)"
  using reachable_server_inv [OF assms] by (simp add: server_inv_def HasMigrateTask_def)

text \<open>Epoch 0 stands for a failure in the replies: on a server that no node has reported to, a
  table is created and the reply says that it exists already.\<close>

theorem create_at_epoch_zero_replies_exist:
  "\<exists>r m'. DealRequest ex_layout 5 (default_request\<lparr>rq_type := INIT, rq_init_table := default_meta_table\<lparr>mt_name := ''t''\<rparr>\<rparr>)
       (Some default_response) (MetaServer_Start MetaServer_new) = Some (Some r, m') \<and>
     rs_status r = EXIST \<and> ExistTable ''t'' (ms_info m') \<and>
     \<not> ExistTable ''t'' (ms_info (MetaServer_Start MetaServer_new))"
proof -
  let ?rq = "default_request\<lparr>rq_type := INIT, rq_init_table := default_meta_table\<lparr>mt_name := ''t''\<rparr>\<rparr>"
  let ?m = "MetaServer_Start MetaServer_new"
  let ?r = "DealInit (lay_tables ex_layout) ?rq (Some default_response) ?m"
  obtain a m' where r: "?r = (a, m')" by fastforce
  have "map_option rs_status (fst ?r) = Some EXIST" "ExistTable ''t'' (ms_info (snd ?r))" "\<not> ExistTable ''t'' (ms_info ?m)"
    by code_simp+
  then obtain r where x: "a = Some r" "rs_status r = EXIST" "ExistTable ''t'' (ms_info m')" "\<not> ExistTable ''t'' (ms_info ?m)"
    unfolding r by auto
  have "DealRequest ex_layout 5 ?rq (Some default_response) ?m = Some (Some r, m')"
    using r x(1) by (simp add: DealRequest_def)
  then show ?thesis using x by blast
qed

end
