(* ===== verification/Noah_Meta_Replicas.thy ===== *)
theory Noah_Meta_Replicas
  imports Noah_Meta_Properties
begin

text \<open>
  The meta servers as replicas of one state machine: servers that apply the same log agree on
  everything but the local times at which they heard of the nodes, whatever their clocks say and
  whether they proposed an entry or received it. The order of a hash map may depend on its
  keys and their history, not on the values.
\<close>

definition key_order :: "(('k \<times> 'v) list \<Rightarrow> ('k \<times> 'v) list) \<Rightarrow> bool" where
  "key_order rh \<longleftrightarrow> (\<forall>m m'. map fst m = map fst m' \<longrightarrow> map fst (rh m) = map fst (rh m'))"

lemma key_order_id [simp]: "key_order (\<lambda>m. m)"
  by (simp add: key_order_def)

definition agree :: "meta_info \<Rightarrow> meta_info \<Rightarrow> bool" where
  "agree s s' \<longleftrightarrow>
     mi_version s' = mi_version s \<and> table_info s' = table_info s \<and> node_table s' = node_table s \<and>
     node_flags (mi_nodes s') = node_flags (mi_nodes s) \<and> umap_wf (mi_nodes s) \<and> umap_wf (mi_nodes s')"

lemma node_flags_keys: "map fst (node_flags ns) = map fst ns"
  by (simp add: node_flags_def)

lemma agree_keys: "agree s s' \<Longrightarrow> map fst (mi_nodes s') = map fst (mi_nodes s)"
  unfolding agree_def by (metis node_flags_keys)

lemma map_of_node_flags: "map_of (node_flags ns) k = map_option (\<lambda>t. t = 0) (map_of ns k)"
  by (induction ns) (auto simp: node_flags_def)

lemma agree_lookup:
  assumes "agree s s'"
  shows "map_option (\<lambda>t. t = 0) (map_of (mi_nodes s') k) = map_option (\<lambda>t. t = 0) (map_of (mi_nodes s) k)"
    and "map_of (mi_nodes s') k = None \<longleftrightarrow> map_of (mi_nodes s) k = None"
proof -
  show eq: "map_option (\<lambda>t. t = 0) (map_of (mi_nodes s') k) = map_option (\<lambda>t. t = 0) (map_of (mi_nodes s) k)"
    using assms unfolding agree_def by (metis map_of_node_flags)
  then show "map_of (mi_nodes s') k = None \<longleftrightarrow> map_of (mi_nodes s) k = None"
    by (cases "map_of (mi_nodes s) k"; cases "map_of (mi_nodes s') k") auto
qed

lemma node_flags_cong:
  assumes "umap_wf ns" and "umap_wf ns'" and "map fst ns = map fst ns'"
    and "\<And>k. map_option (\<lambda>t. t = 0) (map_of ns k) = map_option (\<lambda>t. t = 0) (map_of ns' k)"
  shows "node_flags ns = node_flags ns'"
proof -
  have f: "node_flags ns = map (\<lambda>k. (k, the (map_option (\<lambda>t. t = 0) (map_of ns k)))) (map fst ns)"
    if "umap_wf ns" for ns
    using that by (auto simp: node_flags_def umap_wf_def)
  show ?thesis
    unfolding f [OF assms(1)] f [OF assms(2)] assms(3) by (simp only: assms(4))
qed

lemma agree_nodes:
  assumes "agree s s'" and "umap_wf ns" and "umap_wf ns'" and "map fst ns = map fst ns'"
    and "\<And>k. map_option (\<lambda>t. t = 0) (map_of ns k) = map_option (\<lambda>t. t = 0) (map_of ns' k)"
  shows "agree (s\<lparr>mi_nodes := ns\<rparr>) (s'\<lparr>mi_nodes := ns'\<rparr>)"
  using assms node_flags_cong [OF assms(2-5)] by (simp add: agree_def)

lemma agree_update:
  assumes "agree s s'" and "t = 0 \<longleftrightarrow> t' = (0 :: nat)" and "k \<in> fst ` set (mi_nodes s)"
  shows "agree (s\<lparr>mi_nodes := AList.update k t (mi_nodes s)\<rparr>) (s'\<lparr>mi_nodes := AList.update k t' (mi_nodes s')\<rparr>)"
proof -
  have k: "map fst (AList.update k x m) = map fst m" if "k \<in> fst ` set m" for x and m :: "(string \<times> nat) list"
    using that by (induction m) auto
  have mem: "k \<in> fst ` set (mi_nodes s')" using assms(3) agree_keys [OF assms(1)] by (metis list.set_map)
  show ?thesis
    using assms agree_keys [OF assms(1)] agree_lookup(1) [OF assms(1)] k mem
    by (intro agree_nodes) (auto simp: agree_def update_conv')
qed

lemma agree_put:
  assumes "agree s s'" and "t = 0 \<longleftrightarrow> t' = (0 :: nat)" and "k \<notin> fst ` set (mi_nodes s)"
    and "rearranges rh" and "key_order rh"
  shows "agree (s\<lparr>mi_nodes := umap_put rh k t (mi_nodes s)\<rparr>) (s'\<lparr>mi_nodes := umap_put rh k t' (mi_nodes s')\<rparr>)"
proof -
  have mem: "k \<notin> fst ` set (mi_nodes s')" using assms(3) agree_keys [OF assms(1)] by (metis list.set_map)
  have "map fst (rh ((k, t) # mi_nodes s)) = map fst (rh ((k, t') # mi_nodes s'))"
    using assms(5) agree_keys [OF assms(1)] unfolding key_order_def by (metis fst_conv list.simps(9))
  then have "map fst (umap_put rh k t (mi_nodes s)) = map fst (umap_put rh k t' (mi_nodes s'))"
    using assms(3) mem by (simp add: umap_put_def)
  then show ?thesis
    using assms agree_lookup(1) [OF assms(1)] by (intro agree_nodes) (auto simp: agree_def)
qed

lemma agree_bump: "agree s s' \<Longrightarrow> agree (bump_epoch s) (bump_epoch s')" "agree s s' \<Longrightarrow> agree (bump_version s) (bump_version s')"
  by (simp_all add: agree_def bump_epoch_def bump_version_def)

lemma agree_UpdatePartNodeMS:
  assumes "agree s s'"
  shows "agree (UpdatePartNodeMS n s) (UpdatePartNodeMS n s')"
proof -
  have "map (\<lambda>p. String2Node (fst p) default_node) (mi_nodes s') = map (\<lambda>p. String2Node (fst p) default_node) (mi_nodes s)"
    using arg_cong [OF agree_keys [OF assms], of "map (\<lambda>k. String2Node k default_node)"] by (simp add: comp_def)
  then show ?thesis using assms by (simp add: UpdatePartNodeMS_eq agree_def Let_def split: prod.split)
qed

lemma agree_UpdateNode:
  assumes "agree s s'" and "now > 0" and "now' > 0" and "rearranges rhn" and "key_order rhn"
  shows "agree (snd (UpdateNode rhn now n s)) (snd (UpdateNode rhn now' n s'))"
proof -
  let ?k = "Node2String n"
  have z: "now = 0 \<longleftrightarrow> now' = 0" using assms(2,3) by simp
  show ?thesis
  proof (cases "map_of (mi_nodes s) ?k")
    case None
    then have "?k \<notin> fst ` set (mi_nodes s)" "map_of (mi_nodes s') ?k = None"
      using agree_lookup(2) [OF assms(1)] by (auto simp: map_of_eq_None_iff)
    then show ?thesis
      using None agree_bump(1) [OF agree_put [OF assms(1) z _ assms(4,5)]] by (simp add: UpdateNode_def Let_def)
  next
    case (Some a)
    then have k: "?k \<in> fst ` set (mi_nodes s)" by (metis domI dom_map_of_conv_image_fst)
    from Some agree_lookup(1) [OF assms(1), of ?k] obtain a' where
      a': "map_of (mi_nodes s') ?k = Some a'" "a' = 0 \<longleftrightarrow> a = 0" by auto
    note up = agree_update [OF assms(1) z k]
    have "agree (bump_epoch (UpdatePartNodeMS n (s\<lparr>mi_nodes := AList.update ?k now (mi_nodes s)\<rparr>)))
        (bump_epoch (UpdatePartNodeMS n (s'\<lparr>mi_nodes := AList.update ?k now' (mi_nodes s')\<rparr>)))"
      by (intro agree_bump(1) agree_UpdatePartNodeMS up)
    from agree_update [OF this z, of ?k] have "agree
        (let s = bump_epoch (UpdatePartNodeMS n (s\<lparr>mi_nodes := AList.update ?k now (mi_nodes s)\<rparr>))
         in s\<lparr>mi_nodes := AList.update ?k now (mi_nodes s)\<rparr>)
        (let s' = bump_epoch (UpdatePartNodeMS n (s'\<lparr>mi_nodes := AList.update ?k now' (mi_nodes s')\<rparr>))
         in s'\<lparr>mi_nodes := AList.update ?k now' (mi_nodes s')\<rparr>)"
      using k by (simp add: bump_epoch_def UpdatePartNodeMS_eq Let_def dom_update split: prod.split)
    then show ?thesis using Some a' up by (simp add: UpdateNode_def Let_def)
  qed
qed

lemma agree_CreateTable: "agree s s' \<Longrightarrow> agree (snd (CreateTable rht info t s)) (snd (CreateTable rht info t s'))"
  by (auto simp: CreateTable_def agree_def bump_version_def Let_def split: option.split)

lemma agree_drop_fold:
  assumes "agree s s'"
  shows "fst (foldl drop_one (c, s') names) = fst (foldl drop_one (c, s) names) \<and>
    agree (snd (foldl drop_one (c, s) names)) (snd (foldl drop_one (c, s') names))"
proof (rule foldl_rel [where R = "\<lambda>p q. fst q = fst p \<and> agree (snd p) (snd q)"])
  show "fst (drop_one q name) = fst (drop_one p name) \<and> agree (snd (drop_one p name)) (snd (drop_one q name))"
    if "fst q = fst p \<and> agree (snd p) (snd q)" for p q name
    using that by (cases p; cases q) (auto simp: drop_one_def agree_def split: option.split)
qed (simp add: assms)

lemma agree_DropTable:
  assumes "agree s s'"
  shows "agree (snd (DropTable info tables s)) (snd (DropTable info tables s'))"
proof -
  have "mi_version s' = mi_version s" using assms by (simp add: agree_def)
  then show ?thesis
    using assms agree_drop_fold [OF assms, of False tables] agree_bump(2)
    by (auto simp: DropTable_def Let_def split: prod.splits)
qed

lemma agree_down_one:
  assumes "agree s s'"
  shows "fst (down_one (c, s') n) = fst (down_one (c, s) n) \<and> agree (snd (down_one (c, s) n)) (snd (down_one (c, s') n))"
proof -
  have keys: "fst ` set (mi_nodes s') = fst ` set (mi_nodes s)"
    using agree_keys [OF assms] by (metis list.set_map)
  show ?thesis unfolding down_one_eq using assms keys agree_update [OF assms, of 0 0] by auto
qed

lemma agree_down_fold:
  assumes "agree s s'"
  shows "fst (foldl down_one (c, s') ns) = fst (foldl down_one (c, s) ns) \<and>
    agree (snd (foldl down_one (c, s) ns)) (snd (foldl down_one (c, s') ns))"
proof (rule foldl_rel [where R = "\<lambda>p q. fst q = fst p \<and> agree (snd p) (snd q)"])
  show "fst (down_one q n) = fst (down_one p n) \<and> agree (snd (down_one p n)) (snd (down_one q n))"
    if "fst q = fst p \<and> agree (snd p) (snd q)" for p q n
    using agree_down_one [of "snd p" "snd q" "fst p" n] that by (cases p; cases q) simp
qed (simp add: assms)

lemma MigrateFromTable_keys:
  assumes "\<And>k. map_of ns' k = None \<longleftrightarrow> map_of ns k = None"
  shows "MigrateFromTable ns' v n t = MigrateFromTable ns v n t"
proof -
  have "migrate_partition ns' n p = migrate_partition ns n p" for p
    unfolding migrate_partition_def using assms by simp
  then have "migrate_partition ns' n = migrate_partition ns n" by (rule ext)
  then show ?thesis by (simp add: MigrateFromTable_def)
qed

lemma agree_migrate_table: "agree s s' \<Longrightarrow> agree (migrate_table n s name) (migrate_table n s' name)"
  using MigrateFromTable_keys [OF agree_lookup(2), of s s']
  by (auto simp: migrate_table_def agree_def split: option.split)

lemma agree_migrate_fold: "agree s s' \<Longrightarrow> agree (foldl (migrate_table n) s names) (foldl (migrate_table n) s' names)"
  by (rule foldl_rel [where R = agree]) (auto intro: agree_migrate_table)

lemma agree_MigrateFromNode:
  assumes "agree s s'"
  shows "agree (fst (foldl MigrateFromNode (s, tasks) ns)) (fst (foldl MigrateFromNode (s', tasks') ns)) \<and>
    snd (foldl MigrateFromNode (s, tasks) ns) = tasks"
  using assms
proof (induction ns arbitrary: s s')
  case (Cons n ns)
  have nt: "node_table s' = node_table s" using Cons.prems by (simp add: agree_def)
  let ?f = "\<lambda>s. foldl (migrate_table n) (s\<lparr>node_table := (node_table s)(Node2String n := None)\<rparr>)
      (sorted_list_of_fset (case node_table s (Node2String n) of None \<Rightarrow> {||} | Some ts \<Rightarrow> ts))"
  have m: "MigrateFromNode (x, ts) n = (?f x, ts)" for x ts by (simp add: MigrateFromNode_def Let_def)
  have "agree (?f s) (?f s')"
    unfolding nt using Cons.prems by (intro agree_migrate_fold) (simp add: agree_def)
  from Cons.IH [OF this] show ?case by (simp add: m)
qed simp

lemma agree_DownNodes:
  assumes "agree s s'" and "DownNodes e ns tasks s = (info, tasks1, s1)" and "DownNodes e ns tasks s' = (info', tasks1', s1')"
  shows "agree s1 s1' \<and> info' = info \<and> tasks1 = tasks \<and> tasks1' = tasks"
proof -
  obtain c x x' where d: "foldl down_one (False, s) ns = (c, x)" "foldl down_one (False, s') ns = (c, x')" "agree x x'"
    using agree_down_fold [OF assms(1), of False ns] by (metis prod.collapse)
  have v: "mi_version s' = mi_version s" using assms(1) by (simp add: agree_def)
  note m = agree_MigrateFromNode [OF agree_bump(1) [OF d(3)], of tasks ns tasks]
  have "agree (bump_epoch x') (bump_epoch x')" using d(3) by (simp add: agree_def bump_epoch_def)
  note m' = agree_MigrateFromNode [OF this, of tasks ns tasks]
  show ?thesis
    using assms d m m' v by (auto simp: DownNodes_def Let_def agree_def split: if_splits prod.splits)
qed

lemma agree_CommitMigrate:
  assumes "agree s s'"
  shows "rel_option (rel_prod (=) agree) (CommitMigrate info pr s) (CommitMigrate info pr s')"
  using assms by (auto simp: CommitMigrate_def agree_def bump_version_def Let_def split: option.split)

subsection \<open>Requests\<close>

definition same_replica :: "meta_server \<Rightarrow> meta_server \<Rightarrow> bool" where
  "same_replica m m' \<longleftrightarrow>
     agree (ms_info m) (ms_info m') \<and> ms_migrate m' = ms_migrate m \<and> migrate_tasks (ms_migrate m) = []"

lemma GetMetaInfoSnapshot_frame:
  "ms_info (snd (GetMetaInfoSnapshot m)) = ms_info m \<and> ms_migrate (snd (GetMetaInfoSnapshot m)) = ms_migrate m"
  by (auto simp: GetMetaInfoSnapshot_def Let_def split: option.split)

lemma DealPing_state:
  assumes "migrate_tasks (ms_migrate m) = []" and "rq_type rq = PING"
  shows "\<exists>response' m1. DealPing rhn now rq response m = Some (response', m1) \<and>
    ms_info m1 = snd (UpdateNode rhn now (rq_ping_node rq) (ms_info m)) \<and> ms_migrate m1 = ms_migrate m"
proof -
  obtain sn m0 where g: "GetMetaInfoSnapshot m = (sn, m0)" by fastforce
  have f: "ms_info m0 = ms_info m" "ms_migrate m0 = ms_migrate m" using GetMetaInfoSnapshot_frame [of m] g by simp_all
  obtain info mi where u: "UpdateNode rhn now (rq_ping_node rq) (ms_info m) = (info, mi)" by fastforce
  show ?thesis using assms g f u by (simp add: DealPing_def CheckEpoch_def HasMigrateTask_def Let_def)
qed

lemma same_replica_step:
  assumes "same_replica m m'" and "layout_ok l" and "key_order (lay_nodes l)" and "now > 0" and "now' > 0"
  shows "rel_option (\<lambda>r r'. same_replica (snd r) (snd r'))
    (DealRequest l now rq response m) (DealRequest l now' rq response' m')"
proof -
  have a: "agree (ms_info m) (ms_info m')" "ms_migrate m' = ms_migrate m" "migrate_tasks (ms_migrate m) = []"
    using assms(1) by (auto simp: same_replica_def)
  have rh: "rearranges (lay_nodes l)" using assms(2) by (simp add: layout_ok_def)
  show ?thesis
  proof (cases "rq_type rq")
    case PING
    have t': "migrate_tasks (ms_migrate m') = []" using a by simp
    from DealPing_state [OF a(3) PING, of "lay_nodes l" now response]
      DealPing_state [OF t' PING, of "lay_nodes l" now' response']
      agree_UpdateNode [OF a(1) assms(4,5) rh assms(3), of "rq_ping_node rq"]
    show ?thesis using PING a by (auto simp: DealRequest_def same_replica_def)
  next
    case INIT
    then show ?thesis
      using a agree_CreateTable [OF a(1), of "lay_tables l" "rq_version rq" "rq_init_table rq"]
      by (simp add: DealRequest_def DealInit_def same_replica_def case_prod_unfold Let_def)
  next
    case DROPTABLE
    then show ?thesis
      using a agree_DropTable [OF a(1), of "rq_version rq" "rq_drop_names rq"]
      by (simp add: DealRequest_def DealDropTable_def same_replica_def case_prod_unfold Let_def)
  next
    case DOWNNODES
    obtain info tasks mi info' tasks' mi' where d:
      "DownNodes (v_epoch (rq_version rq)) (rq_down_nodes rq) [] (ms_info m) = (info, tasks, mi)"
      "DownNodes (v_epoch (rq_version rq)) (rq_down_nodes rq) [] (ms_info m') = (info', tasks', mi')"
      by (metis prod_cases3)
    show ?thesis
      using DOWNNODES d agree_DownNodes [OF a(1) d] a
      by (auto simp: DealRequest_def DealDownNodes_def same_replica_def AddMigrateTasks_def Let_def)
  next
    case MIGRATE
    then show ?thesis
      using a agree_CommitMigrate [OF a(1), of "rq_version rq" "Processor_of_unit (rq_migrate_unit rq)"]
      by (auto simp: DealRequest_def DealMigrate_def same_replica_def Let_def option_rel_Some1 option_rel_Some2
          rel_option_iff split: option.splits prod.splits)
  qed (use assms(1) in \<open>auto simp: DealRequest_def\<close>)
qed

text \<open>The log of one server and the log of another: the same data, and a request that is still at
  hand where it was proposed is the one in the log.\<close>

definition same_task :: "('d \<Rightarrow> meta_cmd_request) \<Rightarrow> 'd log_task \<Rightarrow> 'd log_task \<Rightarrow> bool" where
  "same_task par a b \<longleftrightarrow>
     tk_data a = tk_data b \<and> task_request par a = par (tk_data a) \<and> task_request par b = par (tk_data b) \<and>
     tk_now a > 0 \<and> tk_now b > 0"

lemma replicas_agree_fold:
  assumes "list_all2 (same_task par) tasks tasks'" and "same_replica m m'" and "layout_ok l" and "key_order (lay_nodes l)"
  shows "rel_option (\<lambda>r r'. same_replica (snd r) (snd r')) (on_apply l par tasks m) (on_apply l par tasks' m')"
  using assms(1,2)
proof (induction arbitrary: m m' rule: list_all2_induct)
  case (Cons a as b bs)
  have rq: "task_request par b = task_request par a" and now: "tk_now a > 0" "tk_now b > 0"
    using Cons.hyps(1) by (auto simp: same_task_def)
  note step = same_replica_step [OF Cons.prems assms(3,4) now, of "task_request par a"
      "map_option snd (tk_done a)" "map_option snd (tk_done b)"]
  show ?case
  proof (cases "DealRequest l (tk_now a) (task_request par a) (map_option snd (tk_done a)) m")
    case None
    then show ?thesis using step rq by simp
  next
    case (Some r)
    then obtain r' where r': "DealRequest l (tk_now b) (task_request par a) (map_option snd (tk_done b)) m' = Some r'"
      "same_replica (snd r) (snd r')" using step by (auto simp: option_rel_Some1)
    show ?thesis
      using Some r'(1) Cons.IH [OF r'(2)] rq
      by (cases r; cases r') (auto simp: option.rel_map split: prod.splits)
  qed
qed simp

text \<open>
  C26: servers that apply the same log entries to states that agree reach states that agree:
  version, tables, index and the up or down state of every node are the same, although
  the servers read different clocks and only one of them proposed the entries; and they agree on
  whether an entry has undefined behaviour.
\<close>

theorem replicas_agree:
  assumes "list_all2 (same_task par) tasks tasks'" and "same_replica m m'"
    and "layout_ok l" and "key_order (lay_nodes l)"
  shows "case (on_apply l par tasks m, on_apply l par tasks' m') of
      (None, None) \<Rightarrow> True
    | (Some (_, m1), Some (_, m1')) \<Rightarrow>
        mi_version (ms_info m1') = mi_version (ms_info m1) \<and> table_info (ms_info m1') = table_info (ms_info m1) \<and>
        node_table (ms_info m1') = node_table (ms_info m1) \<and>
        node_flags (mi_nodes (ms_info m1')) = node_flags (mi_nodes (ms_info m1)) \<and> same_replica m1 m1'
    | _ \<Rightarrow> False"
  using replicas_agree_fold [OF assms]
  by (cases "on_apply l par tasks m"; cases "on_apply l par tasks' m'") (auto simp: same_replica_def agree_def)

theorem replicas_agree_witness:
  "\<exists>rs m1 rs' m1'.
     on_apply ex_layout id [\<lparr>tk_data = hd ex_requests, tk_done = Some (hd ex_requests, default_response), tk_now = 3\<rparr>]
       MetaServer_new = Some (rs, m1) \<and>
     on_apply ex_layout id [\<lparr>tk_data = hd ex_requests, tk_done = None, tk_now = 8\<rparr>] MetaServer_new = Some (rs', m1') \<and>
     mi_nodes (ms_info m1) = [(''a:1'', 3)] \<and> node_flags (mi_nodes (ms_info m1')) = [(''a:1'', False)]"
proof -
  let ?a = "[\<lparr>tk_data = hd ex_requests, tk_done = Some (hd ex_requests, default_response), tk_now = 3\<rparr>]"
  let ?b = "[\<lparr>tk_data = hd ex_requests, tk_done = None, tk_now = 8\<rparr>]"
  have l: "layout_ok ex_layout" "key_order (lay_nodes ex_layout)" by (simp_all add: ex_layout_def layout_ok_def)
  have t: "list_all2 (same_task id) ?a ?b" by (simp add: same_task_def task_request_def)
  have s: "same_replica MetaServer_new MetaServer_new"
    by (simp add: same_replica_def agree_def MetaServer_new_def MetaInfo_new_def MetaMigrate_new_def)
  have "map_option (\<lambda>r. mi_nodes (ms_info (snd r))) (on_apply ex_layout id ?a MetaServer_new) = Some [(''a:1'', 3)]"
    by code_simp
  then obtain rs m1 where r: "on_apply ex_layout id ?a MetaServer_new = Some (rs, m1)" "mi_nodes (ms_info m1) = [(''a:1'', 3)]"
    by auto
  with replicas_agree [OF t s l] obtain rs' m1' where
    "on_apply ex_layout id ?b MetaServer_new = Some (rs', m1')"
    "node_flags (mi_nodes (ms_info m1')) = node_flags (mi_nodes (ms_info m1))"
    by (auto split: option.splits)
  then show ?thesis using r by (auto simp: node_flags_def)
qed

end
