(* ===== verification/Spec2Isabelle.thy ===== *)
theory Spec2Isabelle
  imports Raft_Election_Runs Raft_Fsm_Runs Raft_Log_Manager_Runs Noah_Lb_Key Noah_Cache_Expiry Noah_Meta_Replicas
begin

text \<open>
  \<^bold>\<open>The program.\<close> The nori repository holds the RPC framework brpc, the consensus library
  braft on top of it, and noah, a partitioned key-value store. A meta server of noah is a
  replicated state machine of braft: it keeps which nodes live and which node serves which
  partition of which table. The storage nodes ask it for that table and keep the data in a cache
  and in level-db. The development models the consensus library and the meta server, and
  the data structures of the storage node.

  \<^bold>\<open>How the parts work together.\<close> A node of braft (\<^verbatim>\<open>NodeImpl\<close>) elects a leader with ballots
  (\<^verbatim>\<open>Ballot\<close>) and leases. The leader appends tasks to its log manager, whose disk thread writes
  them to the log storage, and counts the acknowledgements of the peers in the ballot
  box. What the ballot box commits goes to the caller of the state machine, which reads the
  entries back from the log manager and hands them to the user, here the meta server.

  \<^bold>\<open>Theories and sources.\<close> Paths are below \<^verbatim>\<open>src/\<close>; the definitions carry the names of the functions,
  with a short prefix where several classes use one name.

  \<^item> \<^verbatim>\<open>Nori_Prelude\<close>, \<^verbatim>\<open>Nori_Ordered_Map\<close>: hash maps as association lists whose order is up to a
    rehash function, \<^verbatim>\<open>std::map\<close> as sorted association lists with the locale \<^verbatim>\<open>ordered_map\<close>,
    32-bit wrap-around, and lemmas on folds that all components share.
  \<^item> \<^verbatim>\<open>Raft_Configuration\<close> (\<^verbatim>\<open>raft/braft/configuration.h\<close>, \<^verbatim>\<open>configuration_manager\<close>): peers, log ids
    with their orders, configurations as finite sets, the history of configurations.
  \<^item> \<^verbatim>\<open>Raft_Ballot\<close>, \<^verbatim>\<open>Raft_Ballot_Box\<close> (\<^verbatim>\<open>ballot.cpp\<close>, \<^verbatim>\<open>ballot_box.cpp\<close>, \<^verbatim>\<open>closure_queue.cpp\<close>): ballots
    with position hints, the box, and the abstract tracker of votes it implements. The locale
    \<^verbatim>\<open>quorum_system\<close> is interpreted on the majorities of a configuration.
  \<^item> \<^verbatim>\<open>Raft_Log_Storage\<close>, \<^verbatim>\<open>Raft_Memory_Log\<close> (\<^verbatim>\<open>storage.h\<close>, \<^verbatim>\<open>memory_log.cpp\<close>): the interface of a log storage
    as the locale \<^verbatim>\<open>log_storage\<close> and the storage in memory as its interpretation \<^verbatim>\<open>mlog\<close>.
  \<^item> \<^verbatim>\<open>Raft_Log_Manager\<close> with \<^verbatim>\<open>_Spec\<close>, \<^verbatim>\<open>_Disk\<close> and \<^verbatim>\<open>_Runs\<close> (\<^verbatim>\<open>log_manager.cpp\<close>): the operations, the abstract log
    they refine (inside \<^verbatim>\<open>log_storage\<close>), the disk thread with its batches, and reachable states.
  \<^item> \<^verbatim>\<open>Raft_Lease\<close>, \<^verbatim>\<open>Raft_Append_Cache\<close> (\<^verbatim>\<open>lease.cpp\<close> and parts of \<^verbatim>\<open>node.cpp\<close>): leader and follower
    leases, and the cache of requests that arrive out of order.
  \<^item> \<^verbatim>\<open>Raft_Node_Types\<close>, \<^verbatim>\<open>Raft_Node\<close>, \<^verbatim>\<open>Raft_Node_Vote\<close>, \<^verbatim>\<open>Raft_Node_Append\<close> (\<^verbatim>\<open>node.cpp\<close>, \<^verbatim>\<open>node.h\<close>): the record
    of \<^verbatim>\<open>NodeImpl\<close> and its handlers. Clock, flags and the outcome of storing the term and the vote
    come from the record \<open>env\<close>; calls of components outside the model are appended to \<open>nd_calls\<close>.
    A handler that gives up the mutex is split into the halves before and after.
  \<^item> \<^verbatim>\<open>Raft_Node_View\<close>, \<^verbatim>\<open>Raft_Node_Effects\<close>, \<^verbatim>\<open>Raft_Election_Invariant\<close>, \<^verbatim>\<open>Raft_Election\<close>, \<^verbatim>\<open>Raft_Election_Runs\<close>:
    what an election depends on in a node, the effect of every handler on it, the group of
    nodes as a step relation over messages in flight, its invariant and a run of three nodes.
  \<^item> \<^verbatim>\<open>Raft_Fsm_Caller\<close>, \<^verbatim>\<open>Raft_Fsm_Runs\<close> (\<^verbatim>\<open>fsm_caller.cpp\<close>, \<^verbatim>\<open>Iterator\<close> of \<^verbatim>\<open>raft.cpp\<close>): the queue of tasks in
    front of a state machine, which is a parameter, and what the state machine sees.
  \<^item> \<^verbatim>\<open>Butil_Strings\<close>, \<^verbatim>\<open>Butil_Hash\<close> (\<^verbatim>\<open>net/butil\<close>): conversion, trimming and splitting of strings, SuperFastHash.
  \<^item> \<^verbatim>\<open>Noah_Lb_Key\<close>, \<^verbatim>\<open>Noah_Cache\<close>, \<^verbatim>\<open>Noah_Cache_Expiry\<close> (\<^verbatim>\<open>storage/noah/common/util.cc\<close>, \<^verbatim>\<open>node/cache.cc\<close>): the keys
    of level-db and the cache of a partition with its batched expiry.
  \<^item> \<^verbatim>\<open>Noah_Entity\<close> (\<^verbatim>\<open>common/entity.cc\<close>), \<^verbatim>\<open>Noah_Meta_Info\<close>, \<^verbatim>\<open>Noah_Meta_Migrate\<close>, \<^verbatim>\<open>Noah_Meta_Command\<close>,
    \<^verbatim>\<open>Noah_Meta_Server\<close> (\<^verbatim>\<open>storage/noah/meta\<close>): the tables, the migration tasks, the commands and the
    state machine; \<^verbatim>\<open>Noah_Meta_Invariant\<close>, \<^verbatim>\<open>_Runs\<close>, \<^verbatim>\<open>_Properties\<close> and \<^verbatim>\<open>_Replicas\<close>: its invariant, reachable
    states, and the comparison of two servers that apply one log.

  \<^bold>\<open>What is shown.\<close>

  \<^item> Elections: no two nodes become leader in one term, and a leader has the stored votes of a
    majority, for every interleaving of handlers, lost, delayed or repeated messages and restarts.
    The steps assume one fixed configuration and that storing the term and the vote succeeds; the
    findings of the manifest say what happens otherwise.
  \<^item> Ballots: granted exactly by strict majorities of both configurations, any two granted ballots
    meet, and the ballot box commits exactly what the abstract tracker commits, never backwards.
  \<^item> Log: appending as leader or follower, truncation, snapshots and the disk thread implement one
    abstract list of entries; every reachable state reads that list back from memory or storage.
  \<^item> State machine: the entries of the log are applied in order and exactly once, each with its
    closure, however commits are batched; an error stops it for good; one commit task is lost
    when it meets a full batch.
  \<^item> Leases and the cache of requests: a valid lease excludes another leader; a cached request is
    handed on once.
  \<^item> Meta server: a node that is down serves nothing, replicas that apply one log agree whatever
    their clocks say, versions never go back, outdated commands are refused, snapshots restore,
    expired nodes are removed, migrations choose the least loaded node.
  \<^item> Storage node and strings: round trips of keys, nodes and numbers; the cache returns what
    was set until it expires, and its scan ends and removes exactly what is dead.

  \<^bold>\<open>Conventions.\<close> A mutex makes an operation atomic. \<^verbatim>\<open>CHECK\<close> of butil only logs unless
  \<^verbatim>\<open>crash_on_fatal_log\<close> is set (\<^verbatim>\<open>logging.cc\<close>), so a failed check goes on in the model as well. Indexes
  and terms of braft are 64-bit counters that start at 0 or 1 and are modelled as integers; 32-bit
  arithmetic of noah and of the hash is kept at its width. Code outside the repository (protobuf,
  the clock, the order of a hash map, the user's state machine) is a parameter; what a theorem needs
  of it is a hypothesis, and its witness instantiates it. Loops are structural or have a
  termination proof; only the scan of the cache takes fuel, one unit per round, and it is
  shown to end with more fuel than the cache has keys, since every round moves on by one.

  \<^bold>\<open>Not modelled.\<close> brpc, bthread, bvar, json2pb and mcpack2pb (sockets, threads, counters and wire
  formats that the storage stack only calls), the rest of butil, third-party code, the demo under
  \<^verbatim>\<open>src/ai\<close> and the hidden Markov model (random numbers and floating point). Of braft: the
  replicator, the snapshot executor and file copier, the storages on files and in level-db, and the
  services that unpack requests. Of noah: the node process around the cache, the client and the
  tools. The manifest lists each of them.
\<close>

end
